(* ===== verification/Prelude.thy ===== *)
theory Prelude
  imports Main "HOL-Library.AList"
begin

text \<open>
  Shared vocabulary of the development: Go strings and byte slices, the functions of the Go
  packages \<open>strings\<close> and \<open>strconv\<close> the sources call, and Go maps as association lists.
  A Go \<open>string\<close> and a \<open>[]byte\<close> are both a list of bytes (\<open>char list\<close>; HOL's
  \<open>char\<close> is exactly one byte), so the conversions \<open>[]byte(s)\<close> and \<open>string(b)\<close> are the
  identity.  A Go map is an association list with distinct keys: its order stands for the
  iteration order, which Go leaves open, so a statement about every association list is a
  statement about every iteration order.
\<close>

named_theorems go_str \<open>rewrite rules for the string functions\<close>
named_theorems go_map \<open>rewrite rules for maps and association lists\<close>

section \<open>Types\<close>

type_synonym bytes = string
type_synonym ('k, 'v) gomap = "('k \<times> 'v) list"

text \<open>A result with a Go \<open>error\<close>: the error is its message text.\<close>

type_synonym 'a result = "string + 'a"

section \<open>Package strings\<close>

definition HasPrefix :: "string \<Rightarrow> string \<Rightarrow> bool" where
  "HasPrefix s p \<longleftrightarrow> take (length p) s = p"

definition HasSuffix :: "string \<Rightarrow> string \<Rightarrow> bool" where
  "HasSuffix s p \<longleftrightarrow> length p \<le> length s \<and> drop (length s - length p) s = p"

definition TrimSuffix :: "string \<Rightarrow> string \<Rightarrow> string" where
  "TrimSuffix s p = (if HasSuffix s p then take (length s - length p) s else s)"

definition CutSuffix :: "string \<Rightarrow> string \<Rightarrow> string option" where
  "CutSuffix s p = (if HasSuffix s p then Some (take (length s - length p) s) else None)"

text \<open>
  \<open>IndexByte\<close> (and \<open>Index\<close> with a one-byte needle): \<open>None\<close> is Go's \<open>-1\<close>.
\<close>

fun IndexByte :: "string \<Rightarrow> char \<Rightarrow> nat option" where
  "IndexByte [] c = None"
| "IndexByte (x # xs) c = (if x = c then Some 0 else map_option Suc (IndexByte xs c))"

fun Contains :: "string \<Rightarrow> string \<Rightarrow> bool" where
  "Contains [] p = (p = [])"
| "Contains (x # xs) p = (HasPrefix (x # xs) p \<or> Contains xs p)"

text \<open>\<open>strings.Split\<close> with a one-byte separator; the result is never empty.\<close>

fun Split :: "string \<Rightarrow> char \<Rightarrow> string list" where
  "Split [] c = [[]]"
| "Split (x # xs) c =
     (if x = c then [] # Split xs c
      else (case Split xs c of [] \<Rightarrow> [[x]] | y # ys \<Rightarrow> (x # y) # ys))"

fun Join :: "string list \<Rightarrow> string \<Rightarrow> string" where
  "Join [] sep = []"
| "Join [x] sep = x"
| "Join (x # y # ys) sep = x @ sep @ Join (y # ys) sep"

text \<open>
  \<open>strings.TrimSpace\<close> removes the runes with \<open>unicode.IsSpace\<close> at both ends.  The list holds
  the UTF-8 encoding of each of them, so matching encodings at either end of the byte string is
  the same as decoding a rune there.
\<close>

definition space_runes :: "string list" where
  "space_runes =
     [[CHR 0x09], [CHR 0x0A], [CHR 0x0B], [CHR 0x0C], [CHR 0x0D], [CHR 0x20],
      [CHR 0xC2, CHR 0x85], [CHR 0xC2, CHR 0xA0], [CHR 0xE1, CHR 0x9A, CHR 0x80],
      [CHR 0xE2, CHR 0x80, CHR 0x80], [CHR 0xE2, CHR 0x80, CHR 0x81],
      [CHR 0xE2, CHR 0x80, CHR 0x82], [CHR 0xE2, CHR 0x80, CHR 0x83],
      [CHR 0xE2, CHR 0x80, CHR 0x84], [CHR 0xE2, CHR 0x80, CHR 0x85],
      [CHR 0xE2, CHR 0x80, CHR 0x86], [CHR 0xE2, CHR 0x80, CHR 0x87],
      [CHR 0xE2, CHR 0x80, CHR 0x88], [CHR 0xE2, CHR 0x80, CHR 0x89],
      [CHR 0xE2, CHR 0x80, CHR 0x8A], [CHR 0xE2, CHR 0x80, CHR 0xA8],
      [CHR 0xE2, CHR 0x80, CHR 0xA9], [CHR 0xE2, CHR 0x80, CHR 0xAF],
      [CHR 0xE2, CHR 0x81, CHR 0x9F], [CHR 0xE3, CHR 0x80, CHR 0x80]]"

function strip :: "string list \<Rightarrow> string \<Rightarrow> string" where
  "strip rs s =
     (case find (\<lambda>r. r \<noteq> [] \<and> HasPrefix s r) rs of
        None \<Rightarrow> s
      | Some r \<Rightarrow> strip rs (drop (length r) s))"
  by pat_completeness auto
termination
proof (relation "measure (\<lambda>(rs, s). length s)", goal_cases)
  case (2 rs s r)
  then have "r \<noteq> []" "take (length r) s = r"
    by (auto simp: find_Some_iff HasPrefix_def)
  then show ?case by (cases s) auto
qed simp

declare strip.simps [simp del]

definition TrimSpace :: "string \<Rightarrow> string" where
  "TrimSpace s = rev (strip (map rev space_runes) (rev (strip space_runes s)))"

text \<open>
  \<open>strings.EqualFold\<close> against an ASCII text \<open>t\<close>: every rune of \<open>s\<close> is \<open>t\<close>'s letter in either
  case, or one of the two non-ASCII runes whose simple case folding is an ASCII letter
  (U+212A, the Kelvin sign, for \<open>k\<close>; U+017F, the long s, for \<open>s\<close>).
\<close>

definition ascii_lower :: "char \<Rightarrow> char" where
  "ascii_lower c =
     (if 65 \<le> (of_char c :: nat) \<and> (of_char c :: nat) \<le> 90
      then char_of (of_char c + 32 :: nat) else c)"

fun EqualFold :: "string \<Rightarrow> string \<Rightarrow> bool" where
  "EqualFold s [] = (s = [])"
| "EqualFold s (t # ts) =
     ((case s of [] \<Rightarrow> False | c # cs \<Rightarrow> ascii_lower c = ascii_lower t \<and> EqualFold cs ts)
      \<or> (ascii_lower t = CHR ''k'' \<and> HasPrefix s [CHR 0xE2, CHR 0x84, CHR 0xAA]
           \<and> EqualFold (drop 3 s) ts)
      \<or> (ascii_lower t = CHR ''s'' \<and> HasPrefix s [CHR 0xC5, CHR 0xBF]
           \<and> EqualFold (drop 2 s) ts))"

declare EqualFold.simps [simp del]

text \<open>
  \<open>strings.ToLower\<close>: an all-ASCII string is lowered byte by byte; otherwise every rune goes
  through the Unicode tables of the Go runtime, which is the parameter \<open>uni\<close> of the model.
\<close>

definition is_ascii :: "string \<Rightarrow> bool" where
  "is_ascii s \<longleftrightarrow> list_all (\<lambda>c. of_char c < (128::nat)) s"

definition ToLower :: "(string \<Rightarrow> string) \<Rightarrow> string \<Rightarrow> string" where
  "ToLower uni s = (if is_ascii s then map ascii_lower s else uni s)"

section \<open>Package strconv\<close>

definition digit_val :: "char \<Rightarrow> nat option" where
  "digit_val c =
     (if 48 \<le> (of_char c :: nat) \<and> (of_char c :: nat) \<le> 57
      then Some (of_char c - 48) else None)"

fun digits_val :: "nat \<Rightarrow> string \<Rightarrow> nat option" where
  "digits_val acc [] = Some acc"
| "digits_val acc (c # cs) =
     (case digit_val c of None \<Rightarrow> None | Some d \<Rightarrow> digits_val (10 * acc + d) cs)"

text \<open>
  \<open>strconv.Atoi\<close> with a 64-bit \<open>int\<close>: an optional sign, then at least one decimal digit; a value
  outside the range is an error.
\<close>

definition Atoi :: "string \<Rightarrow> int option" where
  "Atoi s =
     (let neg = HasPrefix s ''-'';
          ds = (if neg \<or> HasPrefix s ''+'' then drop 1 s else s)
      in if ds = [] then None
         else (case digits_val 0 ds of
                 None \<Rightarrow> None
               | Some n \<Rightarrow>
                   (let v = (if neg then - int n else int n)
                    in if - (2 ^ 63) \<le> v \<and> v < 2 ^ 63 then Some v else None)))"

definition digit_char :: "nat \<Rightarrow> char" where
  "digit_char d = ''0123456789'' ! d"

fun nat_digits :: "nat \<Rightarrow> string" where
  "nat_digits n =
     (if n < 10 then [digit_char n] else nat_digits (n div 10) @ [digit_char (n mod 10)])"

declare nat_digits.simps [simp del]

definition Itoa :: "int \<Rightarrow> string" where
  "Itoa n = (if n < 0 then CHR ''-'' # nat_digits (nat (- n)) else nat_digits (nat n))"

section \<open>Character classes and maps\<close>

text \<open>Printable ASCII without the space: the characters trimming never touches.\<close>

definition graph_char :: "char \<Rightarrow> bool" where
  "graph_char c \<longleftrightarrow> 33 \<le> (of_char c :: nat) \<and> (of_char c :: nat) \<le> 126"

definition is_digit :: "char \<Rightarrow> bool" where
  "is_digit c \<longleftrightarrow> 48 \<le> (of_char c :: nat) \<and> (of_char c :: nat) \<le> 57"

text \<open>
  \<open>map_of m k\<close> is \<open>m[k]\<close>, \<open>AList.update k v m\<close> is \<open>m[k] = v\<close>, \<open>AList.delete k m\<close> is
  \<open>delete(m, k)\<close> and \<open>length m\<close> is \<open>len(m)\<close>.
\<close>

definition gomap_wf :: "('k, 'v) gomap \<Rightarrow> bool" where
  "gomap_wf m \<longleftrightarrow> distinct (map fst m)"

section \<open>Lemmas on strings\<close>

lemma HasPrefix_append [simp, go_str]: "HasPrefix (p @ s) p"
  by (simp add: HasPrefix_def)

lemma HasPrefix_iff: "HasPrefix s p \<longleftrightarrow> (\<exists>t. s = p @ t)"
  by (metis HasPrefix_append HasPrefix_def append_take_drop_id)

lemma HasSuffix_append [simp, go_str]: "HasSuffix (s @ p) p"
  by (simp add: HasSuffix_def)

lemma HasSuffix_iff: "HasSuffix s p \<longleftrightarrow> (\<exists>t. s = t @ p)"
  by (metis HasSuffix_append HasSuffix_def append_take_drop_id)

lemma CutSuffix_append [simp, go_str]: "CutSuffix (s @ p) p = Some s"
  by (simp add: CutSuffix_def)

lemma CutSuffix_Some_iff: "CutSuffix s p = Some t \<longleftrightarrow> s = t @ p"
  by (auto simp: CutSuffix_def HasSuffix_def dest: append_take_drop_id [THEN trans, OF sym] )
     (metis append_take_drop_id)

lemma IndexByte_None_iff [go_str]: "IndexByte s c = None \<longleftrightarrow> c \<notin> set s"
  by (induction s) auto

lemma IndexByte_append: "c \<notin> set p \<Longrightarrow> IndexByte (p @ c # s) c = Some (length p)"
  by (induction p) auto

lemma IndexByte_SomeD:
  "IndexByte s c = Some i \<Longrightarrow> s = take i s @ c # drop (Suc i) s \<and> c \<notin> set (take i s) \<and> i < length s"
  by (induction s arbitrary: i) (auto split: if_splits)

lemma Split_nonempty [simp]: "Split s c \<noteq> []"
  by (induction s) (auto split: list.splits)

lemma Split_free: "c \<notin> set s \<Longrightarrow> Split s c = [s]"
  by (induction s) auto

lemma Split_append: "c \<notin> set p \<Longrightarrow> Split (p @ c # s) c = p # Split s c"
  by (induction p) auto

lemma Split_parts_free: "p \<in> set (Split s c) \<Longrightarrow> c \<notin> set p"
  by (induction s arbitrary: p) (auto split: if_splits list.splits)

lemma Split_Join:
  "\<lbrakk>ps \<noteq> []; \<forall>p\<in>set ps. c \<notin> set p\<rbrakk> \<Longrightarrow> Split (Join ps [c]) c = ps"
  by (induction ps "[c]" rule: Join.induct) (auto simp: Split_free Split_append)

lemma Join_Split: "Join (Split s c) [c] = s"
proof (induction s)
  case (Cons x xs)
  obtain y ys where sp: "Split xs c = y # ys"
    by (meson Split_nonempty neq_Nil_conv)
  then show ?case using Cons by (cases ys) auto
qed simp

lemma strip_Nil [simp]: "strip rs [] = []"
proof -
  have "find (\<lambda>r. r \<noteq> [] \<and> HasPrefix [] r) rs = None"
    by (auto simp: find_None_iff HasPrefix_def)
  then show ?thesis by (subst strip.simps) simp
qed

lemma strip_clean:
  assumes "\<forall>r\<in>set rs. r \<noteq> [] \<longrightarrow> hd r \<noteq> c"
  shows "strip rs (c # cs) = c # cs"
proof -
  have "find (\<lambda>r. r \<noteq> [] \<and> HasPrefix (c # cs) r) rs = None"
    using assms by (auto simp: find_None_iff HasPrefix_def neq_Nil_conv)
  then show ?thesis by (subst strip.simps) simp
qed

lemma space_runes_hd_graph: "r \<in> set space_runes \<Longrightarrow> \<not> graph_char (hd r) \<and> \<not> graph_char (last r)"
  by (auto simp: space_runes_def graph_char_def)

lemma TrimSpace_clean:
  assumes "s \<noteq> [] \<Longrightarrow> graph_char (hd s)" "s \<noteq> [] \<Longrightarrow> graph_char (last s)"
  shows "TrimSpace s = s"
proof (cases s rule: rev_exhaust)
  case (snoc t c)
  obtain d ds where s: "s = d # ds" using snoc by (cases t) auto
  have l: "strip space_runes s = s"
    unfolding s using assms(1) s space_runes_hd_graph by (intro strip_clean) auto
  have "\<forall>r\<in>set (map rev space_runes). r \<noteq> [] \<longrightarrow> hd r \<noteq> c"
    using assms(2) snoc space_runes_hd_graph by (auto simp: hd_rev)
  then have "strip (map rev space_runes) (rev s) = rev s"
    using snoc by (simp add: strip_clean)
  with l show ?thesis by (simp add: TrimSpace_def)
qed (simp add: TrimSpace_def)

lemma TrimSpace_graph: "list_all graph_char s \<Longrightarrow> TrimSpace s = s"
  by (rule TrimSpace_clean) (auto simp: list_all_iff)

lemma TrimSpace_Nil [simp]: "TrimSpace [] = []"
  by (simp add: TrimSpace_def)

lemma HasPrefix_free: "c \<notin> set r \<Longrightarrow> HasPrefix (p @ c # q) r \<longleftrightarrow> HasPrefix p r"
  by (auto simp: HasPrefix_iff append_eq_append_conv2 Cons_eq_append_conv)

lemma strip_stop: "r \<in> set rs \<Longrightarrow> r \<noteq> [] \<Longrightarrow> \<not> HasPrefix (strip rs s) r"
proof (induction rs s rule: strip.induct)
  case (1 rs s)
  show ?case
  proof (cases "find (\<lambda>r. r \<noteq> [] \<and> HasPrefix s r) rs")
    case None
    then have "strip rs s = s" by (subst strip.simps) simp
    with None show ?thesis using 1(2,3) by (auto simp: find_None_iff)
  next
    case (Some x)
    then show ?thesis using 1 by (subst strip.simps) simp
  qed
qed

lemma strip_id: "\<forall>r\<in>set rs. r \<noteq> [] \<longrightarrow> \<not> HasPrefix s r \<Longrightarrow> strip rs s = s"
proof -
  assume "\<forall>r\<in>set rs. r \<noteq> [] \<longrightarrow> \<not> HasPrefix s r"
  then have "find (\<lambda>r. r \<noteq> [] \<and> HasPrefix s r) rs = None" by (auto simp: find_None_iff)
  then show ?thesis by (subst strip.simps) simp
qed

lemma strip_idem [simp]: "strip rs (strip rs s) = strip rs s"
  by (rule strip_id) (simp add: strip_stop)

lemma strip_runes: "\<exists>cs. set cs \<subseteq> set rs \<and> s = concat cs @ strip rs s"
proof (induction rs s rule: strip.induct)
  case (1 rs s)
  show ?case
  proof (cases "find (\<lambda>r. r \<noteq> [] \<and> HasPrefix s r) rs")
    case None
    then show ?thesis by (subst strip.simps) (auto intro: exI [of _ "[]"])
  next
    case (Some x)
    then have x: "x \<in> set rs" "s = x @ drop (length x) s" by (auto simp: find_Some_iff HasPrefix_def) (metis append_take_drop_id)
    obtain cs where c: "set cs \<subseteq> set rs" "drop (length x) s = concat cs @ strip rs (drop (length x) s)" using 1 [OF Some] by blast
    have "strip rs s = strip rs (drop (length x) s)" using Some by (subst strip.simps) simp
    with x c have "set (x # cs) \<subseteq> set rs" "s = concat (x # cs) @ strip rs s" by auto
    then show ?thesis by blast
  qed
qed

text \<open>A byte that occurs in no rune of white space stops the stripping, wherever it stands.\<close>

lemma strip_append:
  assumes "\<forall>r\<in>set rs. c \<notin> set r"
  shows "strip rs (p @ c # q) = strip rs p @ c # q"
  using assms
proof (induction rs p rule: strip.induct)
  case (1 rs p)
  have "HasPrefix (p @ c # q) r \<longleftrightarrow> HasPrefix p r" if "r \<in> set rs" for r
    using that 1(2) by (intro HasPrefix_free) blast
  then have f: "find (\<lambda>r. r \<noteq> [] \<and> HasPrefix (p @ c # q) r) rs = find (\<lambda>r. r \<noteq> [] \<and> HasPrefix p r) rs"
    by (intro find_cong) auto
  show ?case
  proof (cases "find (\<lambda>r. r \<noteq> [] \<and> HasPrefix p r) rs")
    case None
    then show ?thesis using f by (subst (1 2) strip.simps) simp
  next
    case (Some x)
    then have "length x \<le> length p" by (auto simp: find_Some_iff HasPrefix_def) (metis length_take min.cobounded1)
    then show ?thesis using f Some 1(1) [OF Some 1(2)] by (subst (1 2) strip.simps) simp
  qed
qed

lemma hash_no_space: "\<forall>r\<in>set space_runes. CHR ''#'' \<notin> set r" "\<forall>r\<in>set (map rev space_runes). CHR ''#'' \<notin> set r"
  by (simp_all add: space_runes_def)

lemma TrimSpace_hash:
  "TrimSpace (p @ CHR ''#'' # q) = strip space_runes p @ CHR ''#'' # rev (strip (map rev space_runes) (rev q))"
  using strip_append [OF hash_no_space(1), of p q] strip_append [OF hash_no_space(2), of "rev q" "rev (strip space_runes p)"]
  by (simp add: TrimSpace_def)

lemma TrimSpace_strip: "TrimSpace (strip space_runes p) = TrimSpace p"
  by (simp add: TrimSpace_def)

lemma space_runes_nonempty: "[] \<notin> set space_runes"
  by (simp add: space_runes_def)

lemma TrimSpace_empty_iff: "TrimSpace p = [] \<longleftrightarrow> strip space_runes p = []"
proof
  let ?l = "strip space_runes p"
  assume "TrimSpace p = []"
  then have e: "strip (map rev space_runes) (rev ?l) = []" by (simp add: TrimSpace_def)
  obtain cs where c: "set cs \<subseteq> set (map rev space_runes)" "rev ?l = concat cs"
    using strip_runes [of "map rev space_runes" "rev ?l"] unfolding e by auto
  have l: "?l = concat (rev (map rev cs))" using c(2) by (metis rev_concat rev_map rev_rev_ident)
  have s: "set (rev (map rev cs)) \<subseteq> set space_runes" using c(1) by auto
  show "?l = []"
  proof (cases "rev (map rev cs)")
    case (Cons r rs)
    then have "r \<in> set space_runes" "HasPrefix ?l r" using s unfolding l by (auto simp: HasPrefix_def)
    then show ?thesis using strip_stop [of r space_runes p] space_runes_nonempty by metis
  qed (simp add: l)
qed (simp add: TrimSpace_def)

lemma set_strip: "set (strip rs s) \<subseteq> set s"
  using strip_runes [of rs s] by (metis set_append sup_ge2)

lemma set_TrimSpace: "set (TrimSpace s) \<subseteq> set s"
  using set_strip [of space_runes s] set_strip [of "map rev space_runes" "rev (strip space_runes s)"] by (auto simp: TrimSpace_def)

lemma strip_snoc:
  assumes "[c] \<in> set rs" "\<forall>r\<in>set rs. r = [c] \<or> c \<notin> set r"
  shows "strip rs (s @ [c]) = (if strip rs s = [] then [] else strip rs s @ [c])"
  using assms
proof (induction rs s rule: strip.induct)
  case (1 rs s)
  show ?case
  proof (cases "s = []")
    case True
    have e: "find (\<lambda>r. r \<noteq> [] \<and> HasPrefix [c] r) rs \<noteq> None" using 1(2) by (auto simp: find_None_iff HasPrefix_def)
    then obtain r where r: "find (\<lambda>r. r \<noteq> [] \<and> HasPrefix [c] r) rs = Some r" by blast
    then have "r \<noteq> []" by (auto simp: find_Some_iff)
    then have "strip rs (drop (length r) [c]) = []" by (cases r) simp_all
    then have "strip rs [c] = []" using r by (subst strip.simps) simp
    then show ?thesis using True by simp
  next
    case False
    have "HasPrefix (s @ [c]) r \<longleftrightarrow> HasPrefix s r" if "r \<in> set rs" for r
    proof (cases "r = [c]")
      case True
      then show ?thesis using False by (cases s) (auto simp: HasPrefix_def)
    next
      case n: False
      then have "c \<notin> set r" using that 1(3) by blast
      then show ?thesis using HasPrefix_free [of c r s "[]"] by simp
    qed
    then have f: "find (\<lambda>r. r \<noteq> [] \<and> HasPrefix (s @ [c]) r) rs = find (\<lambda>r. r \<noteq> [] \<and> HasPrefix s r) rs"
      by (intro find_cong) auto
    show ?thesis
    proof (cases "find (\<lambda>r. r \<noteq> [] \<and> HasPrefix s r) rs")
      case None
      have "strip rs s = s" "strip rs (s @ [c]) = s @ [c]" using None f by (subst strip.simps, simp)+
      then show ?thesis using False by simp
    next
      case (Some x)
      then have "length x \<le> length s" by (auto simp: find_Some_iff HasPrefix_def) (metis length_take min.cobounded1)
      then have "strip rs s = strip rs (drop (length x) s)" "strip rs (s @ [c]) = strip rs (drop (length x) s @ [c])"
        using Some f by (subst strip.simps, simp)+
      then show ?thesis using 1(1) [OF Some 1(2,3)] by simp
    qed
  qed
qed

lemma strip_Cons:
  assumes "[c] \<in> set rs" "\<forall>r\<in>set rs. r = [c] \<or> c \<notin> set r"
  shows "strip rs (c # s) = strip rs s"
proof -
  have "r = [c]" if "r \<in> set rs" "r \<noteq> []" "HasPrefix (c # s) r" for r
  proof -
    have "c \<in> set r" using that(2,3) by (cases r) (auto simp: HasPrefix_def)
    then show ?thesis using assms(2) that(1) by blast
  qed
  moreover have "find (\<lambda>r. r \<noteq> [] \<and> HasPrefix (c # s) r) rs \<noteq> None" using assms(1) by (auto simp: find_None_iff HasPrefix_def)
  ultimately have "find (\<lambda>r. r \<noteq> [] \<and> HasPrefix (c # s) r) rs = Some [c]"
    by (auto simp: find_Some_iff) (metis find_Some_iff nth_mem)
  then show ?thesis by (subst strip.simps) simp
qed

lemma TrimSpace_cr: "TrimSpace (s @ [CHR 0x0D]) = TrimSpace s"
proof -
  have r: "[CHR 0x0D] \<in> set space_runes" "\<forall>r\<in>set space_runes. r = [CHR 0x0D] \<or> CHR 0x0D \<notin> set r"
    "[CHR 0x0D] \<in> set (map rev space_runes)" "\<forall>r\<in>set (map rev space_runes). r = [CHR 0x0D] \<or> CHR 0x0D \<notin> set r"
    by (simp_all add: space_runes_def)
  show ?thesis by (simp add: TrimSpace_def strip_snoc [OF r(1,2)] strip_Cons [OF r(3,4)])
qed

section \<open>Lemmas on decimal numbers\<close>

lemma of_char_digit_char: "d < 10 \<Longrightarrow> of_char (digit_char d) = 48 + d"
proof -
  assume "d < 10"
  then have "d \<in> set [0..<10]" by simp
  then show ?thesis by (auto simp: upt_rec digit_char_def)
qed

lemma digit_val_digit: "d < 10 \<Longrightarrow> digit_val (digit_char d) = Some d"
  by (simp add: digit_val_def of_char_digit_char)

lemma digits_val_append:
  "digits_val acc (xs @ ys) = (case digits_val acc xs of None \<Rightarrow> None | Some a \<Rightarrow> digits_val a ys)"
  by (induction xs arbitrary: acc) (auto split: option.splits)

lemma digits_val_nat_digits: "digits_val 0 (nat_digits n) = Some n"
proof (induction n rule: nat_digits.induct)
  case (1 n)
  show ?case
  proof (cases "n < 10")
    case True
    then show ?thesis by (subst nat_digits.simps) (simp add: digit_val_digit)
  next
    case False
    then show ?thesis
      using 1 by (subst nat_digits.simps) (simp add: digits_val_append digit_val_digit)
  qed
qed

lemma nat_digits_digits: "list_all is_digit (nat_digits n)"
proof (induction n rule: nat_digits.induct)
  case (1 n)
  then show ?case
    by (subst nat_digits.simps) (auto simp: list_all_iff is_digit_def of_char_digit_char)
qed

lemma nat_digits_nonempty [simp]: "nat_digits n \<noteq> []"
  by (subst nat_digits.simps) simp

lemma digits_val_digits: "list_all is_digit s \<Longrightarrow> digits_val acc s \<noteq> None"
  by (induction s arbitrary: acc) (auto simp: is_digit_def digit_val_def)

lemma is_digit_graph: "is_digit c \<Longrightarrow> graph_char c"
  by (simp add: is_digit_def graph_char_def)

lemma digits_no_sign:
  assumes "list_all is_digit s" "c \<in> {CHR ''-'', CHR ''+'', CHR '','', CHR ''.'', CHR '':'', CHR ''#''}"
  shows "c \<notin> set s"
  using assms by (auto simp: list_all_iff is_digit_def)

lemma Atoi_nat_digits: "int n < 2 ^ 63 \<Longrightarrow> Atoi (nat_digits n) = Some (int n)"
proof -
  assume n: "int n < 2 ^ 63"
  have d: "list_all is_digit (nat_digits n)" by (rule nat_digits_digits)
  obtain c cs where c: "nat_digits n = c # cs" by (meson nat_digits_nonempty neq_Nil_conv)
  with d have "is_digit c" by simp
  then have "\<not> HasPrefix (nat_digits n) ''-''" "\<not> HasPrefix (nat_digits n) ''+''"
    by (auto simp: HasPrefix_def c is_digit_def)
  with n show ?thesis by (simp add: Atoi_def digits_val_nat_digits)
qed

lemma Atoi_Itoa: "- (2 ^ 63) \<le> n \<Longrightarrow> n < 2 ^ 63 \<Longrightarrow> Atoi (Itoa n) = Some n"
proof (cases "n < 0")
  case True
  assume b: "- (2 ^ 63) \<le> n"
  from True have "Itoa n = CHR ''-'' # nat_digits (nat (- n))" by (simp add: Itoa_def)
  with True b show ?thesis by (simp add: Atoi_def HasPrefix_def digits_val_nat_digits)
next
  case False
  assume "n < 2 ^ 63"
  with False show ?thesis using Atoi_nat_digits [of "nat n"] by (simp add: Itoa_def)
qed

section \<open>Lemmas on Go maps\<close>

lemma gomap_wf_Nil [simp, go_map]: "gomap_wf []"
  by (simp add: gomap_wf_def)

lemma gomap_wf_update [simp, go_map]: "gomap_wf m \<Longrightarrow> gomap_wf (AList.update k v m)"
  by (simp add: gomap_wf_def distinct_update)

lemma gomap_wf_delete [simp, go_map]: "gomap_wf m \<Longrightarrow> gomap_wf (AList.delete k m)"
  by (simp add: gomap_wf_def distinct_delete)

lemma map_of_update [simp, go_map]: "map_of (AList.update k v m) = (map_of m)(k \<mapsto> v)"
  by (rule update_conv')

lemma map_of_delete [simp, go_map]: "map_of (AList.delete k m) = (map_of m)(k := None)"
  by (rule delete_conv')

lemma length_gomap: "gomap_wf m \<Longrightarrow> length m = card (dom (map_of m))"
  unfolding gomap_wf_def dom_map_of_conv_image_fst
  by (metis distinct_card length_map set_map)

lemma gomap_mem_iff: "gomap_wf m \<Longrightarrow> (k, v) \<in> set m \<longleftrightarrow> map_of m k = Some v"
  by (simp add: gomap_wf_def)

end
