(* ===== verification/Reloadable.thy ===== *)
theory Reloadable
  imports Main
begin

text \<open>
  The contract shared by the policies that SIGHUP re-reads from disk (the port allowlist and the
  pubkey allowlist): a reload that fails keeps the policy in force, a reload that succeeds puts
  exactly what the disk says in force.  The lemma on sequences of reloads is proved once here and
  used through the interpretations.
\<close>

text \<open>The last successful load in a sequence of environments, \<open>None\<close> if there is none.\<close>

fun last_loaded :: "('env \<Rightarrow> 'p option) \<Rightarrow> 'env list \<Rightarrow> 'p option" where
  "last_loaded ld [] = None"
| "last_loaded ld (e # es) =
     (case last_loaded ld es of Some p \<Rightarrow> Some p | None \<Rightarrow> ld e)"

locale reloadable =
  fixes permits :: "'s \<Rightarrow> 'k \<Rightarrow> bool"
    and reload :: "'env \<Rightarrow> 's \<Rightarrow> 's \<times> ('e + 'r)"
    and loaded :: "'env \<Rightarrow> 's \<Rightarrow> ('k \<Rightarrow> bool) option"
  assumes reload_err: "reload env s = (s', Inl e) \<Longrightarrow> s' = s \<and> loaded env s = None"
    and reload_ok: "reload env s = (s', Inr r) \<Longrightarrow> loaded env s = Some (permits s') \<and> (\<forall>env'. loaded env' s' = loaded env' s)"
begin

lemma reload_step:
  "permits (fst (reload env s)) = (case loaded env s of None \<Rightarrow> permits s | Some p \<Rightarrow> p)
   \<and> (\<forall>env'. loaded env' (fst (reload env s)) = loaded env' s)"
proof (cases "reload env s")
  case (Pair s' r)
  then show ?thesis using reload_err [of env s s'] reload_ok [of env s s'] by (cases r) auto
qed

lemma reloads:
  "permits (foldl (\<lambda>s env. fst (reload env s)) s envs)
     = (case last_loaded (\<lambda>env. loaded env s) envs of None \<Rightarrow> permits s | Some p \<Rightarrow> p)"
proof (induction envs arbitrary: s)
  case (Cons env envs)
  have "(\<lambda>env'. loaded env' (fst (reload env s))) = (\<lambda>env'. loaded env' s)" using reload_step by blast
  then show ?case using Cons [of "fst (reload env s)"] reload_step [of env s] by (simp split: option.splits)
qed simp

end

end
