(* ===== verification/Port_Policy.thy ===== *)
theory Port_Policy
  imports Prelude Reloadable
begin

text \<open>
  \<open>internal/portpolicy\<close>: the destination-port allowlist.  \<open>Parse\<close>, \<open>Permits\<close> and \<open>String\<close>
  of \<open>portpolicy.go\<close>, and the hot-swappable \<open>Set\<close> of \<open>set.go\<close> with its loaders and
  \<open>Reload\<close>.  The file system is the argument \<open>rd\<close> (\<open>os.ReadFile\<close>).  A nil pointer is
  \<open>None\<close>.  The lemmas give the meaning of a spec as the set of ports its items name, the
  bounds of a parsed policy, the print/parse round trip and the fail-safe behaviour of
  \<open>Reload\<close>.
\<close>

section \<open>portpolicy.go\<close>

record portRange =
  lo :: int
  hi :: int

record PortPolicy =
  pp_all :: bool
  pp_single :: "(int, unit) gomap"
  pp_ranges :: "portRange list"

datatype port_err = Not_an_integer | Out_of_TCP_port_range

datatype parse_err =
    Port_range_err string port_err
  | Lo_gt_hi string
  | Port_err string port_err

definition zero_policy :: PortPolicy where
  "zero_policy = \<lparr>pp_all = False, pp_single = [], pp_ranges = []\<rparr>"

definition AllowAll :: PortPolicy where
  "AllowAll = \<lparr>pp_all = True, pp_single = [], pp_ranges = []\<rparr>"

definition DefaultSpec :: string where
  "DefaultSpec = ''1977,3000-3099,4000-4099,5000-5099,5173,8000-8099,8080,8081,9898,20000-29999''"

definition parsePort :: "string \<Rightarrow> port_err + int" where
  "parsePort s =
     (case Atoi (TrimSpace s) of
        None \<Rightarrow> Inl Not_an_integer
      | Some n \<Rightarrow> if n < 1 \<or> n > 65535 then Inl Out_of_TCP_port_range else Inr n)"

text \<open>One round of the loop in \<open>Parse\<close>, on one comma-separated element.\<close>

definition parse_piece :: "PortPolicy \<Rightarrow> string \<Rightarrow> parse_err + PortPolicy" where
  "parse_piece p raw =
     (let piece = TrimSpace raw in
      if piece = [] then Inr p
      else
        (let single =
           (case parsePort piece of
              Inl e \<Rightarrow> Inl (Port_err piece e)
            | Inr port \<Rightarrow> Inr (p\<lparr>pp_single := AList.update port () (pp_single p)\<rparr>))
         in case IndexByte piece (CHR ''-'') of
              None \<Rightarrow> single
            | Some dash \<Rightarrow>
                if dash > 0 then
                  (case parsePort (take dash piece) of
                     Inl e \<Rightarrow> Inl (Port_range_err piece e)
                   | Inr l \<Rightarrow>
                       (case parsePort (drop (dash + 1) piece) of
                          Inl e \<Rightarrow> Inl (Port_range_err piece e)
                        | Inr h \<Rightarrow>
                            if l > h then Inl (Lo_gt_hi piece)
                            else Inr (p\<lparr>pp_ranges := pp_ranges p @ [\<lparr>lo = l, hi = h\<rparr>]\<rparr>)))
                else single))"

fun parse_pieces :: "PortPolicy \<Rightarrow> string list \<Rightarrow> parse_err + PortPolicy" where
  "parse_pieces p [] = Inr p"
| "parse_pieces p (raw # raws) =
     (case parse_piece p raw of Inl e \<Rightarrow> Inl e | Inr p' \<Rightarrow> parse_pieces p' raws)"

definition Parse :: "string \<Rightarrow> parse_err + PortPolicy" where
  "Parse spec0 =
     (let spec = TrimSpace spec0 in
      if spec = [] then Inr zero_policy
      else if EqualFold spec ''all'' then Inr AllowAll
      else parse_pieces zero_policy (Split spec (CHR '','')))"

definition Permits :: "PortPolicy option \<Rightarrow> int \<Rightarrow> bool" where
  "Permits pp port =
     (case pp of
        None \<Rightarrow> False
      | Some p \<Rightarrow>
          pp_all p \<or> map_of (pp_single p) port = Some ()
          \<or> list_ex (\<lambda>r. port \<ge> lo r \<and> port \<le> hi r) (pp_ranges p))"

definition PortPolicy_String :: "PortPolicy option \<Rightarrow> string" where
  "PortPolicy_String pp =
     (case pp of
        None \<Rightarrow> ''deny-all (nil policy)''
      | Some p \<Rightarrow>
          if pp_all p then ''all ports (unrestricted)''
          else (let parts = map (\<lambda>(n, _). Itoa n) (pp_single p)
                          @ map (\<lambda>r. Itoa (lo r) @ ''-'' @ Itoa (hi r)) (pp_ranges p)
                in if parts = [] then ''deny-all (empty policy)'' else Join parts '',''))"

section \<open>set.go\<close>

record PortSet =
  ps_policy :: "PortPolicy option"
  ps_source :: string
  ps_spec :: "string option"
  ps_file :: string

datatype set_err =
    Read_err string string
  | Parse_err string parse_err

text \<open>The body of \<open>readFileSpec\<close> for one line of the file: comment and blanks removed.\<close>

definition spec_line :: "string \<Rightarrow> string" where
  "spec_line raw =
     TrimSpace (case IndexByte raw (CHR ''#'') of None \<Rightarrow> raw | Some i \<Rightarrow> take i raw)"

definition readFileSpec :: "(string \<Rightarrow> bytes result) \<Rightarrow> string \<Rightarrow> set_err + string" where
  "readFileSpec rd path =
     (case rd path of
        Inl e \<Rightarrow> Inl (Read_err path e)
      | Inr data \<Rightarrow>
          Inr (Join (filter (\<lambda>l. l \<noteq> []) (map spec_line (Split data (CHR 0x0A)))) '',''))"

definition LoadInline :: "string \<Rightarrow> string \<Rightarrow> parse_err + PortSet" where
  "LoadInline spec source =
     (case Parse spec of
        Inl e \<Rightarrow> Inl e
      | Inr p \<Rightarrow> Inr \<lparr>ps_policy = Some p, ps_source = source,
                      ps_spec = Some (TrimSpace spec), ps_file = ''''\<rparr>)"

definition LoadFile :: "(string \<Rightarrow> bytes result) \<Rightarrow> string \<Rightarrow> set_err + PortSet" where
  "LoadFile rd path =
     (case readFileSpec rd path of
        Inl e \<Rightarrow> Inl e
      | Inr spec \<Rightarrow>
          (case Parse spec of
             Inl e \<Rightarrow> Inl (Parse_err path e)
           | Inr p \<Rightarrow> Inr \<lparr>ps_policy = Some p, ps_source = ''file:'' @ path,
                           ps_spec = Some spec, ps_file = path\<rparr>))"

definition Set_Permits :: "PortSet option \<Rightarrow> int \<Rightarrow> bool" where
  "Set_Permits s port = (case s of None \<Rightarrow> False | Some s \<Rightarrow> Permits (ps_policy s) port)"

definition Set_Spec :: "PortSet option \<Rightarrow> string" where
  "Set_Spec s =
     (case s of None \<Rightarrow> ''''
      | Some s \<Rightarrow> (case ps_spec s of Some p \<Rightarrow> p | None \<Rightarrow> ''''))"

definition Set_Source :: "PortSet option \<Rightarrow> string" where
  "Set_Source s = (case s of None \<Rightarrow> '''' | Some s \<Rightarrow> ps_source s)"

definition Set_File :: "PortSet option \<Rightarrow> string" where
  "Set_File s = (case s of None \<Rightarrow> '''' | Some s \<Rightarrow> ps_file s)"

text \<open>\<open>Reload\<close> returns the set after the call and \<open>(changed, err)\<close> as a sum.\<close>

definition Set_Reload ::
  "(string \<Rightarrow> bytes result) \<Rightarrow> PortSet option \<Rightarrow> PortSet option \<times> (set_err + bool)" where
  "Set_Reload rd s =
     (case s of
        None \<Rightarrow> (None, Inr False)
      | Some ps \<Rightarrow>
          if ps_file ps = '''' then (s, Inr False)
          else (case readFileSpec rd (ps_file ps) of
                  Inl e \<Rightarrow> (s, Inl e)
                | Inr spec \<Rightarrow>
                    (case Parse spec of
                       Inl e \<Rightarrow> (s, Inl (Parse_err (ps_file ps) e))
                     | Inr p \<Rightarrow>
                         (Some (ps\<lparr>ps_policy := Some p, ps_spec := Some spec\<rparr>),
                          Inr (spec \<noteq> Set_Spec s)))))"

text \<open>The policy a reload from \<open>rd\<close> would put in force; \<open>None\<close> when the file does not load.\<close>

definition ps_loaded :: "(string \<Rightarrow> bytes result) \<Rightarrow> PortSet option \<Rightarrow> (int \<Rightarrow> bool) option" where
  "ps_loaded rd s =
     (if Set_File s = '''' then Some (Set_Permits s)
      else (case readFileSpec rd (Set_File s) of
              Inl _ \<Rightarrow> None
            | Inr spec \<Rightarrow> (case Parse spec of Inl _ \<Rightarrow> None | Inr p \<Rightarrow> Some (Permits (Some p)))))"

section \<open>What a spec means\<close>

text \<open>
  An abstract allowlist is a list of items; \<open>item_str\<close> is how an operator writes one and
  \<open>item_ports\<close> the ports it stands for.  \<open>denotes\<close> is the meaning of one raw element of an
  arbitrary spec text.
\<close>

datatype item = Single int | Range int int

fun item_str :: "item \<Rightarrow> string" where
  "item_str (Single n) = Itoa n"
| "item_str (Range l h) = Itoa l @ ''-'' @ Itoa h"

fun item_ports :: "item \<Rightarrow> int set" where
  "item_ports (Single n) = {n}"
| "item_ports (Range l h) = {l..h}"

fun item_ok :: "item \<Rightarrow> bool" where
  "item_ok (Single n) = (1 \<le> n \<and> n \<le> 65535)"
| "item_ok (Range l h) = (1 \<le> l \<and> l \<le> h \<and> h \<le> 65535)"

definition denotes :: "string \<Rightarrow> int \<Rightarrow> bool" where
  "denotes raw port =
     (let piece = TrimSpace raw in
      case IndexByte piece (CHR ''-'') of
        Some (Suc d) \<Rightarrow>
          (case (parsePort (take (Suc d) piece), parsePort (drop (Suc d + 1) piece)) of
             (Inr l, Inr h) \<Rightarrow> l \<le> port \<and> port \<le> h
           | _ \<Rightarrow> False)
      | _ \<Rightarrow> parsePort piece = Inr port)"

definition policy_ok :: "PortPolicy \<Rightarrow> bool" where
  "policy_ok p \<longleftrightarrow>
     list_all (\<lambda>(n, _). 1 \<le> n \<and> n \<le> 65535) (pp_single p)
     \<and> list_all (\<lambda>r. 1 \<le> lo r \<and> lo r \<le> hi r \<and> hi r \<le> 65535) (pp_ranges p)
     \<and> gomap_wf (pp_single p)"

definition policy_items :: "PortPolicy \<Rightarrow> item list" where
  "policy_items p = map (\<lambda>(n, _). Single n) (pp_single p) @ map (\<lambda>r. Range (lo r) (hi r)) (pp_ranges p)"

fun add_item :: "PortPolicy \<Rightarrow> item \<Rightarrow> PortPolicy" where
  "add_item p (Single n) = p\<lparr>pp_single := AList.update n () (pp_single p)\<rparr>"
| "add_item p (Range l h) = p\<lparr>pp_ranges := pp_ranges p @ [\<lparr>lo = l, hi = h\<rparr>]\<rparr>"

section \<open>Lemmas\<close>

lemma parsePort_bounds: "parsePort s = Inr n \<Longrightarrow> 1 \<le> n \<and> n \<le> 65535"
  by (auto simp: parsePort_def split: option.splits if_splits)

lemma parsePort_Nil: "parsePort [] = Inl Not_an_integer"
  by (simp add: parsePort_def Atoi_def HasPrefix_def)

lemma policy_ok_simps [simp]: "policy_ok zero_policy" "policy_ok AllowAll"
  by (simp_all add: policy_ok_def zero_policy_def AllowAll_def)

lemma list_all_update:
  "list_all P (AList.update k v m) \<longleftrightarrow> P (k, v) \<and> list_all P (filter (\<lambda>x. fst x \<noteq> k) m)"
  if "gomap_wf m"
proof -
  have "x \<in> set (AList.update k v m) \<longleftrightarrow> x = (k, v) \<or> x \<in> set m \<and> fst x \<noteq> k" for x
  proof -
    have "(a, b) \<in> set (AList.update k v m) \<longleftrightarrow> map_of (AList.update k v m) a = Some b" for a b
      using that by (simp add: gomap_mem_iff)
    then show ?thesis using that by (cases x) (auto simp: gomap_mem_iff)
  qed
  then show ?thesis by (auto simp: list_all_iff)
qed

lemma parse_piece_cases:
  assumes "parse_piece p raw = Inr p'"
  obtains (blank) "TrimSpace raw = []" "p' = p"
  | (single) n where "parsePort (TrimSpace raw) = Inr n" "\<And>x. denotes raw x \<longleftrightarrow> x = n"
      "p' = p\<lparr>pp_single := AList.update n () (pp_single p)\<rparr>"
  | (range) l h where "1 \<le> l" "l \<le> h" "h \<le> 65535" "\<And>x. denotes raw x \<longleftrightarrow> l \<le> x \<and> x \<le> h"
      "p' = p\<lparr>pp_ranges := pp_ranges p @ [\<lparr>lo = l, hi = h\<rparr>]\<rparr>"
proof (cases "TrimSpace raw = []")
  case True
  with assms blank show thesis by (simp add: parse_piece_def)
next
  case False
  note nonempty = this
  show thesis
  proof (cases "\<exists>d. IndexByte (TrimSpace raw) (CHR ''-'') = Some (Suc d)")
    case True
    then obtain d where d: "IndexByte (TrimSpace raw) (CHR ''-'') = Some (Suc d)" by blast
    with assms nonempty obtain l h where
      "parsePort (take (Suc d) (TrimSpace raw)) = Inr l"
      "parsePort (drop (Suc (Suc d)) (TrimSpace raw)) = Inr h" "l \<le> h"
      "p' = p\<lparr>pp_ranges := pp_ranges p @ [\<lparr>lo = l, hi = h\<rparr>]\<rparr>"
      by (auto simp: parse_piece_def Let_def split: sum.splits if_splits)
    with d show thesis
      by (intro range [of l h]) (auto simp: denotes_def dest: parsePort_bounds)
  next
    case False
    then have nd: "IndexByte (TrimSpace raw) (CHR ''-'') \<in> {None, Some 0}"
      by (cases "IndexByte (TrimSpace raw) (CHR ''-'')") (auto, metis not0_implies_Suc)
    with assms nonempty obtain n where
      "parsePort (TrimSpace raw) = Inr n" "p' = p\<lparr>pp_single := AList.update n () (pp_single p)\<rparr>"
      by (auto simp: parse_piece_def Let_def split: sum.splits if_splits)
    with nd show thesis
      by (intro single [of n]) (auto simp: denotes_def)
  qed
qed

lemma denotes_blank: "TrimSpace raw = [] \<Longrightarrow> \<not> denotes raw x"
  by (simp add: denotes_def parsePort_Nil)

lemma parse_piece_ok:
  assumes "parse_piece p raw = Inr p'" "policy_ok p"
  shows "policy_ok p'"
  using assms(1)
proof (cases rule: parse_piece_cases)
  case (single n)
  with assms(2) show ?thesis
    using parsePort_bounds [OF single(1)]
    by (auto simp: policy_ok_def list_all_update) (auto simp: list_all_iff)
qed (use assms(2) in \<open>auto simp: policy_ok_def\<close>)

lemma parse_piece_permits:
  assumes "parse_piece p raw = Inr p'"
  shows "Permits (Some p') x \<longleftrightarrow> Permits (Some p) x \<or> denotes raw x"
  using assms
  by (cases rule: parse_piece_cases) (auto simp: Permits_def denotes_blank)

lemma parse_pieces_ok:
  "parse_pieces p raws = Inr p' \<Longrightarrow> policy_ok p \<Longrightarrow> policy_ok p'"
  by (induction raws arbitrary: p) (auto split: sum.splits dest: parse_piece_ok)

lemma parse_piece_all: "parse_piece p raw = Inr p' \<Longrightarrow> pp_all p' = pp_all p"
  by (cases rule: parse_piece_cases) auto

lemma parse_pieces_all: "parse_pieces p raws = Inr p' \<Longrightarrow> pp_all p' = pp_all p"
  by (induction raws arbitrary: p) (auto split: sum.splits dest: parse_piece_all)

lemma parse_pieces_permits:
  "parse_pieces p raws = Inr p' \<Longrightarrow>
   Permits (Some p') x \<longleftrightarrow> Permits (Some p) x \<or> (\<exists>raw\<in>set raws. denotes raw x)"
  by (induction raws arbitrary: p) (auto split: sum.splits dest: parse_piece_permits)

lemma Permits_simps [simp]:
  "\<not> Permits None x" "Permits (Some AllowAll) x" "\<not> Permits (Some zero_policy) x"
  by (simp_all add: Permits_def AllowAll_def zero_policy_def)

lemma policy_ok_bounds:
  assumes "policy_ok p" "\<not> pp_all p" "Permits (Some p) x"
  shows "1 \<le> x \<and> x \<le> 65535"
  using assms
  by (auto simp: policy_ok_def Permits_def list_all_iff list_ex_iff dest!: map_of_SomeD)

text \<open>Printing and parsing items.\<close>

lemma Itoa_digits: "0 \<le> n \<Longrightarrow> list_all is_digit (Itoa n)"
  by (simp add: Itoa_def nat_digits_digits)

lemma Itoa_no_sign:
  assumes "0 \<le> n" "c \<in> {CHR ''-'', CHR ''+'', CHR '','', CHR ''.'', CHR '':'', CHR ''#''}"
  shows "c \<notin> set (Itoa n)"
  using digits_no_sign [OF Itoa_digits [OF assms(1)] assms(2)] .

lemma Itoa_nonempty [simp]: "Itoa n \<noteq> []"
  by (simp add: Itoa_def)

lemma digits_graph: "list_all is_digit s \<Longrightarrow> list_all graph_char s"
  by (auto simp: list_all_iff is_digit_graph)

lemma parsePort_Itoa: "1 \<le> n \<Longrightarrow> n \<le> 65535 \<Longrightarrow> parsePort (Itoa n) = Inr n"
  by (simp add: parsePort_def TrimSpace_graph digits_graph Itoa_digits Atoi_Itoa)

lemma item_str_graph: "item_ok it \<Longrightarrow> list_all graph_char (item_str it)"
  by (cases it) (auto simp: Itoa_digits digits_graph graph_char_def)

lemma item_str_no_comma: "item_ok it \<Longrightarrow> CHR '','' \<notin> set (item_str it)"
  by (cases it) (auto simp: Itoa_no_sign)

lemma item_str_hd: "item_ok it \<Longrightarrow> item_str it \<noteq> [] \<and> is_digit (hd (item_str it))"
proof (cases it)
  case (Single n)
  moreover assume "item_ok it"
  ultimately show ?thesis using Itoa_digits [of n] Itoa_nonempty [of n]
    by (cases "Itoa n") auto
next
  case (Range l h)
  moreover assume "item_ok it"
  ultimately show ?thesis using Itoa_digits [of l] Itoa_nonempty [of l]
    by (cases "Itoa l") auto
qed

lemma parse_piece_item: "item_ok it \<Longrightarrow> parse_piece p (item_str it) = Inr (add_item p it)"
proof (cases it)
  case (Single n)
  moreover assume "item_ok it"
  moreover from calculation have "CHR ''-'' \<notin> set (Itoa n)" by (simp add: Itoa_no_sign)
  ultimately show ?thesis
    using item_str_graph [of it] TrimSpace_graph [of "Itoa n"]
    by (simp add: parse_piece_def parsePort_Itoa IndexByte_None_iff [THEN iffD2])
next
  case (Range l h)
  moreover assume ok: "item_ok it"
  moreover from calculation have "CHR ''-'' \<notin> set (Itoa l)" by (simp add: Itoa_no_sign)
  then have "IndexByte (Itoa l @ CHR ''-'' # Itoa h) (CHR ''-'') = Some (length (Itoa l))"
    by (rule IndexByte_append)
  ultimately show ?thesis
    using item_str_graph [of it] TrimSpace_graph [of "Itoa l @ CHR ''-'' # Itoa h"]
    by (simp add: parse_piece_def parsePort_Itoa)
qed

lemma parse_pieces_items:
  "\<forall>it\<in>set its. item_ok it \<Longrightarrow> parse_pieces p (map item_str its) = Inr (foldl add_item p its)"
  by (induction its arbitrary: p) (auto simp: parse_piece_item)

lemma add_item_permits: "Permits (Some (add_item p it)) x \<longleftrightarrow> Permits (Some p) x \<or> x \<in> item_ports it"
  by (cases it) (auto simp: Permits_def)

lemma foldl_add_item_permits:
  "Permits (Some (foldl add_item p its)) x \<longleftrightarrow> Permits (Some p) x \<or> (\<exists>it\<in>set its. x \<in> item_ports it)"
  by (induction its arbitrary: p) (auto simp: add_item_permits)

lemma Join_graph:
  "list_all (list_all graph_char) ps \<Longrightarrow> list_all graph_char sep \<Longrightarrow> list_all graph_char (Join ps sep)"
  by (induction ps sep rule: Join.induct) auto

lemma Join_hd: "ps \<noteq> [] \<Longrightarrow> hd ps \<noteq> [] \<Longrightarrow> Join ps sep \<noteq> [] \<and> hd (Join ps sep) = hd (hd ps)"
  by (induction ps sep rule: Join.induct) auto

lemma EqualFold_all_digit: "is_digit c \<Longrightarrow> \<not> EqualFold (c # cs) ''all''"
  by (auto simp: EqualFold.simps(2) [of _ "CHR ''a''"] is_digit_def ascii_lower_def HasPrefix_def)

lemma Parse_items:
  assumes "its \<noteq> []" "\<forall>it\<in>set its. item_ok it"
  shows "Parse (Join (map item_str its) '','') = Inr (foldl add_item zero_policy its)"
proof -
  let ?s = "Join (map item_str its) '',''"
  have "list_all graph_char ?s"
    using assms(2) item_str_graph by (intro Join_graph) (auto simp: list_all_iff graph_char_def)
  then have trim: "TrimSpace ?s = ?s" by (rule TrimSpace_graph)
  obtain i is' where its: "its = i # is'" using assms(1) by (meson neq_Nil_conv)
  have h: "?s \<noteq> [] \<and> hd ?s = hd (item_str i)"
    using Join_hd [of "map item_str its"] item_str_hd [of i] assms its by simp
  moreover have "is_digit (hd ?s)"
    using h item_str_hd [of i] assms(2) its by simp
  ultimately have "\<not> EqualFold ?s ''all''"
    using EqualFold_all_digit [of "hd ?s" "tl ?s"] by (metis list.collapse)
  moreover have "Split ?s (CHR '','') = map item_str its"
    using assms item_str_no_comma by (intro Split_Join) auto
  ultimately show ?thesis
    using h assms(2) by (simp add: Parse_def trim Let_def parse_pieces_items)
qed

lemma PortPolicy_String_items:
  assumes "\<not> pp_all p" "policy_items p \<noteq> []"
  shows "PortPolicy_String (Some p) = Join (map item_str (policy_items p)) '',''"
proof -
  have "map (\<lambda>(n, _). Itoa n) (pp_single p) @ map (\<lambda>r. Itoa (lo r) @ ''-'' @ Itoa (hi r)) (pp_ranges p)
      = map item_str (policy_items p)"
    by (auto simp: policy_items_def)
  with assms show ?thesis by (auto simp: PortPolicy_String_def Let_def simp del: map_append)
qed

lemma policy_items_ok: "policy_ok p \<Longrightarrow> it \<in> set (policy_items p) \<Longrightarrow> item_ok it"
  by (auto simp: policy_items_def policy_ok_def list_all_iff)

lemma map_of_unit_iff: "map_of m x = Some () \<longleftrightarrow> x \<in> fst ` set m"
  by (metis (full_types) map_of_eq_None_iff not_Some_eq old.unit.exhaust)

lemma policy_items_ports:
  "\<not> pp_all p \<Longrightarrow> Permits (Some p) x \<longleftrightarrow> (\<exists>it\<in>set (policy_items p). x \<in> item_ports it)"
  by (force simp: Permits_def policy_items_def list_ex_iff map_of_unit_iff)

lemma Set_Reload_cases:
  "Set_Reload rd s = (s', r) \<Longrightarrow>
     s' = s \<or> (\<exists>ps spec p. s = Some ps \<and> readFileSpec rd (ps_file ps) = Inr spec \<and> Parse spec = Inr p
        \<and> s' = Some (ps\<lparr>ps_policy := Some p, ps_spec := Some spec\<rparr>) \<and> r = Inr (spec \<noteq> Set_Spec s))"
  by (auto simp: Set_Reload_def split: option.splits if_splits sum.splits)

interpretation psr: reloadable Set_Permits Set_Reload ps_loaded
proof
  show "s' = s \<and> ps_loaded rd s = None" if "Set_Reload rd s = (s', Inl e)" for rd s s' e
    using that by (auto simp: Set_Reload_def ps_loaded_def Set_File_def split: option.splits if_splits sum.splits)
  show "ps_loaded rd s = Some (Set_Permits s') \<and> (\<forall>rd'. ps_loaded rd' s' = ps_loaded rd' s)"
    if "Set_Reload rd s = (s', Inr r)" for rd s s' r
    using that
    by (auto simp: Set_Reload_def ps_loaded_def Set_File_def Set_Permits_def fun_eq_iff split: option.splits if_splits sum.splits)
qed

section \<open>Properties\<close>

text \<open>
  C22: the meaning of an allowlist text.  When \<open>Parse\<close> accepts a spec that is neither blank nor
  \<open>all\<close>, the resulting policy permits exactly the ports named by one of its comma-separated
  elements (blank elements name nothing), and every such port is a TCP port.
\<close>

theorem Parse_meaning:
  assumes "Parse spec = Inr p" "TrimSpace spec \<noteq> []" "\<not> EqualFold (TrimSpace spec) ''all''"
  shows "(Permits (Some p) x \<longleftrightarrow> (\<exists>raw\<in>set (Split (TrimSpace spec) (CHR '','')). denotes raw x))
       \<and> (Permits (Some p) x \<longrightarrow> 1 \<le> x \<and> x \<le> 65535)"
proof -
  have p: "parse_pieces zero_policy (Split (TrimSpace spec) (CHR '','')) = Inr p"
    using assms by (simp add: Parse_def Let_def)
  moreover have "\<not> pp_all p" using parse_pieces_all [OF p] by (simp add: zero_policy_def)
  ultimately show ?thesis
    using parse_pieces_permits [OF p] policy_ok_bounds [OF parse_pieces_ok [OF p]] by simp
qed

theorem Parse_meaning_witness:
  "Permits (Some (foldl add_item zero_policy [Range 3000 3099, Single 8080])) 3005
   \<and> \<not> Permits (Some (foldl add_item zero_policy [Range 3000 3099, Single 8080])) 22"
proof -
  have eq: "''3000-3099,8080'' = Join (map item_str [Range 3000 3099, Single 8080]) '',''"
    by (simp add: Itoa_def nat_digits.simps digit_char_def)
  have p: "Parse ''3000-3099,8080'' = Inr (foldl add_item zero_policy [Range 3000 3099, Single 8080])"
    unfolding eq by (rule Parse_items) auto
  have t: "TrimSpace ''3000-3099,8080'' = ''3000-3099,8080''"
    by (rule TrimSpace_graph) (simp add: graph_char_def)
  have ne: "TrimSpace ''3000-3099,8080'' \<noteq> []" "\<not> EqualFold (TrimSpace ''3000-3099,8080'') ''all''"
    unfolding t by (simp, code_simp)
  have "denotes ''3000-3099'' 3005" "\<not> denotes ''3000-3099'' 22" "\<not> denotes ''8080'' 22"
    by code_simp+
  then show ?thesis
    using Parse_meaning [OF p ne, of 3005] Parse_meaning [OF p ne, of 22] unfolding t by simp
qed

text \<open>
  Round trip.  Printing a policy that \<open>Parse\<close> can build (no unrestricted flag, at least one
  entry) and parsing the text again succeeds, and the two policies permit the same ports, in
  whatever order the map of single ports is iterated.
\<close>

theorem String_Parse_roundtrip:
  assumes "policy_ok p" "\<not> pp_all p" "policy_items p \<noteq> []"
  shows "\<exists>q. Parse (PortPolicy_String (Some p)) = Inr q \<and> (\<forall>x. Permits (Some q) x = Permits (Some p) x)"
proof -
  have "Parse (PortPolicy_String (Some p)) = Inr (foldl add_item zero_policy (policy_items p))"
    using assms Parse_items [of "policy_items p"] by (auto simp: PortPolicy_String_items policy_items_ok)
  then show ?thesis
    using assms(2) by (auto simp: foldl_add_item_permits policy_items_ports)
qed

theorem String_Parse_roundtrip_witness:
  "\<exists>q. Parse (PortPolicy_String (Some (foldl add_item zero_policy [Single 22, Range 80 90]))) = Inr q
      \<and> (\<forall>x. Permits (Some q) x = Permits (Some (foldl add_item zero_policy [Single 22, Range 80 90])) x)"
  by (rule String_Parse_roundtrip)
     (simp_all add: policy_ok_def zero_policy_def policy_items_def gomap_wf_def)

text \<open>
  Reloading is fail-safe.  Whatever the file system returns, after \<open>Reload\<close> the set either
  is unchanged (nil set, inline source, unreadable file, malformed spec), or its policy is the
  parse of the spec now in the file; the source label and the file path never change, and
  \<open>changed\<close> is reported exactly when the spec text differs from the previous one.
\<close>

theorem Set_Reload_fail_safe:
  assumes "Set_Reload rd s = (s', r)"
  shows "s' = s \<or>
         (\<exists>ps spec p. s = Some ps \<and> r = Inr (spec \<noteq> Set_Spec s) \<and>
            readFileSpec rd (Set_File s) = Inr spec \<and> Parse spec = Inr p \<and>
            (\<forall>x. Set_Permits s' x = Permits (Some p) x) \<and> Set_Spec s' = spec \<and>
            Set_File s' = Set_File s \<and> Set_Source s' = Set_Source s)"
  using Set_Reload_cases [OF assms]
  by (auto simp: Set_Permits_def Set_Spec_def Set_File_def Set_Source_def)

theorem Set_Reload_fail_safe_witness:
  "(let rd = (\<lambda>_. Inr ''80 # http'');
        s = Some \<lparr>ps_policy = Some zero_policy, ps_source = ''file:/p'', ps_spec = Some '''', ps_file = ''/p''\<rparr>;
        (s', r) = Set_Reload rd s
    in r = Inr True \<and> Set_Permits s' 80 \<and> \<not> Set_Permits s' 81)"
proof -
  let ?rd = "\<lambda>_::string. (Inr ''80 # http'' :: bytes result)"
  let ?s = "Some \<lparr>ps_policy = Some zero_policy, ps_source = ''file:/p'', ps_spec = Some '''', ps_file = ''/p''\<rparr>"
  have rs: "readFileSpec ?rd ''/p'' = Inr ''80''" by code_simp
  have p: "Parse ''80'' = Inr (foldl add_item zero_policy [Single 80])" by code_simp
  have r: "snd (Set_Reload ?rd ?s) = Inr True"
    using rs p by (simp add: Set_Reload_def Set_Spec_def)
  have "fst (Set_Reload ?rd ?s) \<noteq> ?s"
    using rs p by (simp add: Set_Reload_def)
  with Set_Reload_fail_safe [of ?rd ?s "fst (Set_Reload ?rd ?s)" "snd (Set_Reload ?rd ?s)"] rs p
  have "\<forall>x. Set_Permits (fst (Set_Reload ?rd ?s)) x = Permits (Some (foldl add_item zero_policy [Single 80])) x"
    by (auto simp: Set_File_def)
  with r show ?thesis
    by (simp add: case_prod_unfold Permits_def zero_policy_def)
qed

end
