(* ===== verification/Go_Time.thy ===== *)
theory Go_Time
  imports Prelude
begin

text \<open>
  Package \<open>time\<close> as far as the sources use it.  A \<open>time.Time\<close> is an \<open>int\<close>, the nanoseconds since
  the Unix epoch; a \<open>time.Duration\<close> is an \<open>int\<close> in the range of \<open>int64\<close>, in nanoseconds.
  Where the Go value can leave that range the model does what Go does: \<open>Time.Sub\<close> saturates
  (\<open>time_Sub\<close>), negating a \<open>Duration\<close> wraps around (\<open>neg64\<close>), and \<open>time.Unix\<close> wraps in the
  addition of its internal epoch offset (\<open>time_Unix\<close>).
\<close>

type_synonym gotime = int
type_synonym duration = int

definition wrap64 :: "int \<Rightarrow> int" where
  "wrap64 x = (x + 2 ^ 63) mod 2 ^ 64 - 2 ^ 63"

definition minDuration :: duration where
  "minDuration = - (2 ^ 63)"

definition maxDuration :: duration where
  "maxDuration = 2 ^ 63 - 1"

abbreviation Second :: duration where
  "Second \<equiv> 1000000000"

abbreviation Minute :: duration where
  "Minute \<equiv> 60000000000"

abbreviation Hour :: duration where
  "Hour \<equiv> 3600000000000"

definition time_Sub :: "gotime \<Rightarrow> gotime \<Rightarrow> duration" where
  "time_Sub t u =
     (if t - u < minDuration then minDuration
      else if t - u > maxDuration then maxDuration else t - u)"

definition neg64 :: "duration \<Rightarrow> duration" where
  "neg64 d = wrap64 (- d)"

text \<open>Seconds from the year 1 (the epoch of Go's internal representation) to 1970.\<close>

definition unixToInternal :: int where
  "unixToInternal = 62135596800"

definition time_Unix :: "int \<Rightarrow> gotime" where
  "time_Unix sec = Second * (wrap64 (sec + unixToInternal) - unixToInternal)"

text \<open>\<open>Time.Unix\<close>: whole seconds, rounded down.\<close>

definition Time_Unix :: "gotime \<Rightarrow> int" where
  "Time_Unix t = t div Second"

text \<open>\<open>int(d.Seconds())\<close> for a non-negative duration of less than about 97 days, where the
  floating-point conversion is exact enough for the truncation.\<close>

definition Duration_Seconds :: "duration \<Rightarrow> int" where
  "Duration_Seconds d = d div Second"

lemma Duration_Seconds_less: "d < (Duration_Seconds d + 1) * Second"
  unfolding Duration_Seconds_def by presburger

lemma wrap64_id: "- (2 ^ 63) \<le> x \<Longrightarrow> x < 2 ^ 63 \<Longrightarrow> wrap64 x = x"
  by (simp add: wrap64_def)

lemma neg64_min: "neg64 minDuration = minDuration"
  by (simp add: neg64_def wrap64_def minDuration_def)

lemma neg64_id: "minDuration < d \<Longrightarrow> d \<le> maxDuration \<Longrightarrow> neg64 d = - d"
  by (simp add: neg64_def minDuration_def maxDuration_def wrap64_id)

lemma time_Sub_range: "minDuration \<le> time_Sub t u \<and> time_Sub t u \<le> maxDuration"
  by (simp add: time_Sub_def minDuration_def maxDuration_def)

lemma time_Unix_id:
  assumes "- (2 ^ 63) \<le> sec + unixToInternal" "sec + unixToInternal < 2 ^ 63"
  shows "time_Unix sec = Second * sec"
  using assms by (simp add: time_Unix_def wrap64_id)

end
