(* ===== verification/Rate_Limit.thy ===== *)
theory Rate_Limit
  imports Go_Time
begin

text \<open>
  \<open>internal/ratelimit/limiter.go\<close>: the per-key sliding window that bounds Register attempts
  and ACME orders.  The mutex makes every method atomic, so a method is a function on the
  state record.  Go's map iteration order is random: the key that the eviction path deletes is
  chosen by the argument \<open>rnd\<close>, and every key of the map is chosen by some \<open>rnd\<close>.
  The lemmas show the invariant (distinct keys, at most \<open>max\<close> samples per key, at most
  \<open>maxKeys\<close> keys), that the limiter decides like a reference that keeps the whole history, and
  the laws of a refundable budget (locale \<open>rate_limiter\<close>) that the Register handler relies on.
\<close>

record SlidingWindow =
  sw_max :: int
  sw_window :: duration
  sw_maxKeys :: int
  sw_seen :: "(string, gotime list) gomap"

definition DefaultMaxKeys :: int where
  "DefaultMaxKeys = 100000"

definition SlidingWindow_New :: "int \<Rightarrow> duration \<Rightarrow> SlidingWindow" where
  "SlidingWindow_New mx window =
     \<lparr>sw_max = mx, sw_window = window, sw_maxKeys = DefaultMaxKeys, sw_seen = []\<rparr>"

definition SlidingWindow_Max :: "SlidingWindow \<Rightarrow> int" where
  "SlidingWindow_Max s = sw_max s"

definition SetMaxKeys :: "SlidingWindow \<Rightarrow> int \<Rightarrow> SlidingWindow" where
  "SetMaxKeys s n = s\<lparr>sw_maxKeys := n\<rparr>"

definition samples_of :: "SlidingWindow \<Rightarrow> string \<Rightarrow> gotime list" where
  "samples_of s key = (case map_of (sw_seen s) key of None \<Rightarrow> [] | Some ss \<Rightarrow> ss)"

text \<open>The scan \<open>for i < len(samples) && !samples[i].After(cutoff)\<close> and \<open>samples[i:]\<close>.\<close>

definition drop_aged :: "gotime \<Rightarrow> gotime list \<Rightarrow> gotime list" where
  "drop_aged cutoff ss = dropWhile (\<lambda>t. \<not> t > cutoff) ss"

definition pruneLocked :: "SlidingWindow \<Rightarrow> gotime \<Rightarrow> SlidingWindow" where
  "pruneLocked s now =
     (let cutoff = now - sw_window s in
      s\<lparr>sw_seen := filter (\<lambda>(k, ss). ss \<noteq> [])
                    (map (\<lambda>(k, ss). (k, drop_aged cutoff ss)) (sw_seen s))\<rparr>)"

text \<open>\<open>for k := range s.seen { delete(s.seen, k); break }\<close>\<close>

definition evict_one :: "nat \<Rightarrow> SlidingWindow \<Rightarrow> SlidingWindow" where
  "evict_one rnd s =
     (if sw_seen s = [] then s
      else s\<lparr>sw_seen := AList.delete (fst (sw_seen s ! (rnd mod length (sw_seen s)))) (sw_seen s)\<rparr>)"

definition AllowAt :: "nat \<Rightarrow> SlidingWindow \<Rightarrow> string \<Rightarrow> gotime \<Rightarrow> bool \<times> SlidingWindow" where
  "AllowAt rnd s key now =
     (if sw_max s \<le> 0 then (True, s)
      else
        (let cutoff = now - sw_window s;
             samples = drop_aged cutoff (samples_of s key)
         in if int (length samples) \<ge> sw_max s
            then (False, s\<lparr>sw_seen := AList.update key samples (sw_seen s)\<rparr>)
            else
              (let s1 = (if map_of (sw_seen s) key = None \<and> sw_maxKeys s > 0
                            \<and> int (length (sw_seen s)) \<ge> sw_maxKeys s
                         then (let sp = pruneLocked s now in
                               if int (length (sw_seen sp)) \<ge> sw_maxKeys sp then evict_one rnd sp else sp)
                         else s)
               in (True, s1\<lparr>sw_seen := AList.update key (samples @ [now]) (sw_seen s1)\<rparr>))))"

definition CancelLatest :: "SlidingWindow \<Rightarrow> string \<Rightarrow> SlidingWindow" where
  "CancelLatest s key =
     (if sw_max s \<le> 0 then s
      else
        (let samples = samples_of s key in
         if length samples = 0 then s
         else if length samples = 1 then s\<lparr>sw_seen := AList.delete key (sw_seen s)\<rparr>
         else s\<lparr>sw_seen := AList.update key (take (length samples - 1) samples) (sw_seen s)\<rparr>))"

definition PruneAt :: "SlidingWindow \<Rightarrow> gotime \<Rightarrow> SlidingWindow" where
  "PruneAt s now = pruneLocked s now"

definition SlidingWindow_Size :: "SlidingWindow \<Rightarrow> int" where
  "SlidingWindow_Size s = int (length (sw_seen s))"

definition RetryAfterAt :: "SlidingWindow \<Rightarrow> string \<Rightarrow> gotime \<Rightarrow> duration \<times> SlidingWindow" where
  "RetryAfterAt s key now =
     (if sw_max s \<le> 0 then (0, s)
      else
        (let cutoff = now - sw_window s;
             samples0 = samples_of s key;
             samples = drop_aged cutoff samples0;
             s1 = (if length samples < length samples0
                   then s\<lparr>sw_seen := AList.update key samples (sw_seen s)\<rparr> else s)
         in if int (length samples) < sw_max s then (0, s1)
            else (let d = time_Sub (hd samples + sw_window s) now
                  in (if d < 0 then 0 else d, s1))))"

section \<open>Invariant and reference\<close>

definition sw_inv :: "SlidingWindow \<Rightarrow> bool" where
  "sw_inv s \<longleftrightarrow>
     gomap_wf (sw_seen s)
     \<and> (0 < sw_max s \<longrightarrow> list_all (\<lambda>(k, ss). int (length ss) \<le> sw_max s) (sw_seen s))
     \<and> (0 < sw_maxKeys s \<longrightarrow> int (length (sw_seen s)) \<le> sw_maxKeys s)"

text \<open>
  The samples of every key are sorted and not after \<open>t\<close>: what a run whose clock readings do not
  go backwards keeps.
\<close>

definition sw_ordered :: "gotime \<Rightarrow> SlidingWindow \<Rightarrow> bool" where
  "sw_ordered t s \<longleftrightarrow> (\<forall>k. sorted (samples_of s k) \<and> (\<forall>x\<in>set (samples_of s k). x \<le> t))"

definition sw_ready :: "gotime \<Rightarrow> SlidingWindow \<Rightarrow> bool" where
  "sw_ready t s \<longleftrightarrow> sw_inv s \<and> sw_ordered t s \<and> 0 < sw_window s"

definition live_count :: "SlidingWindow \<Rightarrow> string \<Rightarrow> gotime \<Rightarrow> nat" where
  "live_count s key now = length (filter (\<lambda>t. now - sw_window s < t) (samples_of s key))"

text \<open>
  One call on the limiter.  A run books every admitted event in an unbounded history and takes
  the latest one out again on a refund; the history is what the limiter should count.
\<close>

datatype lop = LAllow string gotime nat | LCancel string | LPrune gotime | LRetry string gotime

type_synonym history = "string \<Rightarrow> gotime list"

fun sw_step :: "SlidingWindow \<times> history \<Rightarrow> lop \<Rightarrow> SlidingWindow \<times> history" where
  "sw_step (s, h) (LAllow k now rnd) =
     (let (ok, s') = AllowAt rnd s k now in (s', if ok then h(k := h k @ [now]) else h))"
| "sw_step (s, h) (LCancel k) = (CancelLatest s k, h(k := butlast (h k)))"
| "sw_step (s, h) (LPrune now) = (PruneAt s now, h)"
| "sw_step (s, h) (LRetry k now) = (snd (RetryAfterAt s k now), h)"

definition sw_run :: "SlidingWindow \<Rightarrow> lop list \<Rightarrow> SlidingWindow \<times> history" where
  "sw_run s ops = foldl sw_step (s, \<lambda>_. []) ops"

fun lop_time :: "lop \<Rightarrow> gotime option" where
  "lop_time (LAllow k now rnd) = Some now"
| "lop_time (LCancel k) = None"
| "lop_time (LPrune now) = Some now"
| "lop_time (LRetry k now) = Some now"

fun lop_key :: "lop \<Rightarrow> string option" where
  "lop_key (LAllow k now rnd) = Some k"
| "lop_key (LCancel k) = Some k"
| "lop_key (LPrune now) = None"
| "lop_key (LRetry k now) = Some k"

definition lop_times :: "lop list \<Rightarrow> gotime list" where
  "lop_times ops = List.map_filter lop_time ops"

definition lop_keys :: "lop list \<Rightarrow> string set" where
  "lop_keys ops = set (List.map_filter lop_key ops)"

text \<open>
  The simulation relation of a run: the limiter and the booked history agree on the events
  still in the window at time \<open>t\<close>, the keys stay within \<open>K\<close>, and no window of the history
  holds more than \<open>max\<close> events.
\<close>

definition sw_sim :: "string set \<Rightarrow> gotime \<Rightarrow> SlidingWindow \<times> history \<Rightarrow> bool" where
  "sw_sim K t sh \<longleftrightarrow>
     (case sh of (s, h) \<Rightarrow>
        sw_inv s \<and> sw_ordered t s \<and> fst ` set (sw_seen s) \<subseteq> K
        \<and> (\<forall>k. sorted (h k) \<and> (\<forall>x\<in>set (h k). x \<le> t)
               \<and> filter (\<lambda>x. t - sw_window s < x) (samples_of s k) = filter (\<lambda>x. t - sw_window s < x) (h k)
               \<and> (\<forall>T. int (length (filter (\<lambda>x. T - sw_window s < x \<and> x \<le> T) (h k))) \<le> sw_max s)))"

section \<open>Lemmas\<close>

lemma gomap_wf_map_snd: "gomap_wf m \<Longrightarrow> gomap_wf (map (\<lambda>(k, v). (k, f v)) m)"
  by (simp add: gomap_wf_def case_prod_unfold comp_def)

lemma gomap_wf_filter: "gomap_wf m \<Longrightarrow> gomap_wf (filter P m)"
  by (simp add: gomap_wf_def distinct_map_filter)

lemma set_gomap_update:
  "gomap_wf m \<Longrightarrow> x \<in> set (AList.update k v m) \<longleftrightarrow> x = (k, v) \<or> x \<in> set m \<and> fst x \<noteq> k"
proof -
  assume wf: "gomap_wf m"
  then have "(a, b) \<in> set (AList.update k v m) \<longleftrightarrow> map_of (AList.update k v m) a = Some b" for a b
    by (simp add: gomap_mem_iff)
  with wf show ?thesis by (cases x) (auto simp: gomap_mem_iff)
qed

lemma length_gomap_update:
  "gomap_wf m \<Longrightarrow>
   length (AList.update k v m) = (if map_of m k = None then Suc (length m) else length m)"
  by (auto simp: length_gomap insert_absorb domIff finite_dom_map_of)

lemma length_gomap_delete:
  "gomap_wf m \<Longrightarrow> map_of m k \<noteq> None \<Longrightarrow> Suc (length (AList.delete k m)) = length m"
proof -
  assume wf: "gomap_wf m" and k: "map_of m k \<noteq> None"
  have "Suc (card (dom (map_of m) - {k})) = card (dom (map_of m))"
    using k by (intro card_Suc_Diff1) (auto simp: finite_dom_map_of)
  with wf show ?thesis by (simp add: length_gomap del: card_Diff_insert)
qed

lemma list_all_gomap_update:
  "gomap_wf m \<Longrightarrow> list_all P m \<Longrightarrow> P (k, v) \<Longrightarrow> list_all P (AList.update k v m)"
  by (auto simp: list_all_iff set_gomap_update)

lemma list_all_gomap_delete: "list_all P m \<Longrightarrow> list_all P (AList.delete k m)"
  by (auto simp: list_all_iff AList.delete_eq)

lemma drop_aged_length: "length (drop_aged c ss) \<le> length ss"
  by (simp add: drop_aged_def length_dropWhile_le)

lemma drop_aged_sorted: "sorted ss \<Longrightarrow> drop_aged c ss = filter (\<lambda>t. c < t) ss"
proof (induction ss)
  case (Cons a ss)
  then have "c < a \<Longrightarrow> filter (\<lambda>t. c < t) ss = ss" by (intro filter_True) auto
  with Cons show ?case by (simp add: drop_aged_def)
qed (simp add: drop_aged_def)

lemma pruneLocked_simps [simp]:
  "sw_max (pruneLocked s now) = sw_max s"
  "sw_window (pruneLocked s now) = sw_window s"
  "sw_maxKeys (pruneLocked s now) = sw_maxKeys s"
  by (simp_all add: pruneLocked_def Let_def)

lemma evict_one_simps [simp]:
  "sw_max (evict_one r s) = sw_max s"
  "sw_window (evict_one r s) = sw_window s"
  "sw_maxKeys (evict_one r s) = sw_maxKeys s"
  by (simp_all add: evict_one_def)

lemma AllowAt_frame [simp]:
  "sw_max (snd (AllowAt r s k now)) = sw_max s"
  "sw_window (snd (AllowAt r s k now)) = sw_window s"
  "sw_maxKeys (snd (AllowAt r s k now)) = sw_maxKeys s"
  by (auto simp: AllowAt_def Let_def)

lemma CancelLatest_frame [simp]:
  "sw_max (CancelLatest s k) = sw_max s"
  "sw_window (CancelLatest s k) = sw_window s"
  "sw_maxKeys (CancelLatest s k) = sw_maxKeys s"
  by (simp_all add: CancelLatest_def Let_def)

lemma RetryAfterAt_frame [simp]:
  "sw_max (snd (RetryAfterAt s k now)) = sw_max s"
  "sw_window (snd (RetryAfterAt s k now)) = sw_window s"
  "sw_maxKeys (snd (RetryAfterAt s k now)) = sw_maxKeys s"
  by (auto simp: RetryAfterAt_def Let_def)

lemma samples_of_update [simp]:
  "samples_of (s\<lparr>sw_seen := AList.update k ss (sw_seen s')\<rparr>) k' =
     (if k' = k then ss else samples_of (s\<lparr>sw_seen := sw_seen s'\<rparr>) k')"
  by (simp add: samples_of_def)

lemma samples_of_delete [simp]:
  "samples_of (s\<lparr>sw_seen := AList.delete k (sw_seen s')\<rparr>) k' =
     (if k' = k then [] else samples_of (s\<lparr>sw_seen := sw_seen s'\<rparr>) k')"
  by (simp add: samples_of_def)

lemma samples_of_id [simp]: "samples_of (s\<lparr>sw_seen := sw_seen s'\<rparr>) = samples_of s'"
  by (simp add: samples_of_def fun_eq_iff)

text \<open>The invariant is kept by every method.\<close>

lemma pruneLocked_wf: "gomap_wf (sw_seen s) \<Longrightarrow> gomap_wf (sw_seen (pruneLocked s now))"
  by (simp add: pruneLocked_def Let_def gomap_wf_filter gomap_wf_map_snd)

lemma pruneLocked_length: "length (sw_seen (pruneLocked s now)) \<le> length (sw_seen s)"
  by (auto simp: pruneLocked_def Let_def intro: order_trans [OF length_filter_le])

lemma pruneLocked_list_all:
  assumes "list_all (\<lambda>(k, ss). int (length ss) \<le> mx) (sw_seen s)"
  shows "list_all (\<lambda>(k, ss). int (length ss) \<le> mx) (sw_seen (pruneLocked s now))"
proof -
  have "int (length (drop_aged c ss)) \<le> mx" if "(k, ss) \<in> set (sw_seen s)" for k ss c
    using assms that drop_aged_length [of c ss] by (force simp: list_all_iff)
  then show ?thesis by (auto simp: pruneLocked_def Let_def list_all_iff)
qed

lemma pruneLocked_inv: "sw_inv s \<Longrightarrow> sw_inv (pruneLocked s now)"
  using pruneLocked_length [of s now]
  by (auto simp: sw_inv_def pruneLocked_wf pruneLocked_list_all)

lemma evict_one_wf: "gomap_wf (sw_seen s) \<Longrightarrow> gomap_wf (sw_seen (evict_one r s))"
  by (simp add: evict_one_def)

lemma evict_one_length:
  assumes "gomap_wf (sw_seen s)" "sw_seen s \<noteq> []"
  shows "Suc (length (sw_seen (evict_one r s))) = length (sw_seen s)"
proof -
  let ?i = "r mod length (sw_seen s)"
  have "sw_seen s ! ?i \<in> set (sw_seen s)" using assms(2) by simp
  then have "map_of (sw_seen s) (fst (sw_seen s ! ?i)) \<noteq> None"
    by (simp add: map_of_eq_None_iff)
  with assms show ?thesis by (simp add: evict_one_def length_gomap_delete)
qed

lemma evict_one_list_all: "list_all P (sw_seen s) \<Longrightarrow> list_all P (sw_seen (evict_one r s))"
  by (simp add: evict_one_def list_all_gomap_delete)

lemma samples_of_length:
  assumes "sw_inv s" "0 < sw_max s" shows "int (length (samples_of s k)) \<le> sw_max s"
  using assms by (auto simp: sw_inv_def samples_of_def list_all_iff split: option.splits dest!: map_of_SomeD)

lemma map_of_samples: "samples_of s k \<noteq> [] \<Longrightarrow> map_of (sw_seen s) k \<noteq> None"
  by (cases "map_of (sw_seen s) k") (auto simp: samples_of_def)

lemma make_room:
  fixes s now rnd
  defines "sp \<equiv> pruneLocked s now"
  defines "s1 \<equiv> (if int (length (sw_seen sp)) \<ge> sw_maxKeys sp then evict_one rnd sp else sp)"
  assumes "sw_inv s" "0 < sw_maxKeys s"
  shows "sw_inv s1 \<and> int (length (sw_seen s1)) < sw_maxKeys s"
proof (cases "int (length (sw_seen sp)) \<ge> sw_maxKeys sp")
  case True
  have sp: "sw_inv sp" "sw_maxKeys sp = sw_maxKeys s" using assms by (simp_all add: pruneLocked_inv)
  with True assms(4) have "sw_seen sp \<noteq> []" by auto
  with sp have len: "Suc (length (sw_seen (evict_one rnd sp))) = length (sw_seen sp)"
    by (intro evict_one_length) (simp_all add: sw_inv_def)
  with sp True assms(4) show ?thesis
    by (auto simp: s1_def sw_inv_def evict_one_wf evict_one_list_all)
next
  case False
  with assms show ?thesis by (simp add: s1_def sp_def pruneLocked_inv)
qed

lemma sw_inv_insert:
  assumes "sw_inv s1" "int (length ss) \<le> sw_max s1"
    "map_of (sw_seen s1) k = None \<Longrightarrow> 0 < sw_maxKeys s1 \<Longrightarrow> int (length (sw_seen s1)) < sw_maxKeys s1"
  shows "sw_inv (s1\<lparr>sw_seen := AList.update k ss (sw_seen s1)\<rparr>)"
  using assms by (auto simp: sw_inv_def length_gomap_update list_all_gomap_update)

lemma AllowAt_inv:
  assumes "sw_inv s"
  shows "sw_inv (snd (AllowAt rnd s k now))"
proof (cases "sw_max s \<le> 0")
  case False
  let ?ss = "drop_aged (now - sw_window s) (samples_of s k)"
  have len: "int (length ?ss) \<le> sw_max s"
    using samples_of_length [OF assms, of k] drop_aged_length [of "now - sw_window s" "samples_of s k"] False
    by linarith
  show ?thesis
  proof (cases "int (length ?ss) \<ge> sw_max s")
    case True
    with False have "samples_of s k \<noteq> []" by (auto simp: drop_aged_def)
    then have "map_of (sw_seen s) k \<noteq> None" by (rule map_of_samples)
    with len have "sw_inv (s\<lparr>sw_seen := AList.update k ?ss (sw_seen s)\<rparr>)"
      by (intro sw_inv_insert) (use assms in auto)
    with True False show ?thesis by (simp add: AllowAt_def Let_def)
  next
    case notfull: False
    show ?thesis
    proof (cases "map_of (sw_seen s) k = None \<and> sw_maxKeys s > 0 \<and> int (length (sw_seen s)) \<ge> sw_maxKeys s")
      case True
      then show ?thesis
        using make_room [OF assms, of now rnd] notfull False
        by (auto simp: AllowAt_def Let_def intro!: sw_inv_insert)
    next
      case room: False
      have "sw_inv (s\<lparr>sw_seen := AList.update k (?ss @ [now]) (sw_seen s)\<rparr>)"
        using assms notfull room by (intro sw_inv_insert) auto
      with room notfull False show ?thesis by (auto simp: AllowAt_def Let_def)
    qed
  qed
qed (simp add: AllowAt_def assms)

lemma CancelLatest_inv:
  assumes "sw_inv s"
  shows "sw_inv (CancelLatest s k)"
proof -
  let ?ss = "samples_of s k"
  have "sw_inv (s\<lparr>sw_seen := AList.update k (take (length ?ss - 1) ?ss) (sw_seen s)\<rparr>)"
    if "0 < sw_max s" "?ss \<noteq> []"
    using assms samples_of_length [OF assms that(1), of k] map_of_samples [OF that(2)]
    by (intro sw_inv_insert) auto
  moreover have "sw_inv (s\<lparr>sw_seen := AList.delete k (sw_seen s)\<rparr>)"
    using assms length_delete_le [of k "sw_seen s"]
    by (auto simp: sw_inv_def list_all_gomap_delete)
  ultimately show ?thesis using assms by (auto simp: CancelLatest_def Let_def)
qed

lemma RetryAfterAt_inv:
  assumes "sw_inv s"
  shows "sw_inv (snd (RetryAfterAt s k now))"
proof -
  let ?ss = "drop_aged (now - sw_window s) (samples_of s k)"
  have "sw_inv (s\<lparr>sw_seen := AList.update k ?ss (sw_seen s)\<rparr>)"
    if "0 < sw_max s" "length ?ss < length (samples_of s k)"
  proof -
    have "map_of (sw_seen s) k \<noteq> None" using that(2) by (intro map_of_samples) auto
    then show ?thesis
      using assms that samples_of_length [OF assms that(1), of k] by (intro sw_inv_insert) auto
  qed
  then show ?thesis using assms by (auto simp: RetryAfterAt_def Let_def)
qed

text \<open>What each method does to the samples of a key.\<close>

lemma map_of_filter_map:
  "gomap_wf m \<Longrightarrow>
   map_of (filter (\<lambda>(k, ss). ss \<noteq> []) (map (\<lambda>(k, ss). (k, f ss)) m)) k =
   (case map_of m k of None \<Rightarrow> None | Some ss \<Rightarrow> if f ss = [] then None else Some (f ss))"
proof (induction m)
  case (Cons a m)
  obtain k0 ss0 where a: "a = (k0, ss0)" by (cases a)
  have wf: "gomap_wf m" and k0: "map_of m k0 = None"
    using Cons.prems by (auto simp: a gomap_wf_def map_of_eq_None_iff)
  show ?case
    using Cons.IH [OF wf] k0 by (cases "k = k0"; cases "f ss0 = []") (simp_all add: a)
qed simp

lemma drop_aged_Nil [simp]: "drop_aged c [] = []"
  by (simp add: drop_aged_def)

lemma drop_aged_id: "length ss \<le> length (drop_aged c ss) \<Longrightarrow> drop_aged c ss = ss"
proof (induction ss)
  case (Cons a ss)
  then show ?case using drop_aged_length [of c ss] by (auto simp: drop_aged_def split: if_splits)
qed simp

lemma samples_of_prune:
  "gomap_wf (sw_seen s) \<Longrightarrow>
   samples_of (pruneLocked s now) k = drop_aged (now - sw_window s) (samples_of s k)"
  by (auto simp: samples_of_def pruneLocked_def Let_def map_of_filter_map split: option.splits)

lemma samples_of_evict: "samples_of (evict_one r s) k \<in> {samples_of s k, []}"
  by (auto simp: evict_one_def samples_of_def)

lemma samples_of_CancelLatest:
  "0 < sw_max s \<Longrightarrow>
   samples_of (CancelLatest s k) k' = (if k' = k then butlast (samples_of s k) else samples_of s k')"
proof -
  assume "0 < sw_max s"
  moreover have "butlast (samples_of s k) = []" if "length (samples_of s k) \<le> Suc 0"
    using that by (cases "samples_of s k") auto
  ultimately show ?thesis
    by (auto simp: CancelLatest_def Let_def butlast_conv_take le_Suc_eq)
qed

lemma samples_of_RetryAfterAt:
  "0 < sw_max s \<Longrightarrow>
   samples_of (snd (RetryAfterAt s k now)) k' =
     (if k' = k then drop_aged (now - sw_window s) (samples_of s k) else samples_of s k')"
  by (auto simp: RetryAfterAt_def Let_def not_less drop_aged_id)

lemma AllowAt_decision:
  "0 < sw_max s \<Longrightarrow>
   fst (AllowAt r s k now) \<longleftrightarrow> int (length (drop_aged (now - sw_window s) (samples_of s k))) < sw_max s"
  by (auto simp: AllowAt_def Let_def)

lemma samples_of_AllowAt_same:
  "0 < sw_max s \<Longrightarrow>
   samples_of (snd (AllowAt r s k now)) k =
     drop_aged (now - sw_window s) (samples_of s k) @ (if fst (AllowAt r s k now) then [now] else [])"
  by (auto simp: AllowAt_def Let_def)

lemma samples_of_AllowAt_other:
  assumes "0 < sw_max s" "gomap_wf (sw_seen s)" "k' \<noteq> k"
  shows "samples_of (snd (AllowAt r s k now)) k'
           \<in> {samples_of s k', drop_aged (now - sw_window s) (samples_of s k'), []}"
  using assms samples_of_evict [of r "pruneLocked s now" k']
  by (auto simp: AllowAt_def Let_def samples_of_prune)

lemma AllowAt_no_pressure:
  assumes "0 < sw_max s" "k' \<noteq> k"
    "map_of (sw_seen s) k \<noteq> None \<or> sw_maxKeys s \<le> 0 \<or> int (length (sw_seen s)) < sw_maxKeys s"
  shows "samples_of (snd (AllowAt r s k now)) k' = samples_of s k'"
  using assms by (auto simp: AllowAt_def Let_def)

section \<open>The laws a refundable budget obeys\<close>

text \<open>
  What the Register handler relies on: a call is admitted exactly while fewer than \<open>budget\<close>
  events of the key are in the window, an admitted call uses one unit, and a refund gives one
  unit back.  The lemmas inside follow for every implementation of the laws.
\<close>

locale rate_limiter =
  fixes allow :: "nat \<Rightarrow> 's \<Rightarrow> string \<Rightarrow> gotime \<Rightarrow> bool \<times> 's"
    and cancel :: "'s \<Rightarrow> string \<Rightarrow> 's"
    and budget :: "'s \<Rightarrow> int"
    and used :: "'s \<Rightarrow> string \<Rightarrow> gotime \<Rightarrow> nat"
    and inv :: "gotime \<Rightarrow> 's \<Rightarrow> bool"
  assumes allow_iff:
      "inv now s \<Longrightarrow> 0 < budget s \<Longrightarrow> fst (allow r s k now) \<longleftrightarrow> int (used s k now) < budget s"
    and allow_used:
      "inv now s \<Longrightarrow> 0 < budget s \<Longrightarrow>
       used (snd (allow r s k now)) k now = used s k now + (if fst (allow r s k now) then 1 else 0)"
    and allow_other:
      "inv now s \<Longrightarrow> k' \<noteq> k \<Longrightarrow> used (snd (allow r s k now)) k' now \<le> used s k' now"
    and allow_inv: "inv now s \<Longrightarrow> inv now (snd (allow r s k now))"
    and allow_budget: "budget (snd (allow r s k now)) = budget s"
    and cancel_used: "inv now s \<Longrightarrow> 0 < budget s \<Longrightarrow> used (cancel s k) k now = used s k now - 1"
    and cancel_inv: "inv now s \<Longrightarrow> inv now (cancel s k)"
    and cancel_budget: "budget (cancel s k) = budget s"
    and inv_mono: "inv t s \<Longrightarrow> t \<le> now \<Longrightarrow> inv now s"
begin

text \<open>A refund after an admission restores the count.\<close>

lemma refund_neutral:
  assumes "inv now s" "0 < budget s" "fst (allow r s k now)"
  shows "used (cancel (snd (allow r s k now)) k) k now = used s k now"
  using assms by (simp add: cancel_used allow_inv allow_budget allow_used)

lemma funpow_allow:
  "inv now s \<Longrightarrow> inv now (((\<lambda>s. snd (allow r s k now)) ^^ n) s)
     \<and> budget (((\<lambda>s. snd (allow r s k now)) ^^ n) s) = budget s"
  by (induction n) (auto simp: allow_inv allow_budget)

text \<open>A burst of \<open>n\<close> calls at one instant uses what is left of the budget and no more.\<close>

lemma burst_used:
  assumes "inv now s" "0 < budget s" "int (used s k now) \<le> budget s"
  shows "int (used (((\<lambda>s. snd (allow r s k now)) ^^ n) s) k now) = min (budget s) (int (used s k now) + int n)"
proof (induction n)
  case (Suc n)
  let ?s = "((\<lambda>s. snd (allow r s k now)) ^^ n) s"
  have s: "inv now ?s" "budget ?s = budget s" using funpow_allow [OF assms(1)] by auto
  have "used (snd (allow r ?s k now)) k now
          = used ?s k now + (if int (used ?s k now) < budget s then 1 else 0)"
    using s assms(2) allow_used [of now ?s r k] allow_iff [of now ?s r k] by simp
  with Suc show ?case by simp
qed (use assms in simp)

text \<open>Admit-and-refund can be repeated any number of times without using the budget.\<close>

lemma refund_loop:
  assumes "inv now s" "0 < budget s" "int (used s k now) < budget s"
  shows "used (((\<lambda>s. cancel (snd (allow r s k now)) k) ^^ n) s) k now = used s k now
       \<and> inv now (((\<lambda>s. cancel (snd (allow r s k now)) k) ^^ n) s)
       \<and> budget (((\<lambda>s. cancel (snd (allow r s k now)) k) ^^ n) s) = budget s"
proof (induction n)
  case (Suc n)
  let ?s = "((\<lambda>s. cancel (snd (allow r s k now)) k) ^^ n) s"
  have "fst (allow r ?s k now)" using Suc assms allow_iff [of now ?s r k] by simp
  with Suc assms(2) show ?case
    by (simp add: refund_neutral allow_inv cancel_inv allow_budget cancel_budget)
qed (use assms in simp)

end


lemma sw_inv_wf: "sw_inv s \<Longrightarrow> gomap_wf (sw_seen s)"
  by (simp add: sw_inv_def)

lemma sw_ordered_drop:
  "sw_ordered now s \<Longrightarrow> drop_aged c (samples_of s k) = filter (\<lambda>t. c < t) (samples_of s k)"
  by (simp add: sw_ordered_def drop_aged_sorted)

lemma sorted_filter_le: "sorted ss \<Longrightarrow> sorted (filter P ss)"
  using sorted_filter [of "\<lambda>x. x" ss P] by simp

lemma AllowAt_ordered:
  assumes "sw_ordered t s" "t \<le> now" "gomap_wf (sw_seen s)"
  shows "sw_ordered now (snd (AllowAt r s k now))"
proof (cases "0 < sw_max s")
  case True
  have o: "sorted (samples_of s j)" "\<forall>x\<in>set (samples_of s j). x \<le> now" for j
    using assms by (force simp: sw_ordered_def)+
  have d: "sorted (drop_aged c (samples_of s j))" "\<forall>x\<in>set (drop_aged c (samples_of s j)). x \<le> now" for c j
    using o by (auto simp: drop_aged_sorted sorted_filter_le)
  have "sorted (samples_of (snd (AllowAt r s k now)) j)
      \<and> (\<forall>x\<in>set (samples_of (snd (AllowAt r s k now)) j). x \<le> now)" for j
  proof (cases "j = k")
    case True
    then show ?thesis using d \<open>0 < sw_max s\<close> by (auto simp: samples_of_AllowAt_same sorted_append)
  next
    case False
    then show ?thesis
      using samples_of_AllowAt_other [OF True assms(3), of j k r now] o d by auto
  qed
  then show ?thesis by (simp add: sw_ordered_def)
next
  case False
  then show ?thesis using assms by (force simp: AllowAt_def sw_ordered_def)
qed

lemma CancelLatest_ordered: "sw_ordered t s \<Longrightarrow> sw_ordered t (CancelLatest s k)"
proof (cases "0 < sw_max s")
  case True
  assume "sw_ordered t s"
  then show ?thesis
    using True by (auto simp: sw_ordered_def samples_of_CancelLatest sorted_butlast dest: in_set_butlastD)
qed (simp add: CancelLatest_def)

lemma butlast_filter_sorted:
  "sorted ss \<Longrightarrow> filter (\<lambda>t. c < t) (butlast ss) = butlast (filter (\<lambda>t. c < t) ss)"
proof (cases ss rule: rev_exhaust)
  case (snoc ys y)
  moreover assume "sorted ss"
  ultimately have "\<forall>x\<in>set ys. x \<le> y" by (simp add: sorted_append)
  then have "\<not> c < y \<Longrightarrow> filter (\<lambda>t. c < t) ys = []" by (auto simp: filter_empty_conv)
  with snoc show ?thesis by auto
qed simp

interpretation sw: rate_limiter AllowAt CancelLatest sw_max live_count sw_ready
proof (unfold_locales, goal_cases)
  case (1 now s r k)
  then show ?case by (simp add: AllowAt_decision sw_ready_def live_count_def sw_ordered_drop [of now])
next
  case (2 now s r k)
  then show ?case
    by (simp add: live_count_def samples_of_AllowAt_same sw_ready_def sw_ordered_drop [of now])
next
  case (3 now s k' k r)
  show ?case
  proof (cases "0 < sw_max s")
    case True
    with 3 samples_of_AllowAt_other [OF True, of k' k r now] show ?thesis
      by (auto simp: live_count_def sw_ready_def sw_inv_def sw_ordered_drop [of now])
  qed (simp add: AllowAt_def live_count_def)
next
  case (4 now s r k)
  then show ?case
    using AllowAt_ordered [of now s now r k] by (simp add: sw_ready_def AllowAt_inv sw_inv_wf)
next
  case (6 now s k)
  then show ?case
    by (simp add: live_count_def samples_of_CancelLatest sw_ready_def sw_ordered_def butlast_filter_sorted)
next
  case (7 now s k)
  then show ?case by (simp add: sw_ready_def CancelLatest_inv CancelLatest_ordered)
next
  case (9 t s now)
  then show ?case by (force simp: sw_ready_def sw_ordered_def)
qed simp_all

section \<open>The limiter against the whole history\<close>

lemma filter_tighten:
  "filter (\<lambda>x. t - w < x) a = filter (\<lambda>x. t - w < x) b \<Longrightarrow> t \<le> now \<Longrightarrow>
   filter (\<lambda>x. now - w < x) a = filter (\<lambda>x. now - w < (x::int)) b"
proof -
  assume eq: "filter (\<lambda>x. t - w < x) a = filter (\<lambda>x. t - w < x) b" and "t \<le> now"
  then have "filter (\<lambda>x. now - w < x) c = filter (\<lambda>x. now - w < x) (filter (\<lambda>x. t - w < x) c)" for c
    by (auto intro!: filter_cong)
  with eq show ?thesis by metis
qed

lemma sw_sim_advance:
  assumes "sw_sim K t (s, h)" "t \<le> now"
  shows "sw_sim K now (s, h)"
  using assms filter_tighten [of t "sw_window s" "samples_of s _" "h _" now]
  by (force simp: sw_sim_def sw_ordered_def)

lemma sw_simI_samples:
  assumes "sw_sim K now (s, h)" "sw_inv s'" "fst ` set (sw_seen s') \<subseteq> K"
    "sw_window s' = sw_window s" "sw_max s' = sw_max s"
    "\<And>k. samples_of s' k \<in> {samples_of s k, drop_aged (now - sw_window s) (samples_of s k)}"
  shows "sw_sim K now (s', h)"
proof -
  have o: "sw_ordered now s" using assms(1) by (simp add: sw_sim_def)
  have s': "samples_of s' k = samples_of s k
      \<or> samples_of s' k = filter (\<lambda>x. now - sw_window s < x) (samples_of s k)" for k
    using assms(6) [of k] sw_ordered_drop [OF o] by auto
  have "sorted (samples_of s' k) \<and> (\<forall>x\<in>set (samples_of s' k). x \<le> now)" for k
    using s' [of k] o by (auto simp: sw_ordered_def sorted_filter_le)
  moreover have "filter (\<lambda>x. now - sw_window s < x) (samples_of s' k)
      = filter (\<lambda>x. now - sw_window s < x) (samples_of s k)" for k
    using s' [of k] by auto
  ultimately show ?thesis using assms by (simp add: sw_sim_def sw_ordered_def)
qed

lemma keys_update: "gomap_wf m \<Longrightarrow> fst ` set (AList.update k v m) \<subseteq> insert k (fst ` set m)"
  by (auto simp: set_gomap_update)

lemma keys_delete: "fst ` set (AList.delete k m) \<subseteq> fst ` set m"
  by (auto simp: AList.delete_eq)

text \<open>With room for every key of the run the eviction path is never taken.\<close>

lemma sim_no_pressure:
  assumes "sw_inv s" "fst ` set (sw_seen s) \<subseteq> K" "k \<in> K" "finite K"
    "sw_maxKeys s \<le> 0 \<or> int (card K) \<le> sw_maxKeys s"
  shows "map_of (sw_seen s) k \<noteq> None \<or> sw_maxKeys s \<le> 0 \<or> int (length (sw_seen s)) < sw_maxKeys s"
proof (cases "map_of (sw_seen s) k = None")
  case True
  then have "fst ` set (sw_seen s) \<subseteq> K - {k}" using assms(2) by (auto simp: map_of_eq_None_iff)
  then have "card (fst ` set (sw_seen s)) \<le> card (K - {k})"
    using assms(4) by (intro card_mono) auto
  also have "\<dots> < card K" using assms(3,4) by (meson card_Diff1_less)
  finally have "length (sw_seen s) < card K"
    using assms(1) by (simp add: length_gomap sw_inv_wf dom_map_of_conv_image_fst)
  with assms(5) show ?thesis by auto
qed simp

lemma AllowAt_keys:
  assumes "sw_inv s" "fst ` set (sw_seen s) \<subseteq> K" "k \<in> K"
    "map_of (sw_seen s) k \<noteq> None \<or> sw_maxKeys s \<le> 0 \<or> int (length (sw_seen s)) < sw_maxKeys s"
  shows "fst ` set (sw_seen (snd (AllowAt r s k now))) \<subseteq> K"
proof -
  have "sw_seen (snd (AllowAt r s k now)) = sw_seen s
      \<or> (\<exists>ss. sw_seen (snd (AllowAt r s k now)) = AList.update k ss (sw_seen s))"
    using assms(4) by (auto simp: AllowAt_def Let_def)
  moreover have "fst ` set (AList.update k ss (sw_seen s)) \<subseteq> K" for ss
    using assms(2,3) keys_update [OF sw_inv_wf [OF assms(1)], of k ss] by blast
  ultimately show ?thesis using assms(2) by (elim disjE exE) simp_all
qed

lemma history_window_bound:
  assumes "\<forall>x\<in>set h. x \<le> (now::int)" "int (length (filter (\<lambda>x. now - w < x) h)) < mx"
    "\<And>T. int (length (filter (\<lambda>x. T - w < x \<and> x \<le> T) h)) \<le> mx"
  shows "int (length (filter (\<lambda>x. T - w < x \<and> x \<le> T) (h @ [now]))) \<le> mx"
proof (cases "now \<le> T")
  case True
  have "length (filter (\<lambda>x. T - w < x \<and> x \<le> T) h) \<le> length (filter (\<lambda>x. now - w < x) h)"
    using True by (induction h) auto
  with assms(2) show ?thesis by auto
qed (use assms(3) [of T] in simp)

lemma sw_sim_allow:
  assumes "sw_sim K t (s, h)" "t \<le> now" "k \<in> K" "finite K" "0 < sw_max s"
    "sw_maxKeys s \<le> 0 \<or> int (card K) \<le> sw_maxKeys s"
  shows "(fst (AllowAt r s k now) \<longleftrightarrow> int (length (filter (\<lambda>x. now - sw_window s < x) (h k))) < sw_max s)
       \<and> sw_sim K now (sw_step (s, h) (LAllow k now r))"
proof -
  let ?s' = "snd (AllowAt r s k now)"
  let ?live = "filter (\<lambda>x. now - sw_window s < x)"
  have sim: "sw_sim K now (s, h)" using assms(1,2) by (rule sw_sim_advance)
  have inv: "sw_inv s" and o: "sw_ordered now s" and keys: "fst ` set (sw_seen s) \<subseteq> K"
    and h: "\<And>k. sorted (h k) \<and> (\<forall>x\<in>set (h k). x \<le> now) \<and> ?live (samples_of s k) = ?live (h k)"
    and bound: "\<And>k T. int (length (filter (\<lambda>x. T - sw_window s < x \<and> x \<le> T) (h k))) \<le> sw_max s"
    using sim by (auto simp: sw_sim_def)
  note np = sim_no_pressure [OF inv keys assms(3,4,6)]
  have dec: "fst (AllowAt r s k now) \<longleftrightarrow> int (length (?live (h k))) < sw_max s"
    using assms(5) h [of k] by (simp add: AllowAt_decision sw_ordered_drop [OF o])
  have same: "samples_of ?s' k = ?live (h k) @ (if fst (AllowAt r s k now) then [now] else [])"
    using assms(5) h [of k] by (simp add: samples_of_AllowAt_same sw_ordered_drop [OF o])
  have other: "samples_of ?s' j = samples_of s j" if "j \<noteq> k" for j
    using AllowAt_no_pressure [OF assms(5) that np] .
  let ?h' = "if fst (AllowAt r s k now) then h(k := h k @ [now]) else h"
  have live: "?live (samples_of ?s' j) = ?live (?h' j)" for j
    using same other h by (cases "j = k") auto
  have "sw_sim K now (?s', ?h')"
    unfolding sw_sim_def prod.case AllowAt_frame
  proof (intro conjI allI)
    show "sw_inv ?s'" using inv by (rule AllowAt_inv)
    show "sw_ordered now ?s'" using AllowAt_ordered [OF o order_refl sw_inv_wf [OF inv]] .
    show "fst ` set (sw_seen ?s') \<subseteq> K" using AllowAt_keys [OF inv keys assms(3) np] .
  next
    fix j
    show "sorted (?h' j)" "\<forall>x\<in>set (?h' j). x \<le> now" using h [of j] h [of k] by (auto simp: sorted_append)
    show "?live (samples_of ?s' j) = ?live (?h' j)" by (rule live)
    fix T
    show "int (length (filter (\<lambda>x. T - sw_window s < x \<and> x \<le> T) (?h' j))) \<le> sw_max s"
      using bound history_window_bound [of "h k" now "sw_window s" "sw_max s" T] dec h [of k] by auto
  qed
  with dec show ?thesis by (simp add: case_prod_unfold)
qed

lemma sw_sim_cancel:
  assumes "sw_sim K t (s, h)" "0 < sw_max s"
  shows "sw_sim K t (sw_step (s, h) (LCancel k))"
proof -
  have inv: "sw_inv s" and o: "sw_ordered t s" and keys: "fst ` set (sw_seen s) \<subseteq> K"
    and h: "\<And>k. sorted (h k) \<and> (\<forall>x\<in>set (h k). x \<le> t)"
    and live: "\<And>k. filter (\<lambda>x. t - sw_window s < x) (samples_of s k) = filter (\<lambda>x. t - sw_window s < x) (h k)"
    and bound: "\<And>k T. int (length (filter (\<lambda>x. T - sw_window s < x \<and> x \<le> T) (h k))) \<le> sw_max s"
    using assms(1) by (auto simp: sw_sim_def)
  have "fst ` set (sw_seen (CancelLatest s k)) \<subseteq> K"
  proof -
    have "samples_of s k \<noteq> [] \<Longrightarrow> k \<in> fst ` set (sw_seen s)"
      using map_of_samples [of s k] by (simp add: map_of_eq_None_iff)
    then have u: "samples_of s k \<noteq> [] \<Longrightarrow> fst ` set (AList.update k ss (sw_seen s)) \<subseteq> K" for ss
      using keys keys_update [OF sw_inv_wf [OF inv], of k ss] by blast
    have "fst ` set (AList.delete k (sw_seen s)) \<subseteq> K"
      using keys keys_delete [of k "sw_seen s"] by blast
    with u keys show ?thesis by (simp add: CancelLatest_def Let_def)
  qed
  moreover have "length (filter P (butlast (h k))) \<le> length (filter P (h k))" for P
    by (cases "h k" rule: rev_exhaust) auto
  then have "int (length (filter (\<lambda>x. T - sw_window s < x \<and> x \<le> T) (butlast (h k)))) \<le> sw_max s" for T
    using bound [where T = T and k = k] by (meson of_nat_mono order_trans)
  moreover have "filter (\<lambda>x. t - sw_window s < x) (butlast (samples_of s k))
      = filter (\<lambda>x. t - sw_window s < x) (butlast (h k))"
    using o h live by (simp add: butlast_filter_sorted sw_ordered_def)
  ultimately show ?thesis
    using inv o h live bound assms(2)
    by (auto simp: sw_sim_def CancelLatest_inv CancelLatest_ordered samples_of_CancelLatest
        sorted_butlast dest: in_set_butlastD)
qed

lemma pruneLocked_keys: "fst ` set (sw_seen (pruneLocked s now)) \<subseteq> fst ` set (sw_seen s)"
proof -
  have sub: "fst ` set (filter P (map (\<lambda>(k, v). (k, f v)) m)) \<subseteq> fst ` set m"
    for P and f :: "gotime list \<Rightarrow> gotime list" and m :: "(string, gotime list) gomap"
    by (induction m) auto
  have eq: "sw_seen (pruneLocked s now) = filter (\<lambda>(k, ss). ss \<noteq> [])
      (map (\<lambda>(k, ss). (k, drop_aged (now - sw_window s) ss)) (sw_seen s))"
    by (simp add: pruneLocked_def Let_def)
  show ?thesis unfolding eq by (rule sub)
qed

lemma RetryAfterAt_keys:
  assumes "sw_inv s" "fst ` set (sw_seen s) \<subseteq> K" "k \<in> K"
  shows "fst ` set (sw_seen (snd (RetryAfterAt s k now))) \<subseteq> K"
proof -
  have "fst ` set (AList.update k ss (sw_seen s)) \<subseteq> K" for ss
    using assms(2,3) keys_update [OF sw_inv_wf [OF assms(1)], of k ss] by blast
  with assms(2) show ?thesis by (simp add: RetryAfterAt_def Let_def)
qed

lemma sw_step_frame:
  "sw_max (fst (sw_step (s, h) op)) = sw_max s
   \<and> sw_window (fst (sw_step (s, h) op)) = sw_window s
   \<and> sw_maxKeys (fst (sw_step (s, h) op)) = sw_maxKeys s"
proof (cases op)
  case (LAllow k now r)
  then show ?thesis using AllowAt_frame [of r s k now] by (cases "AllowAt r s k now") simp
qed (simp_all add: PruneAt_def)

lemma sw_sim_step:
  assumes "sw_sim K t (s, h)" "\<forall>now. lop_time op = Some now \<longrightarrow> t \<le> now"
    "\<forall>k. lop_key op = Some k \<longrightarrow> k \<in> K" "finite K" "0 < sw_max s"
    "sw_maxKeys s \<le> 0 \<or> int (card K) \<le> sw_maxKeys s"
  shows "sw_sim K (case lop_time op of None \<Rightarrow> t | Some now \<Rightarrow> now) (sw_step (s, h) op)"
proof (cases op)
  case (LAllow k now r)
  then show ?thesis using sw_sim_allow [OF assms(1), of now k r] assms by simp
next
  case (LCancel k)
  then show ?thesis using sw_sim_cancel [OF assms(1,5)] by simp
next
  case (LPrune now)
  have sim: "sw_sim K now (s, h)" using assms LPrune by (intro sw_sim_advance [OF assms(1)]) auto
  then have "sw_sim K now (pruneLocked s now, h)"
    using pruneLocked_keys [of s now]
    by (intro sw_simI_samples [OF sim])
       (auto simp: sw_sim_def pruneLocked_inv samples_of_prune sw_inv_wf)
  then show ?thesis by (simp add: LPrune PruneAt_def)
next
  case (LRetry k now)
  have sim: "sw_sim K now (s, h)" using assms LRetry by (intro sw_sim_advance [OF assms(1)]) auto
  then have "sw_sim K now (snd (RetryAfterAt s k now), h)"
    using assms(3,5) LRetry
    by (intro sw_simI_samples [OF sim] RetryAfterAt_keys)
       (auto simp: sw_sim_def RetryAfterAt_inv samples_of_RetryAfterAt)
  then show ?thesis by (simp add: LRetry)
qed

lemma lop_times_Cons:
  "lop_times (op # ops) = (case lop_time op of None \<Rightarrow> [] | Some t \<Rightarrow> [t]) @ lop_times ops"
  by (simp add: lop_times_def List.map_filter_simps split: option.splits)

lemma lop_keys_Cons:
  "lop_keys (op # ops) = (case lop_key op of None \<Rightarrow> {} | Some k \<Rightarrow> {k}) \<union> lop_keys ops"
  by (simp add: lop_keys_def List.map_filter_simps split: option.splits)

lemma sw_sim_foldl:
  assumes "sw_sim K t sh" "sorted (t # lop_times ops)" "lop_keys ops \<subseteq> K" "finite K" "0 < sw_max (fst sh)"
    "sw_maxKeys (fst sh) \<le> 0 \<or> int (card K) \<le> sw_maxKeys (fst sh)"
  shows "sw_sim K (last (t # lop_times ops)) (foldl sw_step sh ops)
       \<and> sw_max (fst (foldl sw_step sh ops)) = sw_max (fst sh)
       \<and> sw_window (fst (foldl sw_step sh ops)) = sw_window (fst sh)
       \<and> sw_maxKeys (fst (foldl sw_step sh ops)) = sw_maxKeys (fst sh)"
  using assms
proof (induction ops arbitrary: t sh)
  case Nil
  then show ?case by (simp add: lop_times_def List.map_filter_simps)
next
  case (Cons op ops)
  obtain s h where sh: "sh = (s, h)" by (cases sh)
  let ?t' = "case lop_time op of None \<Rightarrow> t | Some now \<Rightarrow> now"
  have "sw_sim K ?t' (sw_step (s, h) op)"
    using Cons.prems by (intro sw_sim_step) (auto simp: sh lop_times_Cons lop_keys_Cons)
  moreover have "sorted (?t' # lop_times ops)" "lop_keys ops \<subseteq> K"
    using Cons.prems by (auto simp: lop_times_Cons lop_keys_Cons split: option.splits)
  ultimately have "sw_sim K (last (?t' # lop_times ops)) (foldl sw_step (sw_step (s, h) op) ops) \<and>
      sw_max (fst (foldl sw_step (sw_step (s, h) op) ops)) = sw_max s \<and>
      sw_window (fst (foldl sw_step (sw_step (s, h) op) ops)) = sw_window s \<and>
      sw_maxKeys (fst (foldl sw_step (sw_step (s, h) op) ops)) = sw_maxKeys s"
    using Cons.IH [of ?t' "sw_step (s, h) op"] Cons.prems sw_step_frame [of s h op] by (simp add: sh)
  moreover have "last (?t' # lop_times ops) = last (t # lop_times (op # ops))"
    by (auto simp: lop_times_Cons split: option.splits)
  ultimately show ?case by (simp add: sh)
qed

lemma sw_sim_New: "0 < mx \<Longrightarrow> sw_sim K t (SlidingWindow_New mx w, \<lambda>_. [])"
  by (simp add: sw_sim_def SlidingWindow_New_def sw_inv_def sw_ordered_def samples_of_def DefaultMaxKeys_def)

section \<open>Properties\<close>

text \<open>
  C3: the limiter is a sliding window.  Take any run of calls on a fresh limiter (admissions,
  refunds, prunes, retry queries, on any keys, clock readings not going backwards) that involves
  at most \<open>DefaultMaxKeys\<close> distinct keys, and book the admitted, not refunded events.  Then no
  window \<open>(T - window, T]\<close> of any key ever holds more than \<open>max\<close> booked events, and the next
  call on a key is admitted exactly when fewer than \<open>max\<close> of its booked events are in the window
  ending now: the bounded, pruned state decides like the unbounded history.
\<close>

theorem limiter_is_sliding_window:
  assumes "0 < mx" "sorted (lop_times ops @ [now])"
    "int (card (insert k (lop_keys ops))) \<le> DefaultMaxKeys"
    "sw_run (SlidingWindow_New mx w) ops = (s, h)"
  shows "(\<forall>j T. int (length (filter (\<lambda>x. T - w < x \<and> x \<le> T) (h j))) \<le> mx)
       \<and> (fst (AllowAt r s k now) \<longleftrightarrow> int (length (filter (\<lambda>x. now - w < x) (h k))) < mx)"
proof -
  let ?K = "insert k (lop_keys ops)"
  define t where "t = hd (lop_times ops @ [now])"
  have t: "sorted (t # lop_times ops)" "last (t # lop_times ops) \<le> now"
    using assms(2) by (cases "lop_times ops"; auto simp: t_def sorted_append)+
  have fin: "finite ?K" by (simp add: lop_keys_def)
  have "sw_sim ?K (last (t # lop_times ops)) (s, h) \<and> sw_max s = mx \<and> sw_window s = w
      \<and> sw_maxKeys s = DefaultMaxKeys"
    using sw_sim_foldl [OF sw_sim_New [OF assms(1)] t(1) subset_insertI fin, of w] assms
    by (simp add: sw_run_def SlidingWindow_New_def)
  then have sim: "sw_sim ?K (last (t # lop_times ops)) (s, h)" and s: "sw_max s = mx" "sw_window s = w"
    "sw_maxKeys s = DefaultMaxKeys" by auto
  show ?thesis
    using sw_sim_allow [OF sim t(2), of k r] sim fin s assms(1,3) by (auto simp: sw_sim_def)
qed

theorem limiter_is_sliding_window_witness:
  "let ops = [LAllow ''ip'' 0 0, LAllow ''ip'' 10 0, LAllow ''ip'' 20 0, LCancel ''ip''];
       (s, h) = sw_run (SlidingWindow_New 2 100) ops
   in h ''ip'' = [0] \<and> fst (AllowAt 0 s ''ip'' 50) \<and> int (length (filter (\<lambda>x. - 50 < x) (h ''ip''))) < 2"
proof -
  let ?ops = "[LAllow ''ip'' 0 0, LAllow ''ip'' 10 0, LAllow ''ip'' 20 0, LCancel ''ip'']"
  obtain s h where sh: "sw_run (SlidingWindow_New 2 100) ?ops = (s, h)" by fastforce
  have h: "h ''ip'' = [0]"
    using sh by (auto simp: sw_run_def SlidingWindow_New_def AllowAt_def CancelLatest_def samples_of_def
        drop_aged_def DefaultMaxKeys_def)
  have "lop_times ?ops = [0, 10, 20]" "lop_keys ?ops = {''ip''}"
    by (simp_all add: lop_times_def lop_keys_def List.map_filter_simps)
  then have "fst (AllowAt 0 s ''ip'' 50) \<longleftrightarrow> int (length (filter (\<lambda>x. 50 - 100 < x) (h ''ip''))) < 2"
    using limiter_is_sliding_window [OF _ _ _ sh, of 50 "''ip''" 0] by (simp add: DefaultMaxKeys_def)
  with sh h show ?thesis by simp
qed

lemma sw_step_inv: "sw_inv (fst sh) \<Longrightarrow> sw_inv (fst (sw_step sh op))"
proof -
  assume inv: "sw_inv (fst sh)"
  obtain s h where sh: "sh = (s, h)" by (cases sh)
  show ?thesis
  proof (cases op)
    case (LAllow k now r)
    with inv sh show ?thesis
      using AllowAt_inv [of s r k now] by (cases "AllowAt r s k now") simp
  qed (use inv sh in \<open>simp_all add: PruneAt_def pruneLocked_inv CancelLatest_inv RetryAfterAt_inv\<close>)
qed

lemma sw_foldl_inv: "sw_inv (fst sh) \<Longrightarrow> sw_inv (fst (foldl sw_step sh ops))"
  by (induction ops arbitrary: sh) (auto simp: sw_step_inv)

lemma sw_foldl_frame:
  "sw_max (fst (foldl sw_step sh ops)) = sw_max (fst sh)
   \<and> sw_maxKeys (fst (foldl sw_step sh ops)) = sw_maxKeys (fst sh)"
proof (induction ops arbitrary: sh)
  case (Cons op ops)
  then show ?case using sw_step_frame [of "fst sh" "snd sh" op] by simp
qed simp

text \<open>
  Bounded memory.  After any sequence of calls on a fresh limiter, with any keys, any clock
  readings (also ones that go backwards) and any eviction choices, the map holds at most
  \<open>DefaultMaxKeys\<close> keys, no key has more than \<open>max\<close> samples, and the well-formedness invariant
  holds.
\<close>

theorem limiter_bounded:
  "let s = fst (sw_run (SlidingWindow_New mx w) ops)
   in sw_inv s \<and> SlidingWindow_Size s \<le> DefaultMaxKeys
      \<and> (\<forall>k. 0 < mx \<longrightarrow> int (length (samples_of s k)) \<le> mx)"
proof -
  let ?s = "fst (sw_run (SlidingWindow_New mx w) ops)"
  have "sw_inv (fst (SlidingWindow_New mx w, \<lambda>_::string. [] :: gotime list))"
    by (simp add: sw_inv_def SlidingWindow_New_def DefaultMaxKeys_def)
  then have inv: "sw_inv ?s" unfolding sw_run_def by (rule sw_foldl_inv)
  have "sw_max ?s = mx" "sw_maxKeys ?s = DefaultMaxKeys"
    using sw_foldl_frame [of "(SlidingWindow_New mx w, \<lambda>_. [])" ops]
    by (simp_all add: sw_run_def SlidingWindow_New_def)
  with inv samples_of_length [OF inv] show ?thesis
    by (simp add: sw_inv_def SlidingWindow_Size_def DefaultMaxKeys_def Let_def)
qed

theorem limiter_bounded_witness:
  "int (length (samples_of (fst (sw_run (SlidingWindow_New 1 100) [LAllow ''a'' 5 0, LAllow ''a'' 3 0])) ''a'')) \<le> 1"
  using limiter_bounded [of 1 100 "[LAllow ''a'' 5 0, LAllow ''a'' 3 0]"] by (simp add: Let_def)

lemma drop_aged_shorter:
  "ss \<noteq> [] \<Longrightarrow> length (drop_aged c ss) < length ss \<longleftrightarrow> hd ss \<le> c"
  using drop_aged_length [of c "tl ss"]
  by (cases ss) (auto simp: drop_aged_def)

text \<open>The state a refusal and the following retry query leave behind, and the hint they compute.\<close>

lemma denied_samples:
  assumes "sw_ready now s" "0 < sw_max s" "\<not> fst (AllowAt r s k now)"
  defines "s1 \<equiv> snd (AllowAt r s k now)"
  defines "s2 \<equiv> snd (RetryAfterAt s1 k now)"
  shows "samples_of s2 k = samples_of s1 k \<and> int (length (samples_of s1 k)) = sw_max s
       \<and> (\<forall>x\<in>set (samples_of s1 k). now - sw_window s < x \<and> x \<le> now)
       \<and> fst (RetryAfterAt s1 k now)
           = (let d = time_Sub (hd (samples_of s1 k) + sw_window s) now in if d < 0 then 0 else d)"
proof -
  let ?c = "now - sw_window s"
  have o: "sw_ordered now s" and inv: "sw_inv s" using assms(1) by (simp_all add: sw_ready_def)
  have ss: "samples_of s1 k = filter (\<lambda>t. ?c < t) (samples_of s k)"
    using assms by (simp add: s1_def samples_of_AllowAt_same sw_ordered_drop [OF o])
  then have again: "drop_aged ?c (samples_of s1 k) = samples_of s1 k"
    using o by (simp add: drop_aged_sorted sorted_filter_le sw_ordered_def)
  have "\<not> int (length (samples_of s1 k)) < sw_max s"
    using assms(2,3) by (simp add: AllowAt_decision ss sw_ordered_drop [OF o])
  moreover have "int (length (samples_of s1 k)) \<le> sw_max s"
    using samples_of_length [OF AllowAt_inv [OF inv, of r k now], of k] assms(2) by (simp add: s1_def)
  ultimately have len: "int (length (samples_of s1 k)) = sw_max s" by simp
  have fr: "sw_max s1 = sw_max s" "sw_window s1 = sw_window s" by (simp_all add: s1_def)
  show ?thesis
  proof (intro conjI)
    show "samples_of s2 k = samples_of s1 k"
      using assms(2) again by (simp add: s2_def samples_of_RetryAfterAt fr)
    show "\<forall>x\<in>set (samples_of s1 k). now - sw_window s < x \<and> x \<le> now"
      using ss o by (auto simp: sw_ordered_def)
    show "fst (RetryAfterAt s1 k now)
        = (let d = time_Sub (hd (samples_of s1 k) + sw_window s) now in if d < 0 then 0 else d)"
      using assms(2) len again by (simp add: RetryAfterAt_def fr Let_def)
  qed (rule len)
qed

text \<open>
  The retry hint is exact.  When a call is refused, \<open>RetryAfter\<close> returns a positive delay of
  at most the window; if no other event of the key is recorded meanwhile, every call before that
  delay has passed is refused again and every call from then on is admitted.  In particular the
  whole-second hint the server sends, \<open>int(d.Seconds()) + 1\<close>, is long enough.
\<close>

theorem retry_after_exact:
  assumes "sw_ready now s" "0 < sw_max s" "sw_window s \<le> maxDuration"
    "AllowAt r s k now = (False, s1)" "RetryAfterAt s1 k now = (d, s2)" "now \<le> t"
  shows "0 < d \<and> d \<le> sw_window s \<and> (fst (AllowAt r' s2 k t) \<longleftrightarrow> now + d \<le> t)
       \<and> fst (AllowAt r' s2 k (now + (Duration_Seconds d + 1) * Second))"
proof -
  let ?ss = "samples_of s1 k"
  have s1: "s1 = snd (AllowAt r s k now)" and s2: "s2 = snd (RetryAfterAt s1 k now)"
    using assms(4,5) by simp_all
  have D: "samples_of s2 k = ?ss" "int (length ?ss) = sw_max s"
    "\<forall>x\<in>set ?ss. now - sw_window s < x \<and> x \<le> now"
    "d = (let d = time_Sub (hd ?ss + sw_window s) now in if d < 0 then 0 else d)"
    using denied_samples [OF assms(1,2), of r k] unfolding assms(4,5) fst_conv snd_conv by blast+
  have ne: "?ss \<noteq> []" using D(2) assms(2) by auto
  then have h: "now - sw_window s < hd ?ss" "hd ?ss \<le> now" using D(3) by auto
  have d: "d = hd ?ss + sw_window s - now"
    using D(4) h assms(3) by (simp add: time_Sub_def minDuration_def maxDuration_def)
  have fr: "sw_max s2 = sw_max s" "sw_window s2 = sw_window s" unfolding s2 s1 by simp_all
  have admit: "fst (AllowAt r' s2 k u) \<longleftrightarrow> now + d \<le> u" for u
  proof -
    have "fst (AllowAt r' s2 k u) \<longleftrightarrow> length (drop_aged (u - sw_window s) ?ss) < length ?ss"
      using D(1,2) assms(2) by (simp add: AllowAt_decision fr) linarith
    also have "\<dots> \<longleftrightarrow> hd ?ss \<le> u - sw_window s" by (rule drop_aged_shorter [OF ne])
    finally show ?thesis using d by auto
  qed
  have "0 < d" "d \<le> sw_window s" using d h by linarith+
  moreover have "now + d \<le> now + (Duration_Seconds d + 1) * Second"
    using less_imp_le [OF Duration_Seconds_less] by (rule add_left_mono)
  ultimately show ?thesis using admit by blast
qed

theorem retry_after_exact_witness:
  "let s = fst (sw_run (SlidingWindow_New 1 Hour) [LAllow ''ip'' 0 0]);
       (ok, s1) = AllowAt 0 s ''ip'' Minute; (d, s2) = RetryAfterAt s1 ''ip'' Minute
   in \<not> ok \<and> d = Hour - Minute \<and> \<not> fst (AllowAt 0 s2 ''ip'' (Hour - 1)) \<and> fst (AllowAt 0 s2 ''ip'' Hour)"
proof -
  define s where "s = fst (sw_run (SlidingWindow_New 1 Hour) [LAllow ''ip'' 0 0])"
  have s: "s = \<lparr>sw_max = 1, sw_window = Hour, sw_maxKeys = 100000, sw_seen = [(''ip'', [0])]\<rparr>"
    by (simp add: s_def sw_run_def SlidingWindow_New_def AllowAt_def samples_of_def drop_aged_def DefaultMaxKeys_def)
  have ready: "sw_ready Minute s"
    by (simp add: s sw_ready_def sw_inv_def sw_ordered_def samples_of_def gomap_wf_def)
  have a: "AllowAt 0 s ''ip'' Minute = (False, s)"
    by (simp add: s AllowAt_def samples_of_def drop_aged_def)
  have r: "RetryAfterAt s ''ip'' Minute = (Hour - Minute, s)"
    by (simp add: s RetryAfterAt_def samples_of_def drop_aged_def time_Sub_def minDuration_def maxDuration_def)
  note ex = retry_after_exact [OF ready _ _ a r]
  have "\<not> fst (AllowAt 0 s ''ip'' (Hour - 1))" "fst (AllowAt 0 s ''ip'' Hour)"
    using ex [of "Hour - 1" 0] ex [of Hour 0] by (simp_all add: s maxDuration_def)
  with a r show ?thesis unfolding s_def [symmetric] by simp
qed

end
