(* ===== verification/Go_Encoding.thy ===== *)
theory Go_Encoding
  imports Prelude
begin

text \<open>
  Packages \<open>encoding/binary\<close> (big-endian fixed-width integers), \<open>encoding/base64\<close> (the encoding
  \<open>RawStdEncoding\<close>: standard alphabet, no padding) and \<open>encoding/hex\<close>, as far as the sources use
  them.
\<close>

section \<open>Big-endian integers\<close>

text \<open>The \<open>k\<close> low-order bytes of \<open>n\<close>, most significant first, and back.\<close>

fun be_bytes :: "nat \<Rightarrow> nat \<Rightarrow> bytes" where
  "be_bytes 0 n = []"
| "be_bytes (Suc k) n = be_bytes k (n div 256) @ [char_of (n mod 256)]"

definition be_val :: "bytes \<Rightarrow> nat" where
  "be_val = foldl (\<lambda>a c. 256 * a + of_char c) 0"

definition PutUint32 :: "nat \<Rightarrow> bytes" where
  "PutUint32 n = be_bytes 4 (n mod 2 ^ 32)"

definition Uint32 :: "bytes \<Rightarrow> nat" where
  "Uint32 b = be_val (take 4 b)"

text \<open>\<open>PutUint64(b, uint64(ts))\<close> for a signed \<open>ts\<close>: the conversion is modulo \<open>2^64\<close>.\<close>

definition PutUint64 :: "int \<Rightarrow> bytes" where
  "PutUint64 ts = be_bytes 8 (nat (ts mod 2 ^ 64))"

section \<open>Base64\<close>

definition b64_alphabet :: string where
  "b64_alphabet = ''ABCDEFGHIJKLMNOPQRSTUVWXYZabcdefghijklmnopqrstuvwxyz0123456789+/''"

definition b64_char :: "nat \<Rightarrow> char" where
  "b64_char i = b64_alphabet ! i"

definition b64_digit :: "char \<Rightarrow> nat option" where
  "b64_digit c = IndexByte b64_alphabet c"

fun EncodeToString :: "bytes \<Rightarrow> string" where
  "EncodeToString (a # b # c # rest) =
     (let n = 65536 * of_char a + 256 * of_char b + of_char c :: nat
      in b64_char (n div 262144) # b64_char (n div 4096 mod 64) # b64_char (n div 64 mod 64)
         # b64_char (n mod 64) # EncodeToString rest)"
| "EncodeToString [a, b] =
     (let n = 65536 * of_char a + 256 * of_char b :: nat
      in [b64_char (n div 262144), b64_char (n div 4096 mod 64), b64_char (n div 64 mod 64)])"
| "EncodeToString [a] =
     (let n = 65536 * of_char a :: nat
      in [b64_char (n div 262144), b64_char (n div 4096 mod 64)])"
| "EncodeToString [] = []"

text \<open>
  Decoding: carriage returns and newlines are skipped, every other character has to be in the
  alphabet, and a last group of one character is an error.  Unused low bits of a last group are
  not checked (the encoding is not \<open>Strict\<close>).
\<close>

fun b64_values :: "string \<Rightarrow> nat list option" where
  "b64_values [] = Some []"
| "b64_values (c # cs) =
     (if c = CHR 0x0A \<or> c = CHR 0x0D then b64_values cs
      else (case b64_digit c of
              None \<Rightarrow> None
            | Some v \<Rightarrow> map_option ((#) v) (b64_values cs)))"

fun b64_groups :: "nat list \<Rightarrow> bytes option" where
  "b64_groups (p # q # r # s # rest) =
     (let n = 262144 * p + 4096 * q + 64 * r + s
      in map_option (\<lambda>bs. char_of (n div 65536) # char_of (n div 256 mod 256) # char_of (n mod 256) # bs)
           (b64_groups rest))"
| "b64_groups [p, q, r] =
     (let n = 262144 * p + 4096 * q + 64 * r
      in Some [char_of (n div 65536), char_of (n div 256 mod 256)])"
| "b64_groups [p, q] =
     (let n = 262144 * p + 4096 * q in Some [char_of (n div 65536)])"
| "b64_groups [p] = None"
| "b64_groups [] = Some []"

definition DecodeString :: "string \<Rightarrow> bytes option" where
  "DecodeString s = Option.bind (b64_values s) b64_groups"

section \<open>Hexadecimal\<close>

definition hex_char :: "nat \<Rightarrow> char" where
  "hex_char d = ''0123456789abcdef'' ! d"

definition hex_EncodeToString :: "bytes \<Rightarrow> string" where
  "hex_EncodeToString b = concat (map (\<lambda>c. [hex_char (of_char c div 16), hex_char (of_char c mod 16)]) b)"

section \<open>Lemmas\<close>

lemma of_char_less [simp]: "(of_char c :: nat) < 256"
  using range_nat_of_char by auto

lemma length_be_bytes [simp]: "length (be_bytes k n) = k"
  by (induction k arbitrary: n) auto

lemma be_val_snoc: "be_val (xs @ [c]) = 256 * be_val xs + of_char c"
  by (simp add: be_val_def)

lemma be_val_be_bytes: "be_val (be_bytes k n) = n mod 256 ^ k"
proof (induction k arbitrary: n)
  case 0
  then show ?case by (simp add: be_val_def)
next
  case (Suc k)
  have "be_val (be_bytes (Suc k) n) = 256 * (n div 256 mod 256 ^ k) + n mod 256"
    by (simp add: be_val_snoc Suc)
  also have "\<dots> = n mod (256 * 256 ^ k)"
    by (simp add: mod_mult2_eq)
  finally show ?case by simp
qed

lemma be_bytes_inj: "\<lbrakk>be_bytes k m = be_bytes k n; m < 256 ^ k; n < 256 ^ k\<rbrakk> \<Longrightarrow> m = n"
  using arg_cong [of _ _ be_val] by (metis be_val_be_bytes mod_less)

lemma length_PutUint64 [simp]: "length (PutUint64 ts) = 8"
  by (simp add: PutUint64_def)

lemma length_PutUint32 [simp]: "length (PutUint32 n) = 4"
  by (simp add: PutUint32_def)

lemma Uint32_PutUint32: "n < 2 ^ 32 \<Longrightarrow> Uint32 (PutUint32 n @ rest) = n"
  using be_val_be_bytes [of 4 n] by (simp add: Uint32_def PutUint32_def)

lemma PutUint64_inj:
  assumes "PutUint64 s = PutUint64 t" "- (2 ^ 63) \<le> s" "s < 2 ^ 63" "- (2 ^ 63) \<le> t" "t < 2 ^ 63"
  shows "s = t"
proof -
  have b: "nat (x mod 2 ^ 64) < 256 ^ 8" for x :: int by (simp add: nat_less_iff)
  have "nat (s mod 2 ^ 64) = nat (t mod 2 ^ 64)"
    using assms(1) unfolding PutUint64_def by (rule be_bytes_inj [OF _ b b])
  then have "s mod 2 ^ 64 = t mod 2 ^ 64" by simp
  then have "(s + 2 ^ 63) mod 2 ^ 64 = (t + 2 ^ 63) mod 2 ^ 64" by (rule mod_add_cong) simp
  with assms show ?thesis by simp
qed

lemma b64_digit_char: "i < 64 \<Longrightarrow> b64_digit (b64_char i) = Some i \<and> b64_char i \<notin> {CHR 0x0A, CHR 0x0D}"
proof -
  have "list_all (\<lambda>i. b64_digit (b64_char i) = Some i \<and> b64_char i \<noteq> CHR 0x0A \<and> b64_char i \<noteq> CHR 0x0D) [0..<64]"
    by code_simp
  moreover assume "i < 64"
  ultimately show ?thesis by (simp add: list_all_iff)
qed

lemma b64_values_char: "i < 64 \<Longrightarrow> b64_values (b64_char i # cs) = map_option ((#) i) (b64_values cs)"
  using b64_digit_char [of i] by simp

lemma b64_join:
  "262144 * (n div 262144) + 4096 * (n div 4096 mod 64) + 64 * (n div 64 mod 64) + n mod 64 = (n :: nat)"
proof -
  have "64 * (n div 64) + n mod 64 = n" by simp
  moreover have "64 * (n div 4096) + n div 64 mod 64 = n div 64"
    using mult_div_mod_eq [of 64 "n div 64"] by (simp add: div_mult2_eq [symmetric])
  moreover have "64 * (n div 262144) + n div 4096 mod 64 = n div 4096"
    using mult_div_mod_eq [of 64 "n div 4096"] by (simp add: div_mult2_eq [symmetric])
  ultimately show ?thesis by linarith
qed

lemma b64_bytes:
  assumes "b < 256" "c < 256" "n = 65536 * a + 256 * b + c"
  shows "n div 65536 = (a :: nat)" "n div 256 mod 256 = b" "n mod 256 = c"
proof -
  have n: "n = c + 256 * (256 * a + b)" using assms(3) by simp
  have q: "n div 256 = 256 * a + b" unfolding n using assms by simp
  then have "n div 256 div 256 = a" using assms by simp
  then show "n div 65536 = a" by (simp add: div_mult2_eq [symmetric])
  show "n div 256 mod 256 = b" unfolding q using assms by simp
  show "n mod 256 = c" using assms(2) unfolding n by (metis mod_less mod_mult_self2)
qed

lemma b64_chars:
  assumes "n = 65536 * of_char a + 256 * of_char b + of_char c"
  shows "char_of (n div 65536) = a" "char_of (n div 256 mod 256) = b" "char_of (n mod 256 :: nat) = c"
  unfolding b64_bytes [OF of_char_less of_char_less assms] by simp_all

lemma b64_top: "\<lbrakk>a < 256; b < 256; c < 256; n = 65536 * a + 256 * b + c\<rbrakk> \<Longrightarrow> n div 262144 < (64 :: nat)"
  by (simp add: div_less_iff_less_mult)

lemma b64_values_append:
  "\<lbrakk>list_all (\<lambda>i. i < 64) vs\<rbrakk> \<Longrightarrow> b64_values (map b64_char vs @ cs) = map_option ((@) vs) (b64_values cs)"
  by (induction vs; cases "b64_values cs") (auto simp: b64_values_char simp del: b64_values.simps(2))

lemma DecodeString_EncodeToString [simp]: "DecodeString (EncodeToString b) = Some b"
proof (induction b rule: EncodeToString.induct)
  case (1 a b c rest)
  define n :: nat where "n = 65536 * of_char a + 256 * of_char b + of_char c"
  let ?vs = "[n div 262144, n div 4096 mod 64, n div 64 mod 64, n mod 64]"
  have enc: "EncodeToString (a # b # c # rest) = map b64_char ?vs @ EncodeToString rest"
    by (simp add: n_def Let_def)
  have "list_all (\<lambda>i. i < 64) ?vs" using b64_top [OF _ _ _ n_def] by simp
  moreover obtain ws where "b64_values (EncodeToString rest) = Some ws" "b64_groups ws = Some rest"
    using 1 by (auto simp: DecodeString_def bind_eq_Some_conv)
  ultimately show ?case
    unfolding enc using b64_join [of n] b64_chars [OF n_def]
    by (simp add: DecodeString_def b64_values_append del: list.map append.simps(2)) (simp add: Let_def)
next
  case (2 a b)
  define n :: nat where "n = 65536 * of_char a + 256 * of_char b"
  let ?vs = "[n div 262144, n div 4096 mod 64, n div 64 mod 64]"
  have enc: "EncodeToString [a, b] = map b64_char ?vs @ []" by (simp add: n_def Let_def)
  have n0: "n = 65536 * of_char a + 256 * of_char b + of_char (CHR 0x00)" by (simp add: n_def)
  have "n mod 64 = 0" unfolding n_def by (simp add: mod_eq_0_iff_dvd)
  moreover have "list_all (\<lambda>i. i < 64) ?vs" using b64_top [OF _ _ _ n0] by simp
  ultimately show ?case
    unfolding enc using b64_join [of n] b64_chars [OF n0]
    by (simp add: DecodeString_def b64_values_append del: list.map append.simps(2) append_Nil2) (simp add: Let_def)
next
  case (3 a)
  define n :: nat where "n = 65536 * of_char a"
  let ?vs = "[n div 262144, n div 4096 mod 64]"
  have enc: "EncodeToString [a] = map b64_char ?vs @ []" by (simp add: n_def Let_def)
  have n0: "n = 65536 * of_char a + 256 * of_char (CHR 0x00) + of_char (CHR 0x00)" by (simp add: n_def)
  have "n div 64 = 1024 * of_char a" unfolding n_def by simp
  then have "n mod 64 = 0" "n div 64 mod 64 = 0" unfolding n_def by (simp_all add: mod_eq_0_iff_dvd)
  moreover have "list_all (\<lambda>i. i < 64) ?vs" using b64_top [OF _ _ _ n0] by simp
  ultimately show ?case
    unfolding enc using b64_join [of n] b64_chars [OF n0]
    by (simp add: DecodeString_def b64_values_append del: list.map append.simps(2) append_Nil2) (simp add: Let_def)
qed (simp add: DecodeString_def)

lemma EncodeToString_chars: "set (EncodeToString b) \<subseteq> set b64_alphabet"
proof -
  have c: "i < 64 \<Longrightarrow> b64_char i \<in> set b64_alphabet" for i
    unfolding b64_char_def by (rule nth_mem) (simp add: b64_alphabet_def)
  show ?thesis
  proof (induction b rule: EncodeToString.induct)
    case (1 a b c' rest)
    define n :: nat where "n = 65536 * of_char a + 256 * of_char b + of_char c'"
    have "EncodeToString (a # b # c' # rest) = b64_char (n div 262144) # b64_char (n div 4096 mod 64)
        # b64_char (n div 64 mod 64) # b64_char (n mod 64) # EncodeToString rest" by (simp add: n_def Let_def)
    with 1 show ?case using b64_top [OF of_char_less of_char_less of_char_less n_def] by (simp add: c)
  next
    case (2 a b)
    define n :: nat where "n = 65536 * of_char a + 256 * of_char b"
    have n0: "n = 65536 * of_char a + 256 * of_char b + of_char (CHR 0x00)" by (simp add: n_def)
    have "EncodeToString [a, b] = [b64_char (n div 262144), b64_char (n div 4096 mod 64), b64_char (n div 64 mod 64)]"
      by (simp add: n_def Let_def)
    then show ?case using b64_top [OF of_char_less of_char_less of_char_less n0] by (simp add: c)
  next
    case (3 a)
    define n :: nat where "n = 65536 * of_char a"
    have n0: "n = 65536 * of_char a + 256 * of_char (CHR 0x00) + of_char (CHR 0x00)" by (simp add: n_def)
    have "EncodeToString [a] = [b64_char (n div 262144), b64_char (n div 4096 mod 64)]" by (simp add: n_def Let_def)
    then show ?case using b64_top [OF of_char_less of_char_less of_char_less n0] by (simp add: c)
  qed simp
qed

lemma EncodeToString_graph: "list_all (\<lambda>c. graph_char c \<and> c \<noteq> CHR ''#'' \<and> c \<noteq> CHR 0x0A) (EncodeToString b)"
proof -
  have "list_all (\<lambda>c. graph_char c \<and> c \<noteq> CHR ''#'' \<and> c \<noteq> CHR 0x0A) b64_alphabet"
    by (simp add: b64_alphabet_def graph_char_def)
  then show ?thesis using EncodeToString_chars by (auto simp: list_all_iff)
qed

lemma EncodeToString_nonempty: "b \<noteq> [] \<Longrightarrow> EncodeToString b \<noteq> []"
  by (cases b rule: EncodeToString.cases) (auto simp: Let_def)

lemma length_EncodeToString: "length (EncodeToString b) \<le> 2 * length b"
  by (induction b rule: EncodeToString.induct) (auto simp: Let_def)

end
