(* ===== verification/Go_JSON.thy ===== *)
theory Go_JSON
  imports Go_Encoding
begin

text \<open>
  Package \<open>encoding/json\<close> for the flat structs of the control protocol.

  Encoding (\<open>json.Marshal\<close>): \<open>json_string\<close> with Go's HTML-safe escaping, \<open>json_object\<close>, and
  \<open>json_compact\<close> for an embedded \<open>json.RawMessage\<close>.  Decoding (\<open>json.Unmarshal\<close>): \<open>json_parse\<close>
  reads one value with the full JSON grammar (any nesting up to Go's limit) and returns its
  shape; for an object the members keep the raw text of their values, which is what a
  \<open>RawMessage\<close> field receives and what a scalar field is decoded from.  \<open>json_Unmarshal\<close> then
  fills a struct the way Go does: unknown members are ignored, names match exactly or up to
  case, later duplicates win, \<open>null\<close> leaves a field alone and a value of the wrong kind is an
  error.
\<close>

section \<open>UTF-8\<close>

definition utf8_cont :: "char \<Rightarrow> bool" where
  "utf8_cont c \<longleftrightarrow> 128 \<le> (of_char c :: nat) \<and> (of_char c :: nat) < 192"

text \<open>
  The length of the well-formed UTF-8 sequence at the start of the text, \<open>0\<close> when there is none
  (\<open>utf8.DecodeRune\<close> then returns \<open>RuneError\<close> and consumes one byte).
\<close>

definition utf8_second_ok :: "nat \<Rightarrow> nat \<Rightarrow> bool" where
  "utf8_second_ok x y \<longleftrightarrow>
     (if x = 0xE0 then 0xA0 else if x = 0xF0 then 0x90 else 0x80) \<le> y
     \<and> y \<le> (if x = 0xED then 0x9F else if x = 0xF4 then 0x8F else 0xBF)"

definition utf8_len :: "string \<Rightarrow> nat" where
  "utf8_len s = (case s of [] \<Rightarrow> 0 | c # t \<Rightarrow>
     (let x = of_char c :: nat in
      if x < 128 then 1
      else if 0xC2 \<le> x \<and> x \<le> 0xDF then
        (case t of c1 # _ \<Rightarrow> if utf8_cont c1 then 2 else 0 | _ \<Rightarrow> 0)
      else if 0xE0 \<le> x \<and> x \<le> 0xEF then
        (case t of c1 # c2 # _ \<Rightarrow>
           if utf8_second_ok x (of_char c1) \<and> utf8_cont c2 then 3 else 0 | _ \<Rightarrow> 0)
      else if 0xF0 \<le> x \<and> x \<le> 0xF4 then
        (case t of c1 # c2 # c3 # _ \<Rightarrow>
           if utf8_second_ok x (of_char c1) \<and> utf8_cont c2 \<and> utf8_cont c3 then 4 else 0 | _ \<Rightarrow> 0)
      else 0))"

text \<open>The encoding of U+FFFD, which replaces every byte that is not part of a valid sequence.\<close>

definition replacement :: string where
  "replacement = [CHR 0xEF, CHR 0xBF, CHR 0xBD]"

function ToValidUTF8 :: "string \<Rightarrow> string" where
  "ToValidUTF8 s =
     (if s = [] then []
      else if utf8_len s = 0 then replacement @ ToValidUTF8 (drop 1 s)
      else take (utf8_len s) s @ ToValidUTF8 (drop (utf8_len s) s))"
  by pat_completeness auto
termination
  by (relation "measure length") auto

declare ToValidUTF8.simps [simp del]

text \<open>\<open>utf8.AppendRune\<close>; surrogates and values above U+10FFFF are encoded as U+FFFD.\<close>

definition encode_rune :: "nat \<Rightarrow> string" where
  "encode_rune r =
     (if r < 0x80 then [char_of r]
      else if r < 0x800 then [char_of (0xC0 + r div 64), char_of (0x80 + r mod 64)]
      else if (0xD800 \<le> r \<and> r \<le> 0xDFFF) \<or> 0x10FFFF < r then replacement
      else if r < 0x10000 then
        [char_of (0xE0 + r div 4096), char_of (0x80 + r div 64 mod 64), char_of (0x80 + r mod 64)]
      else
        [char_of (0xF0 + r div 262144), char_of (0x80 + r div 4096 mod 64),
         char_of (0x80 + r div 64 mod 64), char_of (0x80 + r mod 64)])"

section \<open>Encoding\<close>

text \<open>A byte below 0x80 (\<open>appendString\<close> with \<open>escapeHTML\<close>).\<close>

definition json_ascii :: "char \<Rightarrow> string" where
  "json_ascii c =
     (let n = of_char c :: nat in
      if c = CHR 0x5C \<or> c = CHR 0x22 then [CHR 0x5C, c]
      else if n = 8 then [CHR 0x5C, CHR ''b'']
      else if n = 12 then [CHR 0x5C, CHR ''f'']
      else if n = 10 then [CHR 0x5C, CHR ''n'']
      else if n = 13 then [CHR 0x5C, CHR ''r'']
      else if n = 9 then [CHR 0x5C, CHR ''t'']
      else if n < 32 \<or> c = CHR ''<'' \<or> c = CHR ''>'' \<or> c = CHR ''&''
        then [CHR 0x5C, CHR ''u'', CHR ''0'', CHR ''0'', hex_char (n div 16), hex_char (n mod 16)]
      else [c])"

text \<open>U+2028 and U+2029 are escaped as well.\<close>

definition line_sep :: "string \<Rightarrow> bool" where
  "line_sep s \<longleftrightarrow> HasPrefix s [CHR 0xE2, CHR 0x80, CHR 0xA8] \<or> HasPrefix s [CHR 0xE2, CHR 0x80, CHR 0xA9]"

definition json_line_sep :: "string \<Rightarrow> string" where
  "json_line_sep s =
     [CHR 0x5C, CHR ''u'', CHR ''2'', CHR ''0'', CHR ''2'',
      (if HasPrefix s [CHR 0xE2, CHR 0x80, CHR 0xA8] then CHR ''8'' else CHR ''9'')]"

function json_esc :: "string \<Rightarrow> string" where
  "json_esc s =
     (case s of
        [] \<Rightarrow> []
      | c # cs \<Rightarrow>
          if (of_char c :: nat) < 128 then json_ascii c @ json_esc cs
          else if utf8_len s = 0 then [CHR 0x5C, CHR ''u'', CHR ''f'', CHR ''f'', CHR ''f'', CHR ''d''] @ json_esc cs
          else if line_sep s then json_line_sep s @ json_esc (drop 3 s)
          else take (utf8_len s) s @ json_esc (drop (utf8_len s) s))"
  by pat_completeness auto
termination
  by (relation "measure length") auto

declare json_esc.simps [simp del]

definition json_string :: "string \<Rightarrow> string" where
  "json_string s = [CHR 0x22] @ json_esc s @ [CHR 0x22]"

text \<open>An object from its encoded members, in the order of the struct's fields.\<close>

definition json_member :: "string \<times> string \<Rightarrow> string" where
  "json_member m = json_string (fst m) @ '':'' @ snd m"

definition json_object :: "(string \<times> string) list \<Rightarrow> string" where
  "json_object ms = ''{'' @ Join (map json_member ms) '','' @ ''}''"

section \<open>Decoding\<close>

definition json_space :: "char \<Rightarrow> bool" where
  "json_space c \<longleftrightarrow> c = CHR 0x20 \<or> c = CHR 0x09 \<or> c = CHR 0x0A \<or> c = CHR 0x0D"

abbreviation skip_ws :: "string \<Rightarrow> string" where
  "skip_ws \<equiv> dropWhile json_space"

definition hex_val :: "char \<Rightarrow> nat option" where
  "hex_val c =
     (let n = of_char c :: nat in
      if 48 \<le> n \<and> n \<le> 57 then Some (n - 48)
      else if 97 \<le> n \<and> n \<le> 102 then Some (n - 87)
      else if 65 \<le> n \<and> n \<le> 70 then Some (n - 55)
      else None)"

text \<open>The four hexadecimal digits after \<open>\u\<close>.\<close>

definition hex4 :: "string \<Rightarrow> (nat \<times> string) option" where
  "hex4 s = (case s of
       a # b # c # d # r \<Rightarrow>
         (case (hex_val a, hex_val b, hex_val c, hex_val d) of
            (Some p, Some q, Some t, Some u) \<Rightarrow> Some (4096 * p + 256 * q + 16 * t + u, r)
          | _ \<Rightarrow> None)
     | _ \<Rightarrow> None)"

text \<open>
  A \<open>\u\<close> escape: a surrogate pair gives one rune, a lone surrogate U+FFFD (the second escape is
  then read on its own).
\<close>

definition json_u :: "string \<Rightarrow> (string \<times> string) option" where
  "json_u s = (case hex4 s of
       None \<Rightarrow> None
     | Some (x, r) \<Rightarrow>
         if 0xD800 \<le> x \<and> x \<le> 0xDBFF \<and> HasPrefix r [CHR 0x5C, CHR ''u''] then
           (case hex4 (drop 2 r) of
              Some (y, r') \<Rightarrow>
                if 0xDC00 \<le> y \<and> y \<le> 0xDFFF
                then Some (encode_rune (0x10000 + 1024 * (x - 0xD800) + (y - 0xDC00)), r')
                else Some (replacement, r)
            | None \<Rightarrow> Some (replacement, r))
         else Some (encode_rune x, r))"

text \<open>What follows a backslash: the decoded bytes and the rest.\<close>

definition json_unescape :: "string \<Rightarrow> (string \<times> string) option" where
  "json_unescape s = (case s of
       [] \<Rightarrow> None
     | c # r \<Rightarrow>
         if c = CHR 0x22 \<or> c = CHR 0x5C \<or> c = CHR ''/'' then Some ([c], r)
         else if c = CHR ''b'' then Some ([CHR 0x08], r)
         else if c = CHR ''f'' then Some ([CHR 0x0C], r)
         else if c = CHR ''n'' then Some ([CHR 0x0A], r)
         else if c = CHR ''r'' then Some ([CHR 0x0D], r)
         else if c = CHR ''t'' then Some ([CHR 0x09], r)
         else if c = CHR ''u'' then json_u r
         else None)"

lemma hex4_shorter: "hex4 s = Some (x, r) \<Longrightarrow> length r < length s"
  by (auto simp: hex4_def split: list.splits option.splits)

lemma json_u_shorter: "json_u s = Some (x, r) \<Longrightarrow> length r < length s"
proof (cases "hex4 s")
  case (Some p)
  obtain n t where p: "p = (n, t)" by (cases p)
  assume u: "json_u s = Some (x, r)"
  have t: "length t < length s" using Some p hex4_shorter by simp
  show ?thesis
  proof (cases "hex4 (drop 2 t)")
    case None
    with Some p u t show ?thesis by (auto simp: json_u_def split: if_splits)
  next
    case (Some q)
    then have "length (snd q) < length t"
      using hex4_shorter [of "drop 2 t" "fst q" "snd q"] by simp
    with Some \<open>hex4 s = Some p\<close> p u t show ?thesis
      by (cases q) (auto simp: json_u_def split: if_splits)
  qed
qed (simp add: json_u_def)

lemma json_unescape_shorter: "json_unescape s = Some (x, r) \<Longrightarrow> length r < length s"
  by (auto simp: json_unescape_def dest: json_u_shorter split: list.splits if_splits)

text \<open>The rest of a string literal after its opening quote: its value and the text behind it.\<close>

definition json_prepend :: "string \<Rightarrow> (string \<times> string) option \<Rightarrow> (string \<times> string) option" where
  "json_prepend p = map_option (\<lambda>(s, r). (p @ s, r))"

function json_read_string :: "string \<Rightarrow> (string \<times> string) option" where
  "json_read_string s =
     (case s of
        [] \<Rightarrow> None
      | c # cs \<Rightarrow>
          if c = CHR 0x22 then Some ([], cs)
          else if c = CHR 0x5C then
            (case json_unescape cs of None \<Rightarrow> None | Some (x, r) \<Rightarrow> json_prepend x (json_read_string r))
          else if (of_char c :: nat) < 32 then None
          else if utf8_len s = 0 then json_prepend replacement (json_read_string cs)
          else json_prepend (take (utf8_len s) s) (json_read_string (drop (utf8_len s) s)))"
  by pat_completeness auto
termination
  by (relation "measure length") (auto dest: json_unescape_shorter)

declare json_read_string.simps [simp del]

text \<open>
  A number literal: optional minus, \<open>0\<close> or digits without leading zero, optional fraction,
  optional exponent.
\<close>

definition json_int_part :: "string \<Rightarrow> (string \<times> string) option" where
  "json_int_part s =
     (let ds = takeWhile is_digit s in
      if ds = [] then None
      else if hd ds = CHR ''0'' then Some ([CHR ''0''], drop 1 s)
      else Some (ds, dropWhile is_digit s))"

definition json_frac :: "string \<Rightarrow> (string \<times> string) option" where
  "json_frac s =
     (if HasPrefix s ''.'' then
        (let ds = takeWhile is_digit (drop 1 s) in
         if ds = [] then None else Some (CHR ''.'' # ds, dropWhile is_digit (drop 1 s)))
      else Some ([], s))"

definition json_exp :: "string \<Rightarrow> (string \<times> string) option" where
  "json_exp s =
     (if HasPrefix s ''e'' \<or> HasPrefix s ''E'' then
        (let t = drop 1 s;
             sg = (if HasPrefix t ''+'' \<or> HasPrefix t ''-'' then take 1 t else []);
             u = drop (length sg) t;
             ds = takeWhile is_digit u in
         if ds = [] then None else Some (take 1 s @ sg @ ds, dropWhile is_digit u))
      else Some ([], s))"

definition json_number :: "string \<Rightarrow> (string \<times> string) option" where
  "json_number s =
     (let sg = (if HasPrefix s ''-'' then ''-'' else []) in
      case json_int_part (drop (length sg) s) of
        None \<Rightarrow> None
      | Some (i, r) \<Rightarrow>
          (case json_frac r of
             None \<Rightarrow> None
           | Some (f, r') \<Rightarrow>
               (case json_exp r' of
                  None \<Rightarrow> None
                | Some (e, r'') \<Rightarrow> Some (sg @ i @ f @ e, r''))))"

text \<open>
  The shape of a value.  A number keeps its literal, an object its members with the raw text of
  their values; the elements of an array are only checked for syntax.
\<close>

datatype json = JNull | JBool bool | JNum string | JStr string | JArr | JObj "(string \<times> string) list"

definition json_scalar :: "string \<Rightarrow> (json \<times> string) option" where
  "json_scalar s =
     (if HasPrefix s [CHR 0x22] then map_option (\<lambda>(x, r). (JStr x, r)) (json_read_string (drop 1 s))
      else if HasPrefix s ''null'' then Some (JNull, drop 4 s)
      else if HasPrefix s ''true'' then Some (JBool True, drop 4 s)
      else if HasPrefix s ''false'' then Some (JBool False, drop 5 s)
      else map_option (\<lambda>(x, r). (JNum x, r)) (json_number s))"

text \<open>
  Array elements and object members after the opening bracket; \<open>p\<close> reads one value, the second
  argument bounds the number of elements (every element takes at least one byte, so the length of
  the text is enough).
\<close>

fun json_elems :: "(string \<Rightarrow> (json \<times> string) option) \<Rightarrow> nat \<Rightarrow> string \<Rightarrow> string option" where
  "json_elems p 0 s = None"
| "json_elems p (Suc n) s =
     (case p (skip_ws s) of
        None \<Rightarrow> None
      | Some (_, r) \<Rightarrow>
          (case skip_ws r of
             c # r' \<Rightarrow> if c = CHR '','' then json_elems p n r' else if c = CHR '']'' then Some r' else None
           | [] \<Rightarrow> None))"

text \<open>One member: its name, the raw text of its value, the rest.\<close>

definition json_read_member ::
  "(string \<Rightarrow> (json \<times> string) option) \<Rightarrow> string \<Rightarrow> ((string \<times> string) \<times> string) option" where
  "json_read_member p s =
     (case skip_ws s of
        [] \<Rightarrow> None
      | q # s1 \<Rightarrow>
          if q \<noteq> CHR 0x22 then None
          else (case json_read_string s1 of
             None \<Rightarrow> None
           | Some (k, s2) \<Rightarrow>
               (case skip_ws s2 of
                  [] \<Rightarrow> None
                | co # s3 \<Rightarrow>
                    if co \<noteq> CHR '':'' then None
                    else (let v = skip_ws s3 in
                          case p v of
                            None \<Rightarrow> None
                          | Some (_, r) \<Rightarrow> Some ((k, take (length v - length r) v), r)))))"

fun json_members ::
  "(string \<Rightarrow> (json \<times> string) option) \<Rightarrow> nat \<Rightarrow> string \<Rightarrow> ((string \<times> string) list \<times> string) option" where
  "json_members p 0 s = None"
| "json_members p (Suc n) s =
     (case json_read_member p s of
        None \<Rightarrow> None
      | Some (m, r) \<Rightarrow>
          (case skip_ws r of
             c # r' \<Rightarrow>
               if c = CHR '','' then map_option (\<lambda>(ms, r''). (m # ms, r'')) (json_members p n r')
               else if c = CHR ''}'' then Some ([m], r') else None
           | [] \<Rightarrow> None))"

text \<open>One value with at most \<open>d\<close> levels of nesting.\<close>

primrec json_value :: "nat \<Rightarrow> string \<Rightarrow> (json \<times> string) option" where
  "json_value 0 s = json_scalar s"
| "json_value (Suc d) s =
     (if HasPrefix s ''['' then
        (let r = drop 1 s in
         if HasPrefix (skip_ws r) '']'' then Some (JArr, drop 1 (skip_ws r))
         else map_option (\<lambda>r'. (JArr, r')) (json_elems (json_value d) (length r) r))
      else if HasPrefix s ''{'' then
        (let r = drop 1 s in
         if HasPrefix (skip_ws r) ''}'' then Some (JObj [], drop 1 (skip_ws r))
         else map_option (\<lambda>(ms, r'). (JObj ms, r')) (json_members (json_value d) (length r) r))
      else json_scalar s)"

text \<open>
  A whole text: one value between white space.  \<open>maxNestingDepth\<close> is 10000; a text cannot nest
  deeper than it is long.
\<close>

definition maxNestingDepth :: nat where
  "maxNestingDepth = 10000"

definition json_parse :: "string \<Rightarrow> json option" where
  "json_parse s =
     (case json_value (min maxNestingDepth (length s)) (skip_ws s) of
        Some (v, r) \<Rightarrow> if skip_ws r = [] then Some v else None
      | None \<Rightarrow> None)"

section \<open>Filling a struct\<close>

text \<open>The field a member name selects: exact match first, then up to case.\<close>

definition json_field :: "string list \<Rightarrow> string \<Rightarrow> string option" where
  "json_field names k = (if k \<in> set names then Some k else find (\<lambda>f. EqualFold k f) names)"

text \<open>
  \<open>upd f raw acc\<close> stores the value with text \<open>raw\<close> in field \<open>f\<close>; \<open>None\<close> is an
  \<open>UnmarshalTypeError\<close>.
\<close>

fun json_fill ::
  "string list \<Rightarrow> (string \<Rightarrow> string \<Rightarrow> 'a \<Rightarrow> 'a option) \<Rightarrow> (string \<times> string) list \<Rightarrow> 'a \<Rightarrow> 'a option" where
  "json_fill names upd [] acc = Some acc"
| "json_fill names upd ((k, raw) # ms) acc =
     (case json_field names k of
        None \<Rightarrow> json_fill names upd ms acc
      | Some f \<Rightarrow> (case upd f raw acc of None \<Rightarrow> None | Some acc' \<Rightarrow> json_fill names upd ms acc'))"

definition json_Unmarshal ::
  "string list \<Rightarrow> (string \<Rightarrow> string \<Rightarrow> 'a \<Rightarrow> 'a option) \<Rightarrow> 'a \<Rightarrow> string \<Rightarrow> 'a option" where
  "json_Unmarshal names upd zero s =
     (case json_parse s of
        Some (JObj ms) \<Rightarrow> json_fill names upd ms zero
      | Some JNull \<Rightarrow> Some zero
      | _ \<Rightarrow> None)"

text \<open>Storing into a \<open>string\<close> field and into an \<open>int\<close>/\<open>int64\<close> field.\<close>

definition json_to_string :: "(string \<Rightarrow> 'a) \<Rightarrow> string \<Rightarrow> 'a \<Rightarrow> 'a option" where
  "json_to_string st raw acc =
     (case json_parse raw of Some (JStr x) \<Rightarrow> Some (st x) | Some JNull \<Rightarrow> Some acc | _ \<Rightarrow> None)"

definition json_to_int :: "(int \<Rightarrow> 'a) \<Rightarrow> string \<Rightarrow> 'a \<Rightarrow> 'a option" where
  "json_to_int st raw acc =
     (case json_parse raw of
        Some (JNum lit) \<Rightarrow> map_option st (Atoi lit)
      | Some JNull \<Rightarrow> Some acc
      | _ \<Rightarrow> None)"

section \<open>Embedding a raw message\<close>

text \<open>
  \<open>appendCompact\<close> with \<open>escapeHTML\<close>: the raw text must be one valid value; white space outside
  strings is dropped and the HTML-sensitive characters are escaped.  The flags say whether the
  current byte is inside a string literal and behind a backslash.
\<close>

function compact_bytes :: "bool \<Rightarrow> bool \<Rightarrow> string \<Rightarrow> string" where
  "compact_bytes instr bs s =
     (case s of
        [] \<Rightarrow> []
      | c # cs \<Rightarrow>
          if line_sep s then json_line_sep s @ compact_bytes instr False (drop 3 s)
          else if c = CHR ''<'' \<or> c = CHR ''>'' \<or> c = CHR ''&''
            then json_ascii c @ compact_bytes instr False cs
          else if \<not> instr then
            (if json_space c then compact_bytes False False cs else c # compact_bytes (c = CHR 0x22) False cs)
          else if bs then c # compact_bytes True False cs
          else c # compact_bytes (c \<noteq> CHR 0x22) (c = CHR 0x5C) cs)"
  by pat_completeness auto
termination
  by (relation "measure (\<lambda>(_, _, s). length s)") auto

declare compact_bytes.simps [simp del]

definition json_compact :: "string \<Rightarrow> string option" where
  "json_compact s = (if json_parse s = None then None else Some (compact_bytes False False s))"

section \<open>Well-formed texts\<close>

text \<open>\<open>utf8.ValidString\<close>.\<close>

function valid_utf8 :: "string \<Rightarrow> bool" where
  "valid_utf8 s =
     (if s = [] then True else if utf8_len s = 0 then False else valid_utf8 (drop (utf8_len s) s))"
  by pat_completeness auto
termination
  by (relation "measure length") auto

declare valid_utf8.simps [simp del]

text \<open>What may follow a value inside an object, and \<open>json_text n j v\<close>: the text \<open>v\<close> is a complete value
  of shape \<open>j\<close> that needs at most \<open>n\<close> levels of nesting.\<close>

definition json_delim :: "string \<Rightarrow> bool" where
  "json_delim r \<longleftrightarrow> r = [] \<or> hd r = CHR '','' \<or> hd r = CHR ''}''"

definition json_text :: "nat \<Rightarrow> json \<Rightarrow> string \<Rightarrow> bool" where
  "json_text n j v \<longleftrightarrow> v \<noteq> [] \<and> \<not> json_space (hd v)
     \<and> (\<forall>d rest. n \<le> d \<longrightarrow> json_delim rest \<longrightarrow> json_value d (v @ rest) = Some (j, rest))"

text \<open>Compacting leaves the text alone.\<close>

definition compact_ok :: "string \<Rightarrow> bool" where
  "compact_ok v \<longleftrightarrow> (\<forall>rest. compact_bytes False False (v @ rest) = v @ compact_bytes False False rest)"

section \<open>String literals: encoding and decoding\<close>

lemma of_charD: "(of_char c :: nat) = of_char d \<Longrightarrow> c = d"
  by simp

lemma hex_val_hex_char: "d < 16 \<Longrightarrow> hex_val (hex_char d) = Some d"
proof -
  have "list_all (\<lambda>d. hex_val (hex_char d) = Some d) [0..<16]" by code_simp
  moreover assume "d < 16"
  ultimately show ?thesis by (simp add: list_all_iff)
qed

lemma hex4_ascii: "n < 256 \<Longrightarrow> hex4 (CHR ''0'' # CHR ''0'' # hex_char (n div 16) # hex_char (n mod 16) # t) = Some (n, t)"
  using hex_val_hex_char [of 0]
  by (simp add: hex4_def hex_val_hex_char div_less_iff_less_mult hex_char_def [of 0])

lemma read_plain:
  assumes "c \<noteq> CHR 0x22" "c \<noteq> CHR 0x5C" "32 \<le> (of_char c :: nat)" "(of_char c :: nat) < 128"
  shows "json_read_string (c # t) = json_prepend [c] (json_read_string t)"
  using assms by (subst json_read_string.simps) (simp add: utf8_len_def)

lemma read_escape:
  "json_unescape s = Some (x, r) \<Longrightarrow> json_read_string (CHR 0x5C # s) = json_prepend x (json_read_string r)"
  by (subst json_read_string.simps) simp

lemma json_unescape_u00:
  assumes "(of_char c :: nat) < 128"
  shows "json_unescape (CHR ''u'' # CHR ''0'' # CHR ''0'' # hex_char (of_char c div 16) # hex_char (of_char c mod 16) # t)
    = Some ([c], t)"
  using assms hex4_ascii [of "of_char c" t] by (simp add: json_unescape_def json_u_def encode_rune_def)

lemma read_ascii:
  assumes "(of_char c :: nat) < 128"
  shows "json_read_string (json_ascii c @ t) = json_prepend [c] (json_read_string t)"
proof -
  consider "c = CHR 0x5C \<or> c = CHR 0x22" | "c \<in> {CHR 0x08, CHR 0x0C, CHR 0x0A, CHR 0x0D, CHR 0x09}"
    | "json_ascii c = [CHR 0x5C, CHR ''u'', CHR ''0'', CHR ''0'', hex_char (of_char c div 16), hex_char (of_char c mod 16)]"
    | "json_ascii c = [c]" "c \<noteq> CHR 0x5C" "c \<noteq> CHR 0x22" "32 \<le> (of_char c :: nat)"
    using of_charD [of c "CHR 0x08"] of_charD [of c "CHR 0x0C"] of_charD [of c "CHR 0x0A"]
      of_charD [of c "CHR 0x0D"] of_charD [of c "CHR 0x09"]
    by (fastforce simp: json_ascii_def Let_def split: if_splits)
  then show ?thesis
  proof cases
    case 3
    then show ?thesis using read_escape [OF json_unescape_u00 [OF assms]] by simp
  next
    case 4
    then show ?thesis using read_plain assms by simp
  qed (auto simp: json_ascii_def read_escape json_unescape_def)
qed


lemma utf8_len_le: "utf8_len s \<le> length s"
  by (auto simp: utf8_len_def Let_def split: list.splits)

text \<open>The four shapes of a well-formed sequence.\<close>

lemma utf8_len_cases:
  assumes "0 < utf8_len s"
  obtains (1) c t where "s = c # t" "(of_char c :: nat) < 128"
  | (2) c c1 t where "s = c # c1 # t" "0xC2 \<le> (of_char c :: nat)" "(of_char c :: nat) \<le> 0xDF" "utf8_cont c1"
  | (3) c c1 c2 t where "s = c # c1 # c2 # t" "0xE0 \<le> (of_char c :: nat)" "(of_char c :: nat) \<le> 0xEF"
      "utf8_second_ok (of_char c) (of_char c1)" "utf8_cont c2"
  | (4) c c1 c2 c3 t where "s = c # c1 # c2 # c3 # t" "0xF0 \<le> (of_char c :: nat)" "(of_char c :: nat) \<le> 0xF4"
      "utf8_second_ok (of_char c) (of_char c1)" "utf8_cont c2" "utf8_cont c3"
proof (cases s)
  case Nil
  with assms show ?thesis by (simp add: utf8_len_def)
next
  case (Cons c t)
  let ?x = "of_char c :: nat"
  consider "?x < 128" | "0xC2 \<le> ?x" "?x \<le> 0xDF" | "0xE0 \<le> ?x" "?x \<le> 0xEF" | "0xF0 \<le> ?x" "?x \<le> 0xF4"
    using assms Cons by (force simp: utf8_len_def Let_def)
  then show ?thesis
  proof cases
    case 2
    with assms Cons that(2) show ?thesis by (auto simp: utf8_len_def split: list.splits if_splits)
  next
    case 3
    with assms Cons that(3) show ?thesis by (auto simp: utf8_len_def split: list.splits if_splits)
  next
    case 4
    with assms Cons that(4) show ?thesis by (auto simp: utf8_len_def split: list.splits if_splits)
  qed (use Cons that(1) in blast)
qed

lemma utf8_len_take: "0 < utf8_len s \<Longrightarrow> utf8_len (take (utf8_len s) s @ t) = utf8_len s"
  by (erule utf8_len_cases) (simp_all add: utf8_len_def)

lemma utf8_len_ascii [simp]: "(of_char c :: nat) < 128 \<Longrightarrow> utf8_len (c # cs) = 1"
  by (simp add: utf8_len_def)

lemma read_rune:
  assumes "0 < utf8_len s" "128 \<le> (of_char (hd s) :: nat)"
  shows "json_read_string (take (utf8_len s) s @ t) = json_prepend (take (utf8_len s) s) (json_read_string t)"
proof -
  let ?n = "utf8_len s"
  obtain c cs where s: "s = c # cs" using assms(1) by (cases s) (auto simp: utf8_len_def)
  have ne: "c \<noteq> CHR 0x22" "c \<noteq> CHR 0x5C" "\<not> (of_char c :: nat) < 32" using assms(2) s by auto
  have hd: "take ?n s @ t = c # (take (?n - 1) cs @ t)" using assms(1) s by (cases ?n) auto
  have "json_read_string (take ?n s @ t)
      = json_prepend (take ?n (take ?n s @ t)) (json_read_string (drop ?n (take ?n s @ t)))"
    using ne utf8_len_take [OF assms(1), of t] assms(1)
    by (subst json_read_string.simps) (simp add: hd)
  then show ?thesis using utf8_len_le [of s] by simp
qed

lemma char_of_lits:
  "char_of (226 :: nat) = CHR 0xE2" "char_of (128 :: nat) = CHR 0x80" "char_of (168 :: nat) = CHR 0xA8"
  "char_of (169 :: nat) = CHR 0xA9" "char_of (239 :: nat) = CHR 0xEF" "char_of (191 :: nat) = CHR 0xBF"
  "char_of (189 :: nat) = CHR 0xBD"
  by code_simp+

lemma line_sep_len: "line_sep s \<Longrightarrow> utf8_len s = 3 \<and> json_unescape (tl (json_line_sep s) @ t) = Some (take 3 s, t)"
  by (auto simp: line_sep_def json_line_sep_def HasPrefix_iff utf8_len_def utf8_second_ok_def utf8_cont_def HasPrefix_def
    json_unescape_def json_u_def hex4_def hex_val_def encode_rune_def char_of_lits)

lemma read_replacement:
  "json_read_string ([CHR 0x5C, CHR ''u'', CHR ''f'', CHR ''f'', CHR ''f'', CHR ''d''] @ t)
    = json_prepend replacement (json_read_string t)"
  by (simp add: read_escape json_unescape_def json_u_def hex4_def hex_val_def encode_rune_def replacement_def char_of_lits)

lemma json_prepend_Some [simp]: "json_prepend p (Some (x, r)) = Some (p @ x, r)"
  by (simp add: json_prepend_def)

lemma json_read_esc: "json_read_string (json_esc s @ CHR 0x22 # rest) = Some (ToValidUTF8 s, rest)"
proof (induction s rule: json_esc.induct)
  case (1 s)
  show ?case
  proof (cases s)
    case Nil
    then show ?thesis by (simp add: json_esc.simps ToValidUTF8.simps json_read_string.simps)
  next
    case (Cons c cs)
    note v = ToValidUTF8.simps [of s]
    consider "(of_char c :: nat) < 128" | "\<not> (of_char c :: nat) < 128" "utf8_len s = 0"
      | "\<not> (of_char c :: nat) < 128" "utf8_len s \<noteq> 0" "line_sep s"
      | "\<not> (of_char c :: nat) < 128" "utf8_len s \<noteq> 0" "\<not> line_sep s" by blast
    then show ?thesis
    proof cases
      case 1
      then show ?thesis using "1.IH"(1) [OF Cons] v Cons
        by (subst json_esc.simps) (simp add: read_ascii)
    next
      case 2
      then show ?thesis using "1.IH"(2) [OF Cons] v Cons read_replacement
        by (subst json_esc.simps) simp
    next
      case 3
      then show ?thesis using "1.IH"(3) [OF Cons] v Cons line_sep_len [of s]
        read_escape [of "tl (json_line_sep s) @ json_esc (drop 3 s) @ CHR 0x22 # rest"]
        by (subst json_esc.simps) (simp add: json_line_sep_def)
    next
      case 4
      then show ?thesis using "1.IH"(4) [OF Cons] v Cons read_rune [of s]
        by (subst json_esc.simps) simp
    qed
  qed
qed

section \<open>Values and objects\<close>

lemma ToValidUTF8_valid: "valid_utf8 s \<Longrightarrow> ToValidUTF8 s = s"
proof (induction s rule: valid_utf8.induct)
  case (1 s)
  then show ?case by (subst ToValidUTF8.simps) (auto simp: valid_utf8.simps [of s] split: if_splits)
qed

lemma valid_utf8_ascii: "is_ascii s \<Longrightarrow> valid_utf8 s"
proof (induction s)
  case (Cons c s)
  then show ?case by (subst valid_utf8.simps) (simp add: is_ascii_def)
qed (simp add: valid_utf8.simps)

lemma ToValidUTF8_ascii: "is_ascii s \<Longrightarrow> ToValidUTF8 s = s"
  by (rule ToValidUTF8_valid [OF valid_utf8_ascii])

lemma json_value_scalar: "hd s \<noteq> CHR ''['' \<Longrightarrow> hd s \<noteq> CHR ''{'' \<Longrightarrow> json_value d s = json_scalar s"
  by (cases d; cases s) (auto simp: HasPrefix_def json_scalar_def)

lemma json_text_string: "json_text 0 (JStr (ToValidUTF8 s)) (json_string s)"
  by (simp add: json_text_def json_string_def json_space_def json_value_scalar json_scalar_def HasPrefix_def json_read_esc)

lemma nat_digits_hd: "0 < n \<Longrightarrow> hd (nat_digits n) \<noteq> CHR ''0''"
proof (induction n rule: nat_digits.induct)
  case (1 n)
  show ?case
  proof (cases "n < 10")
    case True
    then have "n \<in> set [1..<10]" using 1(2) by simp
    then show ?thesis using True by (subst nat_digits.simps) (auto simp: digit_char_def upt_rec)
  next
    case False
    then show ?thesis using 1 by (subst nat_digits.simps) (simp add: hd_append)
  qed
qed

lemma json_delim_no_digit: "json_delim r \<Longrightarrow> takeWhile is_digit r = [] \<and> dropWhile is_digit r = r"
  by (cases r) (auto simp: json_delim_def is_digit_def)

lemma json_int_part_digits:
  assumes "json_delim r"
  shows "json_int_part (nat_digits n @ r) = Some (nat_digits n, r)"
proof (cases "n = 0")
  case True
  then show ?thesis by (simp add: nat_digits.simps digit_char_def json_int_part_def is_digit_def)
next
  case False
  have d: "\<forall>c\<in>set (nat_digits n). is_digit c" using nat_digits_digits [of n] by (simp add: list_all_iff)
  have "takeWhile is_digit (nat_digits n @ r) = nat_digits n" "dropWhile is_digit (nat_digits n @ r) = r"
    using d json_delim_no_digit [OF assms] by simp_all
  with False nat_digits_hd [of n] show ?thesis by (simp add: json_int_part_def)
qed

lemma json_number_Itoa:
  assumes "json_delim r"
  shows "json_number (Itoa n @ r) = Some (Itoa n, r)"
proof -
  have f: "json_frac r = Some ([], r)" "json_exp r = Some ([], r)"
    using assms by (cases r; auto simp: json_delim_def json_frac_def json_exp_def HasPrefix_def)+
  obtain c cs where c: "nat_digits (nat n) = c # cs" by (meson nat_digits_nonempty neq_Nil_conv)
  then have "is_digit c" using nat_digits_digits [of "nat n"] by simp
  then have "\<not> HasPrefix (nat_digits (nat n) @ r) ''-''" by (auto simp: c HasPrefix_def is_digit_def)
  then show ?thesis
    using json_int_part_digits [OF assms] f by (auto simp: json_number_def Itoa_def HasPrefix_def)
qed

lemma Itoa_hd: "hd (Itoa n) = CHR ''-'' \<or> is_digit (hd (Itoa n))" "Itoa n \<noteq> []"
proof -
  have "is_digit (hd (nat_digits m))" for m
    using nat_digits_digits [of m] nat_digits_nonempty [of m] by (cases "nat_digits m") auto
  then show "hd (Itoa n) = CHR ''-'' \<or> is_digit (hd (Itoa n))" by (simp add: Itoa_def)
qed (simp add: Itoa_def)

lemma json_text_int: "json_text 0 (JNum (Itoa n)) (Itoa n)"
proof -
  obtain c cs where c: "Itoa n = c # cs" "c = CHR ''-'' \<or> is_digit c"
    using Itoa_hd [of n] by (cases "Itoa n") auto
  then have "c \<noteq> CHR ''['' \<and> c \<noteq> CHR ''{'' \<and> \<not> json_space c \<and> c \<noteq> CHR 0x22 \<and> c \<noteq> CHR ''n'' \<and> c \<noteq> CHR ''t'' \<and> c \<noteq> CHR ''f''"
    by (auto simp: is_digit_def json_space_def)
  then show ?thesis
    using c json_number_Itoa [of _ n] by (auto simp: json_text_def json_value_scalar json_scalar_def HasPrefix_def)
qed

lemma json_text_ne: "json_text n j v \<Longrightarrow> v \<noteq> []"
  by (simp add: json_text_def)

lemma json_text_ws: "json_text n j v \<Longrightarrow> skip_ws (v @ r) = v @ r"
  by (cases v) (auto simp: json_text_def)

lemma json_read_member_text:
  assumes "json_text n j v" "n \<le> d" "json_delim r" "r \<noteq> []"
  shows "json_read_member (json_value d) (json_member (k, v) @ r) = Some ((ToValidUTF8 k, v), r)"
proof -
  have "json_value d (v @ r) = Some (j, r)" using assms by (simp add: json_text_def)
  moreover have "skip_ws (v @ r) = v @ r" using json_text_ws [OF assms(1)] .
  ultimately show ?thesis
    by (simp add: json_read_member_def json_member_def json_string_def json_space_def json_read_esc)
qed

lemma Join_Cons: "Join (x # xs) sep = x @ concat (map ((@) sep) xs)"
  by (induction xs arbitrary: x) auto

lemma json_members_text:
  assumes "\<forall>(k, v)\<in>set ms. \<exists>j. json_text n j v" "n \<le> d" "ms \<noteq> []" "length ms \<le> N"
  shows "json_members (json_value d) N (Join (map json_member ms) '','' @ CHR ''}'' # r)
    = Some (map (apfst ToValidUTF8) ms, r)"
  using assms
proof (induction ms arbitrary: N)
  case (Cons m ms)
  obtain k v where m: "m = (k, v)" by (cases m)
  obtain j where j: "json_text n j v" using Cons.prems m by auto
  obtain M where M: "N = Suc M" using Cons.prems by (cases N) auto
  show ?case
  proof (cases ms)
    case Nil
    then show ?thesis
      using json_read_member_text [OF j Cons.prems(2), of "CHR ''}'' # r" k] m M
      by (simp add: json_delim_def json_space_def)
  next
    case (Cons m2 ms2)
    let ?r = "Join (map json_member ms) '','' @ CHR ''}'' # r"
    have "json_members (json_value d) M ?r = Some (map (apfst ToValidUTF8) ms, r)"
      using Cons.IH Cons.prems Cons M by simp
    then show ?thesis
      using json_read_member_text [OF j \<open>n \<le> d\<close>, of "CHR '','' # ?r" k] m M Cons
      by (simp add: json_delim_def json_space_def)
  qed
qed simp

lemma json_text_object:
  assumes "\<forall>(k, v)\<in>set ms. \<exists>j. json_text n j v"
  shows "json_text (Suc n) (JObj (map (apfst ToValidUTF8) ms)) (json_object ms)"
proof -
  have "json_value d (json_object ms @ r) = Some (JObj (map (apfst ToValidUTF8) ms), r)"
    if "Suc n \<le> d" "json_delim r" for d r
  proof -
    obtain e where e: "d = Suc e" "n \<le> e" using \<open>Suc n \<le> d\<close> by (cases d) auto
    let ?t = "Join (map json_member ms) '','' @ CHR ''}'' # r"
    have o: "json_object ms @ r = CHR ''{'' # ?t" by (simp add: json_object_def)
    show ?thesis
    proof (cases "ms = []")
      case True
      then show ?thesis unfolding o e(1) by (simp add: HasPrefix_def json_space_def)
    next
      case False
      obtain u where u: "?t = CHR 0x22 # u" using False
        by (cases ms) (auto simp: Join_Cons json_member_def json_string_def)
      have "length ms \<le> length ?t"
      proof -
        have "length ms \<le> length (Join (map json_member ms) '','') + 1"
          by (induction ms rule: induct_list012) auto
        then show ?thesis by simp
      qed
      then have "json_members (json_value e) (length ?t) ?t = Some (map (apfst ToValidUTF8) ms, r)"
        using json_members_text [OF assms e(2) False] by blast
      then show ?thesis unfolding o e(1) u
        by (simp add: HasPrefix_def json_space_def del: json_members.simps)
    qed
  qed
  then show ?thesis by (simp add: json_text_def json_object_def json_space_def)
qed

lemma json_parse_text:
  assumes "json_text n j v" "n \<le> maxNestingDepth" "n \<le> length v"
  shows "json_parse v = Some j"
  using assms json_text_ws [OF assms(1), of "[]"] by (simp add: json_parse_def json_text_def json_delim_def)


section \<open>Compacting\<close>

lemma not_line_sep: "(of_char c :: nat) \<noteq> 226 \<Longrightarrow> \<not> line_sep (c # t)"
  by (auto simp: line_sep_def HasPrefix_def)

lemma compact_in:
  assumes "(of_char c :: nat) \<noteq> 226" "c \<noteq> CHR ''<''" "c \<noteq> CHR ''>''" "c \<noteq> CHR ''&''"
  shows "compact_bytes True bs (c # t) = c # compact_bytes (bs \<or> c \<noteq> CHR 0x22) (\<not> bs \<and> c = CHR 0x5C) t"
  using assms not_line_sep [of c t] by (subst compact_bytes.simps) auto

lemma compact_out:
  assumes "(of_char c :: nat) \<noteq> 226" "c \<noteq> CHR ''<''" "c \<noteq> CHR ''>''" "c \<noteq> CHR ''&''" "\<not> json_space c"
  shows "compact_bytes False bs (c # t) = c # compact_bytes (c = CHR 0x22) False t"
  using assms not_line_sep [of c t] by (subst compact_bytes.simps) auto

lemma hex_char_plain: "d < 16 \<Longrightarrow> hex_char d \<in> set ''0123456789abcdef''"
  unfolding hex_char_def by (rule nth_mem) simp

lemma compact_hex:
  assumes "d < 16"
  shows "compact_bytes True False (hex_char d # t) = hex_char d # compact_bytes True False t"
  using hex_char_plain [OF assms] by (subst compact_in) auto

lemma compact_ascii:
  assumes "(of_char c :: nat) < 128"
  shows "compact_bytes True False (json_ascii c @ t) = json_ascii c @ compact_bytes True False t"
  using assms by (simp add: json_ascii_def Let_def compact_in compact_hex div_less_iff_less_mult)

lemma compact_cont:
  assumes "128 \<le> (of_char c :: nat)" "(of_char c :: nat) < 192"
  shows "compact_bytes True False (c # t) = c # compact_bytes True False t"
proof -
  have "c \<noteq> CHR 0x22 \<and> c \<noteq> CHR 0x5C" using assms by auto
  then show ?thesis using assms by (subst compact_in) auto
qed

lemma compact_rune_head:
  assumes "128 \<le> (of_char c :: nat)" "\<not> line_sep (c # t)"
  shows "compact_bytes True False (c # t) = c # compact_bytes True False t"
proof -
  have "c \<noteq> CHR 0x22 \<and> c \<noteq> CHR 0x5C" using assms by auto
  then show ?thesis using assms by (subst compact_bytes.simps) auto
qed

lemma compact_rune:
  assumes "0 < utf8_len s" "128 \<le> (of_char (hd s) :: nat)" "\<not> line_sep s"
  shows "compact_bytes True False (take (utf8_len s) s @ t) = take (utf8_len s) s @ compact_bytes True False t"
  using assms(1)
proof (cases rule: utf8_len_cases)
  case (2 c c1 u)
  then show ?thesis using not_line_sep [of c] by (simp add: utf8_len_def utf8_cont_def compact_rune_head compact_cont)
next
  case (3 c c1 c2 u)
  then have "\<not> line_sep (c # c1 # c2 # t)" using assms(3) by (simp add: line_sep_def HasPrefix_def)
  with 3 show ?thesis
    by (simp add: utf8_len_def utf8_cont_def utf8_second_ok_def compact_rune_head compact_cont split: if_splits)
next
  case (4 c c1 c2 c3 u)
  then show ?thesis using not_line_sep [of c]
    by (simp add: utf8_len_def utf8_cont_def utf8_second_ok_def compact_rune_head compact_cont split: if_splits)
qed (use assms(2) in simp)

lemma compact_esc:
  "compact_bytes True False (json_esc s @ CHR 0x22 # rest) = json_esc s @ CHR 0x22 # compact_bytes False False rest"
proof (induction s rule: json_esc.induct)
  case (1 s)
  show ?case
  proof (cases s)
    case Nil
    then show ?thesis by (simp add: json_esc.simps compact_in)
  next
    case (Cons c cs)
    consider "(of_char c :: nat) < 128" | "\<not> (of_char c :: nat) < 128" "utf8_len s = 0"
      | "\<not> (of_char c :: nat) < 128" "utf8_len s \<noteq> 0" "line_sep s"
      | "\<not> (of_char c :: nat) < 128" "utf8_len s \<noteq> 0" "\<not> line_sep s" by blast
    then show ?thesis
    proof cases
      case 1
      then show ?thesis using "1.IH"(1) [OF Cons] Cons by (subst (1 2) json_esc.simps) (simp add: compact_ascii)
    next
      case 2
      then show ?thesis using "1.IH"(2) [OF Cons] Cons by (subst (1 2) json_esc.simps) (simp add: compact_in)
    next
      case 3
      then show ?thesis using "1.IH"(3) [OF Cons] Cons
        by (subst (1 2) json_esc.simps) (simp add: json_line_sep_def compact_in)
    next
      case 4
      then show ?thesis using "1.IH"(4) [OF Cons] Cons compact_rune [of s]
        by (subst (1 2) json_esc.simps) simp
    qed
  qed
qed

lemma compact_ok_string: "compact_ok (json_string s)"
  by (simp add: compact_ok_def json_string_def compact_out json_space_def compact_esc)

lemma compact_ok_append: "compact_ok v \<Longrightarrow> compact_ok w \<Longrightarrow> compact_ok (v @ w)"
  by (simp add: compact_ok_def)

lemma compact_ok_Nil: "compact_ok []"
  by (simp add: compact_ok_def)

lemma compact_ok_digits: "list_all is_digit s \<Longrightarrow> compact_ok s"
proof (induction s)
  case (Cons c s)
  then have "c \<noteq> CHR 0x22" "48 \<le> (of_char c :: nat)" "(of_char c :: nat) \<le> 57" by (auto simp: is_digit_def)
  then have "compact_bytes False False (c # t) = c # compact_bytes False False t" for t
    by (subst compact_out) (auto simp: json_space_def)
  with Cons show ?case by (simp add: compact_ok_def)
qed (simp add: compact_ok_Nil)

lemma compact_ok_char:
  "c \<in> {CHR ''-'', CHR '','', CHR '':'', CHR ''{'', CHR ''}''} \<Longrightarrow> compact_ok [c]"
  by (auto simp: compact_ok_def compact_out json_space_def)

lemma compact_ok_Itoa: "compact_ok (Itoa n)"
  using compact_ok_append [of "''-''"] compact_ok_char compact_ok_digits [OF nat_digits_digits]
  by (auto simp: Itoa_def)

lemma compact_ok_Join: "\<forall>v\<in>set vs. compact_ok v \<Longrightarrow> compact_ok (Join vs '','')"
  by (induction vs "'',''" rule: Join.induct)
    (auto intro!: compact_ok_append compact_ok_Nil compact_ok_append [of "'',''", simplified] compact_ok_char)

lemma compact_ok_object: "\<forall>(k, v)\<in>set ms. compact_ok v \<Longrightarrow> compact_ok (json_object ms)"
  unfolding json_object_def json_member_def
  by (intro compact_ok_append compact_ok_Join compact_ok_char)
    (auto intro!: compact_ok_append compact_ok_string compact_ok_append [of "'':''", simplified] compact_ok_char)

lemma json_compact_id:
  "\<lbrakk>compact_ok v; json_text n j v; n \<le> maxNestingDepth; n \<le> length v\<rbrakk> \<Longrightarrow> json_compact v = Some v"
proof -
  assume a: "compact_ok v" "json_text n j v" "n \<le> maxNestingDepth" "n \<le> length v"
  have "compact_bytes False False v = v @ compact_bytes False False []"
    using a(1) unfolding compact_ok_def by (metis append_Nil2)
  moreover have "compact_bytes False False [] = []" by (subst compact_bytes.simps) simp
  ultimately show ?thesis using json_parse_text [OF a(2-4)] by (simp add: json_compact_def)
qed

section \<open>Struct round trips\<close>

lemma json_Unmarshal_object:
  assumes "\<forall>(k, v)\<in>set ms. is_ascii k \<and> (\<exists>j. json_text n j v)" "Suc n \<le> maxNestingDepth" "n \<le> 1"
  shows "json_Unmarshal names upd zero (json_object ms) = json_fill names upd ms zero"
proof -
  have "map (apfst ToValidUTF8) ms = ms"
    using assms(1) by (induction ms) (auto simp: ToValidUTF8_ascii)
  moreover have "json_text (Suc n) (JObj (map (apfst ToValidUTF8) ms)) (json_object ms)"
    using assms(1) by (intro json_text_object) auto
  moreover have "Suc n \<le> length (json_object ms)" using assms(3) by (simp add: json_object_def)
  ultimately have "json_parse (json_object ms) = Some (JObj ms)" using json_parse_text assms(2) by fastforce
  then show ?thesis by (simp add: json_Unmarshal_def)
qed

lemma json_to_string_string: "json_to_string st (json_string s) acc = Some (st (ToValidUTF8 s))"
  using json_parse_text [OF json_text_string] by (simp add: json_to_string_def)

lemma json_to_int_Itoa: "- (2 ^ 63) \<le> n \<Longrightarrow> n < 2 ^ 63 \<Longrightarrow> json_to_int st (Itoa n) acc = Some (st n)"
  using json_parse_text [OF json_text_int] by (simp add: json_to_int_def Atoi_Itoa)

end
