(* ===== verification/Control.thy ===== *)
theory Control
  imports Go_JSON
begin

text \<open>
  The wire protocol of the control channel (\<open>internal/control/proto.go\<close>): message kinds and
  structs with their JSON encoding, the byte strings that get signed, the shape of a \<open>unique\<close>
  name, and the length-prefixed frames.

  A control stream is the record \<open>stream\<close>: the bytes the peer will still deliver, after which a
  read fails (end of file, time-out, session shutdown), the bytes written so far, and the number
  of bytes after which a write fails (\<open>None\<close>: never).  A failing \<open>Write\<close> has written a prefix, as
  \<open>io.Writer\<close> allows.
\<close>

section \<open>Constants and messages\<close>

definition ProtoVersion :: int where
  "ProtoVersion = 1"

definition MaxFrameBytes :: nat where
  "MaxFrameBytes = 64 * 1024"

definition UpgradeProtocol :: string where
  "UpgradeProtocol = ''swe-swe-tunnel/1''"

type_synonym Kind = string

definition KindRegister :: Kind where "KindRegister = ''register''"
definition KindRegisterOK :: Kind where "KindRegisterOK = ''register_ok''"
definition KindChallenge :: Kind where "KindChallenge = ''challenge''"
definition KindProof :: Kind where "KindProof = ''proof''"
definition KindDeny :: Kind where "KindDeny = ''deny''"
definition KindDeregister :: Kind where "KindDeregister = ''deregister''"
definition KindDeregisterOK :: Kind where "KindDeregisterOK = ''deregister_ok''"

text \<open>\<open>Payload\<close> is a \<open>json.RawMessage\<close>; nil and empty are both the empty list.\<close>

record Frame =
  f_Type :: Kind
  f_Payload :: bytes

record Register =
  r_Version :: int
  r_Unique :: string
  r_Pubkey :: string
  r_Timestamp :: int
  r_Sig :: string

record RegisterOK =
  rok_Hostname :: string

record Challenge =
  c_Nonce :: string

record Proof =
  p_Sig :: string

record Deny =
  d_Reason :: string
  d_RetryAfterSec :: int

record Deregister =
  dr_Unique :: string
  dr_Timestamp :: int
  dr_Sig :: string

datatype message =
    MRegister Register | MRegisterOK RegisterOK | MChallenge Challenge | MProof Proof
  | MDeny Deny | MDeregister Deregister | MDeregisterOK

section \<open>JSON encoding of the messages\<close>

text \<open>\<open>json.Marshal(payload)\<close>, following the struct tags; \<open>retry_after_seconds\<close> is \<open>omitempty\<close>.\<close>

fun json_Marshal :: "message \<Rightarrow> bytes" where
  "json_Marshal (MRegister r) = json_object
     [(''version'', Itoa (r_Version r)), (''unique'', json_string (r_Unique r)),
      (''pubkey'', json_string (r_Pubkey r)), (''timestamp'', Itoa (r_Timestamp r)),
      (''sig'', json_string (r_Sig r))]"
| "json_Marshal (MRegisterOK r) = json_object [(''hostname'', json_string (rok_Hostname r))]"
| "json_Marshal (MChallenge c) = json_object [(''nonce'', json_string (c_Nonce c))]"
| "json_Marshal (MProof p) = json_object [(''sig'', json_string (p_Sig p))]"
| "json_Marshal (MDeny d) = json_object
     ((''reason'', json_string (d_Reason d))
      # (if d_RetryAfterSec d = 0 then [] else [(''retry_after_seconds'', Itoa (d_RetryAfterSec d))]))"
| "json_Marshal (MDeregister d) = json_object
     [(''unique'', json_string (dr_Unique d)), (''timestamp'', Itoa (dr_Timestamp d)),
      (''sig'', json_string (dr_Sig d))]"
| "json_Marshal MDeregisterOK = json_object []"

definition zero_Register :: Register where
  "zero_Register = \<lparr>r_Version = 0, r_Unique = [], r_Pubkey = [], r_Timestamp = 0, r_Sig = []\<rparr>"

definition Unmarshal_Register :: "bytes \<Rightarrow> Register option" where
  "Unmarshal_Register = json_Unmarshal [''version'', ''unique'', ''pubkey'', ''timestamp'', ''sig'']
     (\<lambda>f raw r.
        if f = ''version'' then json_to_int (\<lambda>v. r\<lparr>r_Version := v\<rparr>) raw r
        else if f = ''unique'' then json_to_string (\<lambda>v. r\<lparr>r_Unique := v\<rparr>) raw r
        else if f = ''pubkey'' then json_to_string (\<lambda>v. r\<lparr>r_Pubkey := v\<rparr>) raw r
        else if f = ''timestamp'' then json_to_int (\<lambda>v. r\<lparr>r_Timestamp := v\<rparr>) raw r
        else json_to_string (\<lambda>v. r\<lparr>r_Sig := v\<rparr>) raw r)
     zero_Register"

definition Unmarshal_RegisterOK :: "bytes \<Rightarrow> RegisterOK option" where
  "Unmarshal_RegisterOK = json_Unmarshal [''hostname'']
     (\<lambda>f raw r. json_to_string (\<lambda>v. r\<lparr>rok_Hostname := v\<rparr>) raw r) \<lparr>rok_Hostname = []\<rparr>"

definition Unmarshal_Challenge :: "bytes \<Rightarrow> Challenge option" where
  "Unmarshal_Challenge = json_Unmarshal [''nonce'']
     (\<lambda>f raw r. json_to_string (\<lambda>v. r\<lparr>c_Nonce := v\<rparr>) raw r) \<lparr>c_Nonce = []\<rparr>"

definition Unmarshal_Proof :: "bytes \<Rightarrow> Proof option" where
  "Unmarshal_Proof = json_Unmarshal [''sig'']
     (\<lambda>f raw r. json_to_string (\<lambda>v. r\<lparr>p_Sig := v\<rparr>) raw r) \<lparr>p_Sig = []\<rparr>"

definition Unmarshal_Deny :: "bytes \<Rightarrow> Deny option" where
  "Unmarshal_Deny = json_Unmarshal [''reason'', ''retry_after_seconds'']
     (\<lambda>f raw r.
        if f = ''reason'' then json_to_string (\<lambda>v. r\<lparr>d_Reason := v\<rparr>) raw r
        else json_to_int (\<lambda>v. r\<lparr>d_RetryAfterSec := v\<rparr>) raw r)
     \<lparr>d_Reason = [], d_RetryAfterSec = 0\<rparr>"

definition Unmarshal_Deregister :: "bytes \<Rightarrow> Deregister option" where
  "Unmarshal_Deregister = json_Unmarshal [''unique'', ''timestamp'', ''sig'']
     (\<lambda>f raw r.
        if f = ''unique'' then json_to_string (\<lambda>v. r\<lparr>dr_Unique := v\<rparr>) raw r
        else if f = ''timestamp'' then json_to_int (\<lambda>v. r\<lparr>dr_Timestamp := v\<rparr>) raw r
        else json_to_string (\<lambda>v. r\<lparr>dr_Sig := v\<rparr>) raw r)
     \<lparr>dr_Unique = [], dr_Timestamp = 0, dr_Sig = []\<rparr>"

section \<open>Signing payloads\<close>

definition domainRegister :: bytes where
  "domainRegister = ''swe-swe-tunnel/register/v1'' @ [CHR 0x0A]"

definition domainProof :: bytes where
  "domainProof = ''swe-swe-tunnel/proof/v1'' @ [CHR 0x0A]"

definition domainDeregister :: bytes where
  "domainDeregister = ''swe-swe-tunnel/deregister/v1'' @ [CHR 0x0A]"

definition RegisterSigningPayload :: "bytes \<Rightarrow> string \<Rightarrow> int \<Rightarrow> bytes" where
  "RegisterSigningPayload pubkey unique timestamp =
     domainRegister @ pubkey @ unique @ PutUint64 timestamp"

definition ProofSigningPayload :: "bytes \<Rightarrow> bytes" where
  "ProofSigningPayload nonce = domainProof @ nonce"

definition DeregisterSigningPayload :: "string \<Rightarrow> int \<Rightarrow> bytes" where
  "DeregisterSigningPayload unique timestamp = domainDeregister @ unique @ PutUint64 timestamp"

section \<open>The shape of a unique\<close>

text \<open>
  A regular expression of the form \<open>^...$\<close> that is a sequence of character classes with
  repetition bounds: every way to split the text is tried.
\<close>

fun re_match :: "((char \<Rightarrow> bool) \<times> nat \<times> nat) list \<Rightarrow> string \<Rightarrow> bool" where
  "re_match [] s \<longleftrightarrow> s = []"
| "re_match ((p, lo, hi) # re) s \<longleftrightarrow>
     list_ex (\<lambda>n. n \<le> length s \<and> list_all p (take n s) \<and> re_match re (drop n s)) [lo..<Suc hi]"

definition re_az :: "char \<Rightarrow> bool" where
  "re_az c \<longleftrightarrow> 97 \<le> (of_char c :: nat) \<and> (of_char c :: nat) \<le> 122"

definition re_az09 :: "char \<Rightarrow> bool" where
  "re_az09 c \<longleftrightarrow> re_az c \<or> is_digit c"

definition re_az09_dash :: "char \<Rightarrow> bool" where
  "re_az09_dash c \<longleftrightarrow> re_az09 c \<or> c = CHR ''-''"

definition uniqueRe :: "string \<Rightarrow> bool" where
  "uniqueRe = re_match [(re_az, 1, 1), (re_az09_dash, 1, 52), (re_az09, 1, 1)]"

text \<open>The error, if any; \<open>quote\<close> is the verb \<open>%q\<close> of package \<open>fmt\<close>.\<close>

definition ValidateUnique :: "(string \<Rightarrow> string) \<Rightarrow> string \<Rightarrow> string option" where
  "ValidateUnique quote s =
     (if \<not> uniqueRe s
      then Some (''invalid unique '' @ quote s @ '': must match ^[a-z][a-z0-9-]{1,52}[a-z0-9]$'')
      else None)"

definition TunnelLabel :: "string \<Rightarrow> string" where
  "TunnelLabel unique = unique @ ''-tunnel''"

section \<open>Streams and frames\<close>

record stream =
  s_in :: bytes
  s_out :: bytes
  s_cap :: "nat option"

text \<open>\<open>Write\<close>: success, and the stream afterwards.\<close>

definition stream_Write :: "stream \<Rightarrow> bytes \<Rightarrow> bool \<times> stream" where
  "stream_Write w p =
     (case s_cap w of
        None \<Rightarrow> (True, w\<lparr>s_out := s_out w @ p\<rparr>)
      | Some n \<Rightarrow>
          if length p \<le> n then (True, w\<lparr>s_out := s_out w @ p, s_cap := Some (n - length p)\<rparr>)
          else (False, w\<lparr>s_out := s_out w @ take n p, s_cap := Some 0\<rparr>))"

text \<open>\<open>io.ReadFull(r, buf)\<close> for a buffer of \<open>n\<close> bytes; a short read consumes what there is.\<close>

definition ReadFull :: "stream \<Rightarrow> nat \<Rightarrow> bytes option \<times> stream" where
  "ReadFull r n =
     (if n \<le> length (s_in r) then (Some (take n (s_in r)), r\<lparr>s_in := drop n (s_in r)\<rparr>)
      else (None, r\<lparr>s_in := []\<rparr>))"

datatype frame_err =
    EMarshal | ETooLarge nat | EWriteHeader | EWritePayload
  | EReadHeader | EEmptyFrame | EReadTooLarge nat | EReadPayload | EUnmarshal
  | EEmptyPayload | EDecode

text \<open>\<open>json.Marshal(f)\<close> of the envelope: \<open>payload\<close> is \<open>omitempty\<close> and embedded compacted.\<close>

definition Marshal_Frame :: "Frame \<Rightarrow> bytes option" where
  "Marshal_Frame f =
     (if f_Payload f = [] then Some (json_object [(''type'', json_string (f_Type f))])
      else (case json_compact (f_Payload f) of
              None \<Rightarrow> None
            | Some raw \<Rightarrow> Some (json_object [(''type'', json_string (f_Type f)), (''payload'', raw)])))"

definition Unmarshal_Frame :: "bytes \<Rightarrow> Frame option" where
  "Unmarshal_Frame = json_Unmarshal [''type'', ''payload'']
     (\<lambda>f raw r.
        if f = ''type'' then json_to_string (\<lambda>v. r\<lparr>f_Type := v\<rparr>) raw r
        else Some (r\<lparr>f_Payload := raw\<rparr>))
     \<lparr>f_Type = [], f_Payload = []\<rparr>"

definition WriteFrame :: "stream \<Rightarrow> Frame \<Rightarrow> frame_err option \<times> stream" where
  "WriteFrame w f =
     (case Marshal_Frame f of
        None \<Rightarrow> (Some EMarshal, w)
      | Some payload \<Rightarrow>
          if length payload > MaxFrameBytes then (Some (ETooLarge (length payload)), w)
          else
            (let (ok, w1) = stream_Write w (PutUint32 (length payload)) in
             if \<not> ok then (Some EWriteHeader, w1)
             else
               (let (ok, w2) = stream_Write w1 payload in
                if \<not> ok then (Some EWritePayload, w2) else (None, w2))))"

definition ReadFrame :: "stream \<Rightarrow> (frame_err + Frame) \<times> stream" where
  "ReadFrame r =
     (case ReadFull r 4 of
        (None, r1) \<Rightarrow> (Inl EReadHeader, r1)
      | (Some hdr, r1) \<Rightarrow>
          (let n = Uint32 hdr in
           if n = 0 then (Inl EEmptyFrame, r1)
           else if n > MaxFrameBytes then (Inl (EReadTooLarge n), r1)
           else
             (case ReadFull r1 n of
                (None, r2) \<Rightarrow> (Inl EReadPayload, r2)
              | (Some buf, r2) \<Rightarrow>
                  (case Unmarshal_Frame buf of
                     None \<Rightarrow> (Inl EUnmarshal, r2)
                   | Some f \<Rightarrow> (Inr f, r2)))))"

definition WriteMessage :: "stream \<Rightarrow> Kind \<Rightarrow> message \<Rightarrow> frame_err option \<times> stream" where
  "WriteMessage w k payload = WriteFrame w \<lparr>f_Type = k, f_Payload = json_Marshal payload\<rparr>"

text \<open>\<open>DecodePayload(f, &v)\<close>, with the decoder of \<open>v\<close>'s struct type as argument.\<close>

definition DecodePayload :: "(bytes \<Rightarrow> 'a option) \<Rightarrow> Frame \<Rightarrow> frame_err + 'a" where
  "DecodePayload unmarshal f =
     (if f_Payload f = [] then Inl EEmptyPayload
      else (case unmarshal (f_Payload f) of None \<Rightarrow> Inl EDecode | Some v \<Rightarrow> Inr v))"

section \<open>Well-formed messages\<close>

text \<open>
  The kind each message travels under, the decoder a receiver uses for it, and the values a Go
  struct of that type can hold without loss in JSON: strings are valid UTF-8, integers fit
  \<open>int64\<close>.
\<close>

fun kind_of :: "message \<Rightarrow> Kind" where
  "kind_of (MRegister _) = KindRegister"
| "kind_of (MRegisterOK _) = KindRegisterOK"
| "kind_of (MChallenge _) = KindChallenge"
| "kind_of (MProof _) = KindProof"
| "kind_of (MDeny _) = KindDeny"
| "kind_of (MDeregister _) = KindDeregister"
| "kind_of MDeregisterOK = KindDeregisterOK"

fun decode_like :: "message \<Rightarrow> bytes \<Rightarrow> message option" where
  "decode_like (MRegister _) raw = map_option MRegister (Unmarshal_Register raw)"
| "decode_like (MRegisterOK _) raw = map_option MRegisterOK (Unmarshal_RegisterOK raw)"
| "decode_like (MChallenge _) raw = map_option MChallenge (Unmarshal_Challenge raw)"
| "decode_like (MProof _) raw = map_option MProof (Unmarshal_Proof raw)"
| "decode_like (MDeny _) raw = map_option MDeny (Unmarshal_Deny raw)"
| "decode_like (MDeregister _) raw = map_option MDeregister (Unmarshal_Deregister raw)"
| "decode_like MDeregisterOK raw = json_Unmarshal [] (\<lambda>_ _ m. Some m) MDeregisterOK raw"

abbreviation int64 :: "int \<Rightarrow> bool" where
  "int64 n \<equiv> - (2 ^ 63) \<le> n \<and> n < 2 ^ 63"

fun msg_wf :: "message \<Rightarrow> bool" where
  "msg_wf (MRegister r) \<longleftrightarrow> int64 (r_Version r) \<and> int64 (r_Timestamp r)
     \<and> valid_utf8 (r_Unique r) \<and> valid_utf8 (r_Pubkey r) \<and> valid_utf8 (r_Sig r)"
| "msg_wf (MRegisterOK r) \<longleftrightarrow> valid_utf8 (rok_Hostname r)"
| "msg_wf (MChallenge c) \<longleftrightarrow> valid_utf8 (c_Nonce c)"
| "msg_wf (MProof p) \<longleftrightarrow> valid_utf8 (p_Sig p)"
| "msg_wf (MDeny d) \<longleftrightarrow> valid_utf8 (d_Reason d) \<and> int64 (d_RetryAfterSec d)"
| "msg_wf (MDeregister d) \<longleftrightarrow> valid_utf8 (dr_Unique d) \<and> int64 (dr_Timestamp d) \<and> valid_utf8 (dr_Sig d)"
| "msg_wf MDeregisterOK \<longleftrightarrow> True"

text \<open>The bytes of one frame, and a stream on which nothing has happened yet.\<close>

definition frame_bytes :: "message \<Rightarrow> bytes" where
  "frame_bytes m =
     (let p = json_object [(''type'', json_string (kind_of m)), (''payload'', json_Marshal m)]
      in PutUint32 (length p) @ p)"

definition empty_stream :: stream where
  "empty_stream = \<lparr>s_in = [], s_out = [], s_cap = None\<rparr>"

section \<open>Messages survive the wire\<close>

lemma json_Marshal_text: "\<exists>j. json_text 1 j (json_Marshal m)"
proof -
  have t: "\<exists>j. json_text 0 j (json_string s)" "\<exists>j. json_text 0 j (Itoa n)" for s n
    using json_text_string json_text_int by blast+
  have *: "\<exists>j. json_text 1 j (json_object ms)" if "\<forall>(k, v)\<in>set ms. \<exists>j. json_text 0 j v" for ms
    using json_text_object [OF that] by auto
  show ?thesis
    by (cases m; simp only: json_Marshal.simps; rule *) (simp_all add: t)
qed

lemma json_Marshal_compact: "compact_ok (json_Marshal m)"
  by (cases m) (auto intro!: compact_ok_object compact_ok_string compact_ok_Itoa)

lemma json_Marshal_nonempty: "2 \<le> length (json_Marshal m)" "json_Marshal m \<noteq> []"
  by (cases m; simp add: json_object_def)+

lemma Marshal_message_frame:
  "Marshal_Frame \<lparr>f_Type = k, f_Payload = json_Marshal m\<rparr>
     = Some (json_object [(''type'', json_string k), (''payload'', json_Marshal m)])"
proof -
  obtain j where "json_text 1 j (json_Marshal m)" using json_Marshal_text by blast
  then have "json_compact (json_Marshal m) = Some (json_Marshal m)"
    using json_Marshal_nonempty [of m]
    by (intro json_compact_id [OF json_Marshal_compact, of 1 j]) (auto simp: maxNestingDepth_def)
  then show ?thesis using json_Marshal_nonempty by (simp add: Marshal_Frame_def)
qed

lemma is_ascii_lit:
  "is_ascii [] = True" "is_ascii (c # s) = ((of_char c :: nat) < 128 \<and> is_ascii s)"
  by (simp_all add: is_ascii_def)

lemma Unmarshal_message_frame:
  "Unmarshal_Frame (json_object [(''type'', json_string k), (''payload'', json_Marshal m)])
     = Some \<lparr>f_Type = ToValidUTF8 k, f_Payload = json_Marshal m\<rparr>"
proof -
  have "\<exists>j. json_text 1 j (json_string k)" using json_text_string [of k] by (auto simp: json_text_def)
  then have "\<forall>(k, v)\<in>set [(''type'', json_string k), (''payload'', json_Marshal m)]. is_ascii k \<and> (\<exists>j. json_text 1 j v)"
    using json_Marshal_text [of m] by (simp add: is_ascii_lit)
  then show ?thesis
    by (simp add: Unmarshal_Frame_def json_Unmarshal_object [where n = 1] maxNestingDepth_def json_field_def
        json_to_string_string)
qed

lemmas unmarshal_defs = Unmarshal_Register_def Unmarshal_RegisterOK_def Unmarshal_Challenge_def
  Unmarshal_Proof_def Unmarshal_Deny_def Unmarshal_Deregister_def

lemma decode_like_Marshal:
  assumes "msg_wf m"
  shows "decode_like m (json_Marshal m) = Some m"
proof -
  have t: "\<exists>j. json_text 0 j (json_string s)" "\<exists>j. json_text 0 j (Itoa n)" for s n
    using json_text_string json_text_int by blast+
  show ?thesis
    using assms
    by (cases m) (simp_all add: unmarshal_defs json_Unmarshal_object [where n = 0] maxNestingDepth_def t is_ascii_lit
        json_field_def json_to_string_string json_to_int_Itoa ToValidUTF8_valid zero_Register_def)
qed

lemma stream_Write_ok: "stream_Write w p = (True, w') \<Longrightarrow> s_out w' = s_out w @ p \<and> s_in w' = s_in w"
  by (auto simp: stream_Write_def split: option.splits if_splits)

lemma stream_Write_prefix:
  "\<exists>k. s_out (snd (stream_Write w p)) = s_out w @ take k p \<and> s_in (snd (stream_Write w p)) = s_in w
     \<and> (fst (stream_Write w p) \<longleftrightarrow> k = length p) \<and> k \<le> length p"
  by (auto simp: stream_Write_def split: option.splits intro: exI [of _ "length p"])

lemma ReadFull_split:
  "ReadFull r n = (res, r') \<Longrightarrow> \<exists>used. s_in r = used @ s_in r' \<and> s_out r' = s_out r \<and> s_cap r' = s_cap r
     \<and> length used \<le> n \<and> (\<forall>b. res = Some b \<longrightarrow> b = used \<and> length b = n)"
  by (auto simp: ReadFull_def split: if_splits intro: exI [of _ "take n (s_in r)"])

lemma WriteMessage_cases:
  "WriteMessage w (kind_of m) m = (e, w') \<Longrightarrow>
     (e = None \<longrightarrow> length (frame_bytes m) \<le> MaxFrameBytes + 4 \<and> s_out w' = s_out w @ frame_bytes m)
     \<and> (e \<noteq> None \<longrightarrow> (\<exists>k < length (frame_bytes m). s_out w' = s_out w @ take k (frame_bytes m)))
     \<and> (s_cap w = None \<longrightarrow> (e = None \<longleftrightarrow> length (frame_bytes m) \<le> MaxFrameBytes + 4))
     \<and> s_in w' = s_in w"
proof -
  let ?p = "json_object [(''type'', json_string (kind_of m)), (''payload'', json_Marshal m)]"
  let ?h = "PutUint32 (length ?p)"
  assume W: "WriteMessage w (kind_of m) m = (e, w')"
  have fb: "frame_bytes m = ?h @ ?p" by (simp add: frame_bytes_def Let_def)
  have ne: "?p \<noteq> []" by (simp add: json_object_def)
  show ?thesis
  proof (cases "length ?p > MaxFrameBytes")
    case True
    then show ?thesis using W ne
      by (auto simp: WriteMessage_def WriteFrame_def Marshal_message_frame fb intro: exI [of _ 0])
  next
    case False
    obtain ok1 w1 where 1: "stream_Write w ?h = (ok1, w1)" by fastforce
    obtain ok2 w2 where 2: "stream_Write w1 ?p = (ok2, w2)" by fastforce
    have E: "(e, w') = (if \<not> ok1 then (Some EWriteHeader, w1) else if \<not> ok2 then (Some EWritePayload, w2) else (None, w2))"
      using W False 1 2 by (auto simp: WriteMessage_def WriteFrame_def Marshal_message_frame split: if_splits)
    obtain k1 where k1: "s_out w1 = s_out w @ take k1 ?h" "s_in w1 = s_in w" "ok1 \<longleftrightarrow> k1 = 4" "k1 \<le> 4"
      using stream_Write_prefix [of w ?h] 1 by auto
    obtain k2 where k2: "s_out w2 = s_out w1 @ take k2 ?p" "s_in w2 = s_in w1" "ok2 \<longleftrightarrow> k2 = length ?p" "k2 \<le> length ?p"
      using stream_Write_prefix [of w1 ?p] 2 by auto
    have cap: "s_cap w = None \<longrightarrow> ok1 \<and> ok2" using 1 2 by (auto simp: stream_Write_def)
    consider "\<not> ok1" | "ok1" "\<not> ok2" | "ok1" "ok2" by blast
    then show ?thesis
    proof cases
      case 1
      then show ?thesis using E k1 cap by (auto simp: fb intro!: exI [of _ k1])
    next
      case 2
      then show ?thesis using E k1 k2 cap by (auto simp: fb intro!: exI [of _ "4 + k2"])
    next
      case 3
      then show ?thesis using E k1 k2 False by (auto simp: fb)
    qed
  qed
qed

lemma ReadFrame_frame_bytes:
  assumes "length (frame_bytes m) \<le> MaxFrameBytes + 4" "s_in r = frame_bytes m @ rest"
  shows "ReadFrame r = (Inr \<lparr>f_Type = kind_of m, f_Payload = json_Marshal m\<rparr>, r\<lparr>s_in := rest\<rparr>)"
proof -
  let ?p = "json_object [(''type'', json_string (kind_of m)), (''payload'', json_Marshal m)]"
  have fb: "frame_bytes m = PutUint32 (length ?p) @ ?p" by (simp add: frame_bytes_def Let_def)
  have u: "Uint32 (PutUint32 (length ?p)) = length ?p"
    using Uint32_PutUint32 [of "length ?p" "[]"] assms(1) by (simp add: fb MaxFrameBytes_def)
  have k: "ToValidUTF8 (kind_of m) = kind_of m"
    by (rule ToValidUTF8_ascii)
      (cases m; simp add: is_ascii_lit KindRegister_def KindRegisterOK_def KindChallenge_def KindProof_def
        KindDeny_def KindDeregister_def KindDeregisterOK_def)
  have "?p \<noteq> []" by (simp add: json_object_def)
  with u k assms show ?thesis
    by (simp add: ReadFrame_def ReadFull_def fb Unmarshal_message_frame)
qed

lemma ReadFrame_truncated:
  assumes "length (frame_bytes m) \<le> MaxFrameBytes + 4" "k < length (frame_bytes m)" "s_in r = take k (frame_bytes m)"
  shows "fst (ReadFrame r) = Inl (if k < 4 then EReadHeader else EReadPayload)"
proof -
  let ?p = "json_object [(''type'', json_string (kind_of m)), (''payload'', json_Marshal m)]"
  have fb: "frame_bytes m = PutUint32 (length ?p) @ ?p" by (simp add: frame_bytes_def Let_def)
  have u: "Uint32 (PutUint32 (length ?p)) = length ?p"
    using Uint32_PutUint32 [of "length ?p" "[]"] assms(1) by (simp add: fb MaxFrameBytes_def)
  have "?p \<noteq> []" by (simp add: json_object_def)
  with u assms show ?thesis
    by (auto simp: ReadFrame_def ReadFull_def fb Let_def)
qed

lemma json_esc_Nil: "json_esc [] = []"
  by (simp add: json_esc.simps)

lemma json_esc_ascii: "(of_char c :: nat) < 128 \<Longrightarrow> json_esc (c # cs) = json_ascii c @ json_esc cs"
  by (subst json_esc.simps) simp

text \<open>
  C14: message round trip.  If \<open>WriteMessage\<close> of a well-formed message reports success, on whatever
  writer, the bytes it appended are one frame of at most \<open>MaxFrameBytes + 4\<close> bytes; a reader that
  is given these bytes, with anything behind them, gets the same kind and decodes the same
  message, and leaves exactly the rest unread; a reader that is given only a proper prefix gets
  an error, never another message.
\<close>

theorem message_roundtrip:
  assumes "msg_wf m" "WriteMessage w (kind_of m) m = (None, w')"
  shows "\<exists>bs. s_out w' = s_out w @ bs \<and> length bs \<le> MaxFrameBytes + 4
    \<and> (\<forall>r rest. s_in r = bs @ rest \<longrightarrow>
         (\<exists>f. ReadFrame r = (Inr f, r\<lparr>s_in := rest\<rparr>) \<and> f_Type f = kind_of m
              \<and> DecodePayload (decode_like m) f = Inr m))
    \<and> (\<forall>r k. k < length bs \<and> s_in r = take k bs \<longrightarrow> (\<exists>e. fst (ReadFrame r) = Inl e))"
proof -
  have w: "s_out w' = s_out w @ frame_bytes m" and le: "length (frame_bytes m) \<le> MaxFrameBytes + 4"
    using WriteMessage_cases [OF assms(2)] by simp_all
  have dec: "DecodePayload (decode_like m) \<lparr>f_Type = kind_of m, f_Payload = json_Marshal m\<rparr> = Inr m"
    using decode_like_Marshal [OF assms(1)] json_Marshal_nonempty(2) by (simp add: DecodePayload_def)
  show ?thesis
    using w le dec ReadFrame_frame_bytes [OF le] ReadFrame_truncated [OF le]
    by (intro exI [of _ "frame_bytes m"]) auto
qed

theorem message_roundtrip_witness:
  "\<exists>w'. WriteMessage empty_stream KindDeny (MDeny \<lparr>d_Reason = ''bad sig'', d_RetryAfterSec = 0\<rparr>) = (None, w')
     \<and> (\<exists>f. ReadFrame (w'\<lparr>s_in := s_out w'\<rparr>) = (Inr f, w'\<lparr>s_in := []\<rparr>) \<and> f_Type f = KindDeny)"
proof -
  let ?m = "MDeny \<lparr>d_Reason = ''bad sig'', d_RetryAfterSec = 0\<rparr>"
  obtain e w' where W: "WriteMessage empty_stream (kind_of ?m) ?m = (e, w')" by fastforce
  have "length (frame_bytes ?m) \<le> MaxFrameBytes + 4"
    by (simp add: frame_bytes_def json_object_def json_member_def json_string_def json_esc_ascii json_esc_Nil
        json_ascii_def KindDeny_def MaxFrameBytes_def Let_def)
  then have e: "e = None" using WriteMessage_cases [OF W] by (simp add: empty_stream_def)
  have wf: "msg_wf ?m" by (simp add: valid_utf8_ascii is_ascii_lit)
  obtain bs where bs: "s_out w' = s_out empty_stream @ bs"
    "\<forall>r rest. s_in r = bs @ rest \<longrightarrow> (\<exists>f. ReadFrame r = (Inr f, r\<lparr>s_in := rest\<rparr>) \<and> f_Type f = kind_of ?m)"
    using message_roundtrip [OF wf W [unfolded e]] by blast
  have "\<exists>f. ReadFrame (w'\<lparr>s_in := s_out w'\<rparr>) = (Inr f, w'\<lparr>s_in := s_out w', s_in := []\<rparr>) \<and> f_Type f = kind_of ?m"
    using bs(2) [rule_format, of "w'\<lparr>s_in := s_out w'\<rparr>" "[]"] bs(1) by (simp add: empty_stream_def)
  then show ?thesis using W e by simp
qed

text \<open>
  Reading is bounded.  \<open>ReadFrame\<close> consumes a prefix of what the peer sent of at most
  \<open>MaxFrameBytes + 4\<close> bytes, writes nothing, and reads no more than the four header bytes when
  the announced length is \<open>0\<close> or exceeds the maximum; a frame that is returned was announced with
  exactly the length that was read.
\<close>

theorem ReadFrame_bounded:
  "\<exists>used. s_in r = used @ s_in (snd (ReadFrame r)) \<and> length used \<le> 4 + MaxFrameBytes
     \<and> s_out (snd (ReadFrame r)) = s_out r
     \<and> (4 \<le> length (s_in r) \<and> (Uint32 (s_in r) = 0 \<or> MaxFrameBytes < Uint32 (s_in r)) \<longrightarrow>
          length used = 4 \<and> (\<exists>e. fst (ReadFrame r) = Inl e))
     \<and> (\<forall>f. fst (ReadFrame r) = Inr f \<longrightarrow> length used = 4 + Uint32 (s_in r))"
proof (cases "4 \<le> length (s_in r)")
  case False
  then show ?thesis by (auto simp: ReadFrame_def ReadFull_def intro!: exI [of _ "s_in r"])
next
  case True
  let ?n = "Uint32 (s_in r)"
  have n: "Uint32 (take 4 (s_in r)) = ?n" by (simp add: Uint32_def)
  consider "?n = 0 \<or> MaxFrameBytes < ?n" | "0 < ?n" "?n \<le> MaxFrameBytes" "?n \<le> length (s_in r) - 4"
    | "0 < ?n" "?n \<le> MaxFrameBytes" "\<not> ?n \<le> length (s_in r) - 4" by linarith
  then show ?thesis
  proof cases
    case 1
    then show ?thesis using True n by (auto simp: ReadFrame_def ReadFull_def intro!: exI [of _ "take 4 (s_in r)"])
  next
    case 2
    then show ?thesis using True n
      by (auto simp: ReadFrame_def ReadFull_def Let_def add.commute intro!: exI [of _ "take (4 + ?n) (s_in r)"]
          split: option.splits)
  next
    case 3
    then show ?thesis using True n by (auto simp: ReadFrame_def ReadFull_def intro!: exI [of _ "s_in r"])
  qed
qed

theorem ReadFrame_bounded_witness:
  "let r = \<lparr>s_in = [CHR 0xFF, CHR 0xFF, CHR 0xFF, CHR 0xFF, CHR ''x''], s_out = [], s_cap = None\<rparr>
   in (\<exists>e. fst (ReadFrame r) = Inl e) \<and> s_in (snd (ReadFrame r)) = ''x''"
proof -
  let ?r = "\<lparr>s_in = [CHR 0xFF, CHR 0xFF, CHR 0xFF, CHR 0xFF, CHR ''x''], s_out = [], s_cap = None\<rparr> :: stream"
  have "MaxFrameBytes < Uint32 (s_in ?r)" by (simp add: MaxFrameBytes_def Uint32_def be_val_def)
  then obtain used where "s_in ?r = used @ s_in (snd (ReadFrame ?r))" "length used = 4" "\<exists>e. fst (ReadFrame ?r) = Inl e"
    using ReadFrame_bounded [of ?r] by auto
  then show ?thesis by (auto simp: Let_def length_Suc_conv numeral_eq_Suc)
qed

section \<open>Signatures and names\<close>

lemma domains_differ:
  "domainRegister @ x \<noteq> domainProof @ y" "domainRegister @ x \<noteq> domainDeregister @ y" "domainProof @ x \<noteq> domainDeregister @ y"
  by (simp_all add: domainRegister_def domainProof_def domainDeregister_def)

text \<open>
  C23: signed payloads are unambiguous.  No byte string is a signing payload for two of the
  three purposes, whatever the fields are; a Register payload determines its pubkey, unique and
  timestamp, a Deregister payload its unique and timestamp, a Proof payload its nonce.  So a
  signature made for one request never verifies for a different one.
\<close>

theorem signing_payloads_unambiguous:
  assumes "length p = 32" "length p' = 32" "int64 t" "int64 t'"
  shows "RegisterSigningPayload p u t \<noteq> ProofSigningPayload n
    \<and> RegisterSigningPayload p u t \<noteq> DeregisterSigningPayload u' t'
    \<and> ProofSigningPayload n \<noteq> DeregisterSigningPayload u' t'
    \<and> (RegisterSigningPayload p u t = RegisterSigningPayload p' u' t' \<longleftrightarrow> p = p' \<and> u = u' \<and> t = t')
    \<and> (DeregisterSigningPayload u t = DeregisterSigningPayload u' t' \<longleftrightarrow> u = u' \<and> t = t')
    \<and> (ProofSigningPayload n = ProofSigningPayload n' \<longleftrightarrow> n = n')"
proof -
  have "u @ PutUint64 t = u' @ PutUint64 t' \<longleftrightarrow> u = u' \<and> t = t'"
    using PutUint64_inj [of t t'] assms(3,4) by (auto simp: append_eq_append_conv)
  then show ?thesis
    using assms(1,2) domains_differ
    by (auto simp: RegisterSigningPayload_def ProofSigningPayload_def DeregisterSigningPayload_def)
qed

theorem signing_payloads_unambiguous_witness:
  "RegisterSigningPayload (replicate 32 CHR ''k'') ''abc'' 5 \<noteq> DeregisterSigningPayload ''abc'' 5
   \<and> RegisterSigningPayload (replicate 32 CHR ''k'') ''abc'' 5 \<noteq> RegisterSigningPayload (replicate 32 CHR ''k'') ''abd'' 5"
proof -
  note t = signing_payloads_unambiguous [of "replicate 32 CHR ''k''" "replicate 32 CHR ''k''" 5 5]
  from t [of "''abc''" "[]" "''abc''"] t [of "''abc''" "[]" "''abd''"] show ?thesis by simp
qed

lemma re_match_single:
  "re_match ((p, 1, 1) # re) s \<longleftrightarrow> (case s of [] \<Rightarrow> False | c # t \<Rightarrow> p c \<and> re_match re t)"
  by (cases s) auto

lemma uniqueRe_iff:
  "uniqueRe s \<longleftrightarrow> 3 \<le> length s \<and> length s \<le> 54 \<and> re_az (hd s) \<and> re_az09 (last s) \<and> list_all re_az09_dash s"
proof -
  have sub: "re_az c \<Longrightarrow> re_az09_dash c" "re_az09 c \<Longrightarrow> re_az09_dash c" for c
    by (simp_all add: re_az09_dash_def re_az09_def)
  have mid: "re_match [(re_az09_dash, 1, 52), (re_az09, 1, 1)] t
     \<longleftrightarrow> 2 \<le> length t \<and> length t \<le> 53 \<and> re_az09 (last t) \<and> list_all re_az09_dash (butlast t)" (is "?l \<longleftrightarrow> ?r") for t
  proof
    assume ?l
    then obtain n where n: "1 \<le> n" "n \<le> 52" "n \<le> length t" "list_all re_az09_dash (take n t)"
      "re_match [(re_az09, 1, 1)] (drop n t)" by (auto simp: list_ex_iff)
    then obtain c where c: "drop n t = [c]" "re_az09 c"
      unfolding re_match_single by (auto split: list.splits)
    then have t: "t = take n t @ [c]" by (metis append_take_drop_id)
    have "length t = Suc n" using n(3) c(1) by (metis length_drop length_Cons list.size(3) le_add_diff_inverse plus_1_eq_Suc add.commute One_nat_def)
    moreover have "last t = c" "butlast t = take n t" using t by (metis last_snoc, metis butlast_snoc)
    ultimately show ?r using n c by simp
  next
    assume r: ?r
    then have t: "t = butlast t @ [last t]" by (cases t rule: rev_cases) auto
    let ?n = "length (butlast t)"
    have "take ?n t = butlast t" "drop ?n t = [last t]" using t by (metis append_eq_conv_conj)+
    then show ?l using r unfolding re_match.simps(2) [of re_az09_dash 1 52]
      by (intro list_ex_iff [THEN iffD2] bexI [of _ ?n]) (auto simp: re_match_single)
  qed
  show ?thesis
  proof (cases s)
    case (Cons a t)
    have "list_all re_az09_dash t \<longleftrightarrow> list_all re_az09_dash (butlast t) \<and> re_az09_dash (last t)" if "t \<noteq> []"
      using that by (cases t rule: rev_cases) auto
    moreover have "uniqueRe (a # t) \<longleftrightarrow> re_az a \<and> re_match [(re_az09_dash, 1, 52), (re_az09, 1, 1)] t"
      unfolding uniqueRe_def re_match_single by simp
    ultimately show ?thesis unfolding Cons mid using sub by auto
  qed (simp add: uniqueRe_def)
qed

lemma re_az09_dash_char:
  "re_az09_dash c \<Longrightarrow> c \<noteq> CHR ''.'' \<and> c \<noteq> CHR '':'' \<and> (of_char c :: nat) < 128 \<and> ascii_lower c = c"
  by (auto simp: re_az09_dash_def re_az09_def re_az_def is_digit_def ascii_lower_def)

lemma dash_chars:
  assumes "list_all re_az09_dash s"
  shows "CHR ''.'' \<notin> set s \<and> CHR '':'' \<notin> set s \<and> is_ascii s \<and> ToLower uni s = s"
proof -
  have "map ascii_lower s = s" using assms re_az09_dash_char by (induction s) auto
  moreover have "is_ascii s" using assms re_az09_dash_char by (auto simp: is_ascii_def list_all_iff)
  ultimately show ?thesis using assms re_az09_dash_char by (auto simp: ToLower_def list_all_iff)
qed

text \<open>
  The shape of a unique.  \<open>ValidateUnique\<close> accepts exactly the names of 3 to 54 lower-case
  letters, digits and dashes that start with a letter and do not end with a dash; then the tunnel
  label is a valid DNS label: at most 63 characters, no dot, no upper-case letter, and it
  determines the unique.
\<close>

theorem ValidateUnique_label:
  "(ValidateUnique quote u = None \<longleftrightarrow>
      3 \<le> length u \<and> length u \<le> 54 \<and> re_az (hd u) \<and> re_az09 (last u) \<and> list_all re_az09_dash u)
   \<and> (ValidateUnique quote u = None \<longrightarrow>
      length (TunnelLabel u) \<le> 63 \<and> CHR ''.'' \<notin> set (TunnelLabel u) \<and> CHR '':'' \<notin> set (TunnelLabel u)
      \<and> ToLower uni (TunnelLabel u) = TunnelLabel u)
   \<and> (TunnelLabel u = TunnelLabel u' \<longleftrightarrow> u = u')"
proof -
  have "ValidateUnique quote u = None \<Longrightarrow> list_all re_az09_dash (TunnelLabel u) \<and> length u \<le> 54"
    by (simp add: ValidateUnique_def uniqueRe_iff TunnelLabel_def re_az09_dash_def re_az09_def re_az_def split: if_splits)
  then have "ValidateUnique quote u = None \<Longrightarrow>
      length (TunnelLabel u) \<le> 63 \<and> CHR ''.'' \<notin> set (TunnelLabel u) \<and> CHR '':'' \<notin> set (TunnelLabel u)
      \<and> ToLower uni (TunnelLabel u) = TunnelLabel u"
    using dash_chars [of "TunnelLabel u"] by (simp add: TunnelLabel_def)
  then show ?thesis by (simp add: ValidateUnique_def uniqueRe_iff TunnelLabel_def)
qed

theorem ValidateUnique_label_witness:
  "ValidateUnique id ''my-app'' = None \<and> length (TunnelLabel ''my-app'') \<le> 63
   \<and> ToLower id (TunnelLabel ''my-app'') = TunnelLabel ''my-app''"
proof -
  have "ValidateUnique id ''my-app'' = None" by code_simp
  with ValidateUnique_label [of id "''my-app''" id "''my-app''"] show ?thesis by simp
qed

section \<open>Facts for the users of the protocol\<close>

lemma WriteFrame_in [simp]: "s_in (snd (WriteFrame w f)) = s_in w"
  by (auto simp: WriteFrame_def stream_Write_def Let_def split: option.splits)

lemma WriteMessage_in [simp]: "s_in (snd (WriteMessage w k m)) = s_in w"
  by (simp add: WriteMessage_def)

lemma ReadFrame_consumes:
  "ReadFrame st = (Inr f, st') \<Longrightarrow> length (s_in st') < length (s_in st)"
  by (auto simp: ReadFrame_def ReadFull_def Let_def split: if_splits option.splits)

lemma length_json_ascii: "length (json_ascii c) \<le> 6"
  by (simp add: json_ascii_def Let_def)

lemma length_json_esc: "length (json_esc s) \<le> 6 * length s"
proof (induction s rule: json_esc.induct)
  case (1 s)
  show ?case
  proof (cases s)
    case (Cons c cs)
    show ?thesis
    proof (cases "(of_char c :: nat) < 128")
      case True
      then show ?thesis using 1(1) [OF Cons True] length_json_ascii [of c] Cons by (simp add: json_esc_ascii)
    next
      case False
      have d: "utf8_len s \<le> length s" by (rule utf8_len_le)
      show ?thesis
      proof (cases "utf8_len s = 0 \<or> line_sep s")
        case True
        then show ?thesis using 1(2,3) [OF Cons False] False Cons line_sep_len [of s] d
          by (subst json_esc.simps) (auto simp: json_line_sep_def)
      next
        case F: False
        then show ?thesis using 1(4) [OF Cons False] False Cons d
          by (subst json_esc.simps) (auto simp: min_def)
      qed
    qed
  qed (simp add: json_esc_Nil)
qed

lemma length_json_string: "length (json_string s) \<le> 6 * length s + 2"
  using length_json_esc [of s] by (simp add: json_string_def)

lemma length_nat_digits: "n < 10 ^ k \<Longrightarrow> 0 < k \<Longrightarrow> length (nat_digits n) \<le> k"
proof (induction k arbitrary: n)
  case (Suc k)
  show ?case
  proof (cases "n < 10")
    case True
    then show ?thesis by (subst nat_digits.simps) simp
  next
    case False
    then have "0 < k" using Suc.prems by (cases k) auto
    moreover have "n div 10 < 10 ^ k" using Suc.prems by (simp add: less_mult_imp_div_less mult.commute)
    ultimately show ?thesis using Suc.IH [of "n div 10"] False by (subst nat_digits.simps) simp
  qed
qed simp

lemma length_Itoa:
  assumes "int64 n"
  shows "length (Itoa n) \<le> 20"
proof -
  have "nat (- n) < 10 ^ 19" "nat n < 10 ^ 19" using assms by (simp_all, linarith+)
  then show ?thesis
    using length_nat_digits [of "nat (- n)" 19] length_nat_digits [of "nat n" 19] by (simp add: Itoa_def)
qed

lemma is_ascii_graph: "list_all graph_char s \<Longrightarrow> is_ascii s"
  by (auto simp: is_ascii_def graph_char_def list_all_iff)

lemma EncodeToString_ascii: "is_ascii (EncodeToString b)"
  by (intro is_ascii_graph list.pred_mono_strong [OF EncodeToString_graph]) simp

lemma DecodePayload_Marshal:
  "unmarshal (json_Marshal m) = Some v \<Longrightarrow> DecodePayload unmarshal \<lparr>f_Type = k, f_Payload = json_Marshal m\<rparr> = Inr v"
  using json_Marshal_nonempty [of m] by (simp add: DecodePayload_def)

lemma DecodePayload_msgs:
  "msg_wf (MRegister r) \<Longrightarrow> DecodePayload Unmarshal_Register \<lparr>f_Type = k, f_Payload = json_Marshal (MRegister r)\<rparr> = Inr r"
  "msg_wf (MProof p) \<Longrightarrow> DecodePayload Unmarshal_Proof \<lparr>f_Type = k, f_Payload = json_Marshal (MProof p)\<rparr> = Inr p"
  "msg_wf (MDeregister d) \<Longrightarrow> DecodePayload Unmarshal_Deregister \<lparr>f_Type = k, f_Payload = json_Marshal (MDeregister d)\<rparr> = Inr d"
  "msg_wf (MRegisterOK o') \<Longrightarrow> DecodePayload Unmarshal_RegisterOK \<lparr>f_Type = k, f_Payload = json_Marshal (MRegisterOK o')\<rparr> = Inr o'"
  "msg_wf (MChallenge c) \<Longrightarrow> DecodePayload Unmarshal_Challenge \<lparr>f_Type = k, f_Payload = json_Marshal (MChallenge c)\<rparr> = Inr c"
  "msg_wf (MDeny d') \<Longrightarrow> DecodePayload Unmarshal_Deny \<lparr>f_Type = k, f_Payload = json_Marshal (MDeny d')\<rparr> = Inr d'"
  using decode_like_Marshal [of "MRegister r"] decode_like_Marshal [of "MProof p"] decode_like_Marshal [of "MDeregister d"]
    decode_like_Marshal [of "MRegisterOK o'"] decode_like_Marshal [of "MChallenge c"] decode_like_Marshal [of "MDeny d'"]
  by (auto simp del: json_Marshal.simps intro!: DecodePayload_Marshal)

lemma frame_bytes_Register_small:
  assumes "length (r_Unique r) \<le> 200" "length (r_Pubkey r) \<le> 200" "length (r_Sig r) \<le> 200"
    "int64 (r_Timestamp r)" "int64 (r_Version r)"
  shows "length (frame_bytes (MRegister r)) \<le> MaxFrameBytes + 4"
proof -
  note l = length_json_string [of "r_Unique r"] length_json_string [of "r_Pubkey r"] length_json_string [of "r_Sig r"]
    length_Itoa [OF assms(4)] length_Itoa [OF assms(5)]
  have k: "length (json_string s) = length s + 2" if "s \<in> {''type'', ''payload'', ''register'', ''version'', ''unique'', ''pubkey'', ''timestamp'', ''sig''}" for s
    using that by (auto simp: json_string_def json_esc_ascii json_esc_Nil json_ascii_def)
  show ?thesis
    using l assms(1-3) by (simp add: frame_bytes_def json_object_def json_member_def KindRegister_def MaxFrameBytes_def k)
qed
lemma ValidateUnique_shape:
  assumes "ValidateUnique quote u = None"
  shows "length u \<le> 54" "list_all re_az09_dash u"
  using assms uniqueRe_iff [of u] by (auto simp: ValidateUnique_def split: if_splits)

lemma ValidateUnique_ascii: "ValidateUnique quote u = None \<Longrightarrow> is_ascii u"
  using ValidateUnique_shape(2) [of quote u]
  by (fastforce simp: is_ascii_def list_all_iff re_az09_dash_def re_az09_def re_az_def is_digit_def)

lemma frame_bytes_Challenge_small: 
  "length nonce \<le> 64 \<Longrightarrow> length (frame_bytes (MChallenge \<lparr>c_Nonce = EncodeToString nonce\<rparr>)) \<le> MaxFrameBytes + 4"
  using length_json_string [of "EncodeToString nonce"] length_EncodeToString [of nonce]
  by (simp add: frame_bytes_def json_object_def json_member_def KindChallenge_def MaxFrameBytes_def
      json_string_def json_esc_ascii json_esc_Nil json_ascii_def)

lemma frame_bytes_Proof_small:
  "length sig \<le> 64 \<Longrightarrow> length (frame_bytes (MProof \<lparr>p_Sig = EncodeToString sig\<rparr>)) \<le> MaxFrameBytes + 4"
  using length_json_string [of "EncodeToString sig"] length_EncodeToString [of sig]
  by (simp add: frame_bytes_def json_object_def json_member_def KindProof_def MaxFrameBytes_def
      json_string_def json_esc_ascii json_esc_Nil json_ascii_def)

end
