(* ===== verification/Identity_Store.thy ===== *)
theory Identity_Store
  imports Go_Time "HOL-Library.List_Lexorder" "HOL-Library.Char_ord"
begin

text \<open>
  The ownership records (\<open>internal/identity/store.go\<close>): the SQL table \<open>identities\<close> with its primary
  key \<open>unique_name\<close>, and the operations of \<open>Store\<close> on it.  The table is a Go map from the key to
  the row.  Every operation takes the error the database driver may report (\<open>None\<close>: no fault); a
  statement that fails leaves the table as it was, which is SQLite's statement atomicity.

  The locale \<open>ownership\<close> states what the register handler relies on (the Go interface
  \<open>identityStore\<close>), and is interpreted on the model.
\<close>

section \<open>Rows and entries\<close>

record row =
  row_pubkey :: bytes
  row_created :: int
  row_last :: int

type_synonym Store = "(string, row) gomap"

record Entry =
  e_Unique :: string
  e_Pubkey :: bytes
  e_CreatedAt :: gotime
  e_LastSeenAt :: gotime

datatype store_err = ErrNotFound | ErrAlreadyExists | WrongSize nat | DBError string

definition PublicKeySize :: nat where
  "PublicKeySize = 32"

definition to_entry :: "string \<Rightarrow> row \<Rightarrow> Entry" where
  "to_entry u r = \<lparr>e_Unique = u, e_Pubkey = row_pubkey r, e_CreatedAt = time_Unix (row_created r),
     e_LastSeenAt = time_Unix (row_last r)\<rparr>"

section \<open>Operations\<close>

text \<open>\<open>migrate\<close>: create the table unless it exists.\<close>

definition migrate :: "string option \<Rightarrow> Store option \<Rightarrow> string + Store" where
  "migrate flt tbl =
     (case flt of Some e \<Rightarrow> Inl (''migrate: '' @ e)
      | None \<Rightarrow> Inr (case tbl of None \<Rightarrow> [] | Some t \<Rightarrow> t))"

definition Store_Get :: "string option \<Rightarrow> Store \<Rightarrow> string \<Rightarrow> store_err + Entry" where
  "Store_Get flt s unique =
     (case flt of
        Some e \<Rightarrow> Inl (DBError e)
      | None \<Rightarrow>
          (case map_of s unique of
             None \<Rightarrow> Inl ErrNotFound
           | Some r \<Rightarrow> Inr (to_entry unique r)))"

definition Store_Put ::
  "string option \<Rightarrow> Store \<Rightarrow> string \<Rightarrow> bytes \<Rightarrow> gotime \<Rightarrow> store_err option \<times> Store" where
  "Store_Put flt s unique pubkey now =
     (if length pubkey \<noteq> PublicKeySize then (Some (WrongSize (length pubkey)), s)
      else (case flt of
              Some e \<Rightarrow> (Some (DBError e), s)
            | None \<Rightarrow>
                if map_of s unique \<noteq> None then (Some ErrAlreadyExists, s)
                else (None, AList.update unique
                        \<lparr>row_pubkey = pubkey, row_created = Time_Unix now, row_last = Time_Unix now\<rparr> s)))"

text \<open>An \<open>UPDATE ... WHERE unique_name = ?\<close> that matches no row succeeds and changes nothing.\<close>

definition update_row :: "string \<Rightarrow> (row \<Rightarrow> row) \<Rightarrow> Store \<Rightarrow> Store" where
  "update_row u f s = (case map_of s u of None \<Rightarrow> s | Some r \<Rightarrow> AList.update u (f r) s)"

definition Store_Touch ::
  "string option \<Rightarrow> Store \<Rightarrow> string \<Rightarrow> gotime \<Rightarrow> store_err option \<times> Store" where
  "Store_Touch flt s unique now =
     (case flt of
        Some e \<Rightarrow> (Some (DBError e), s)
      | None \<Rightarrow> (None, update_row unique (\<lambda>r. r\<lparr>row_last := Time_Unix now\<rparr>) s))"

definition Store_Rotate ::
  "string option \<Rightarrow> Store \<Rightarrow> string \<Rightarrow> bytes \<Rightarrow> gotime \<Rightarrow> store_err option \<times> Store" where
  "Store_Rotate flt s unique newPubkey now =
     (if length newPubkey \<noteq> PublicKeySize then (Some (WrongSize (length newPubkey)), s)
      else (case flt of
              Some e \<Rightarrow> (Some (DBError e), s)
            | None \<Rightarrow>
                (None, update_row unique (\<lambda>r. r\<lparr>row_pubkey := newPubkey, row_last := Time_Unix now\<rparr>) s)))"

definition Store_Delete :: "string option \<Rightarrow> Store \<Rightarrow> string \<Rightarrow> store_err option \<times> Store" where
  "Store_Delete flt s unique =
     (case flt of
        Some e \<Rightarrow> (Some (DBError e), s)
      | None \<Rightarrow> (None, AList.delete unique s))"

text \<open>\<open>List\<close>: the rows ordered by name (byte order, SQLite's default collation).\<close>

definition Store_List :: "string option \<Rightarrow> Store \<Rightarrow> string + Entry list" where
  "Store_List flt s =
     (case flt of
        Some e \<Rightarrow> Inl (''list: '' @ e)
      | None \<Rightarrow> Inr (map (\<lambda>(u, r). to_entry u r) (sort_key fst s)))"

section \<open>Invariant and histories\<close>

definition store_inv :: "Store \<Rightarrow> bool" where
  "store_inv s \<longleftrightarrow> gomap_wf s \<and> (\<forall>u r. map_of s u = Some r \<longrightarrow> length (row_pubkey r) = PublicKeySize)"

definition owner_of :: "Store \<Rightarrow> string \<Rightarrow> bytes option" where
  "owner_of s u = map_option row_pubkey (map_of s u)"

text \<open>A sequence of calls, each with its fault.\<close>

datatype store_op =
    OpPut "string option" string bytes gotime
  | OpTouch "string option" string gotime
  | OpRotate "string option" string bytes gotime
  | OpDelete "string option" string

fun store_step :: "Store \<Rightarrow> store_op \<Rightarrow> Store" where
  "store_step s (OpPut f u k t) = snd (Store_Put f s u k t)"
| "store_step s (OpTouch f u t) = snd (Store_Touch f s u t)"
| "store_step s (OpRotate f u k t) = snd (Store_Rotate f s u k t)"
| "store_step s (OpDelete f u) = snd (Store_Delete f s u)"

section \<open>The ownership interface\<close>

text \<open>
  The contract of the store for its clients, over an abstract state: who owns a name, and what
  the four mutating operations may do to that.
\<close>

locale ownership =
  fixes owner :: "'s \<Rightarrow> string \<Rightarrow> bytes option"
    and inv :: "'s \<Rightarrow> bool"
    and put :: "'f \<Rightarrow> 's \<Rightarrow> string \<Rightarrow> bytes \<Rightarrow> gotime \<Rightarrow> 'e option \<times> 's"
    and touch :: "'f \<Rightarrow> 's \<Rightarrow> string \<Rightarrow> gotime \<Rightarrow> 'e option \<times> 's"
    and rotate :: "'f \<Rightarrow> 's \<Rightarrow> string \<Rightarrow> bytes \<Rightarrow> gotime \<Rightarrow> 'e option \<times> 's"
    and del :: "'f \<Rightarrow> 's \<Rightarrow> string \<Rightarrow> 'e option \<times> 's"
  assumes put_ok: "put f s u k t = (None, s') \<Longrightarrow> owner s u = None \<and> owner s' = (owner s)(u \<mapsto> k)"
    and put_err: "put f s u k t = (Some e, s') \<Longrightarrow> s' = s"
    and touch_owner: "owner (snd (touch f s u t)) = owner s"
    and rotate_ok: "rotate f s u k t = (None, s') \<Longrightarrow>
          owner s' = (if owner s u = None then owner s else (owner s)(u \<mapsto> k))"
    and rotate_err: "rotate f s u k t = (Some e, s') \<Longrightarrow> s' = s"
    and del_ok: "del f s u = (None, s') \<Longrightarrow> owner s' = (owner s)(u := None)"
    and del_err: "del f s u = (Some e, s') \<Longrightarrow> s' = s"
    and inv_put: "inv s \<Longrightarrow> inv (snd (put f s u k t))"
    and inv_touch: "inv s \<Longrightarrow> inv (snd (touch f s u t))"
    and inv_rotate: "inv s \<Longrightarrow> inv (snd (rotate f s u k t))"
    and inv_del: "inv s \<Longrightarrow> inv (snd (del f s u))"
begin

text \<open>A put either claims a free name or changes nothing: it never takes a name from its owner.\<close>

lemma put_no_steal: "owner s u = Some k \<Longrightarrow> owner (snd (put f s v k' t)) u = Some k"
  using put_ok [of f s v k' t] put_err [of f s v k' t]
  by (cases "put f s v k' t"; cases "fst (put f s v k' t)") auto

lemma put_other: "u \<noteq> v \<Longrightarrow> owner (snd (put f s v k t)) u = owner s u"
  using put_ok [of f s v k t] put_err [of f s v k t]
  by (cases "put f s v k t"; cases "fst (put f s v k t)") auto

lemma rotate_other: "u \<noteq> v \<Longrightarrow> owner (snd (rotate f s v k t)) u = owner s u"
  using rotate_ok [of f s v k t] rotate_err [of f s v k t]
  by (cases "rotate f s v k t"; cases "fst (rotate f s v k t)") auto

lemma rotate_owner:
  "owner (snd (rotate f s v k t)) v \<in> {owner s v, Some k}"
  using rotate_ok [of f s v k t] rotate_err [of f s v k t]
  by (cases "rotate f s v k t"; cases "fst (rotate f s v k t)") auto

lemma del_other: "u \<noteq> v \<Longrightarrow> owner (snd (del f s v)) u = owner s u"
  using del_ok [of f s v] del_err [of f s v] by (cases "del f s v"; cases "fst (del f s v)") auto

text \<open>Of two claims for one name at most one succeeds, in whichever order they commit.\<close>

lemma put_race:
  "\<lbrakk>put f s u k t = (None, s'); put f' s' u k' t' = (e, s'')\<rbrakk> \<Longrightarrow> e \<noteq> None \<and> s'' = s'"
  using put_ok [of f s u k t s'] put_ok [of f' s' u k' t' s''] put_err [of f' s' u k' t' _ s'']
  by (cases e) auto

end

section \<open>The model implements the interface\<close>

lemma map_of_update_row [simp]:
  "map_of (update_row u f s) = (case map_of s u of None \<Rightarrow> map_of s | Some r \<Rightarrow> (map_of s)(u \<mapsto> f r))"
  by (simp add: update_row_def split: option.split)

lemma gomap_wf_update_row [simp]: "gomap_wf s \<Longrightarrow> gomap_wf (update_row u f s)"
  by (simp add: update_row_def split: option.split)

lemmas store_ops = Store_Get_def Store_Put_def Store_Touch_def Store_Rotate_def Store_Delete_def

interpretation ids: ownership owner_of store_inv Store_Put Store_Touch Store_Rotate Store_Delete
proof
  show "Store_Put f s u k t = (None, s') \<Longrightarrow> owner_of s u = None \<and> owner_of s' = (owner_of s)(u \<mapsto> k)" for f s u k t s'
    by (auto simp: store_ops owner_of_def fun_eq_iff split: option.splits if_splits)
  show "Store_Put f s u k t = (Some e, s') \<Longrightarrow> s' = s" for f s u k t s' e
    by (auto simp: store_ops split: option.splits if_splits)
  show "owner_of (snd (Store_Touch f s u t)) = owner_of s" for f s u t
    by (auto simp: store_ops owner_of_def fun_eq_iff split: option.splits)
  show "Store_Rotate f s u k t = (None, s') \<Longrightarrow>
      owner_of s' = (if owner_of s u = None then owner_of s else (owner_of s)(u \<mapsto> k))" for f s u k t s'
    by (auto simp: store_ops owner_of_def fun_eq_iff split: option.splits if_splits)
  show "Store_Rotate f s u k t = (Some e, s') \<Longrightarrow> s' = s" for f s u k t s' e
    by (auto simp: store_ops split: option.splits if_splits)
  show "Store_Delete f s u = (None, s') \<Longrightarrow> owner_of s' = (owner_of s)(u := None)" for f s u s'
    by (auto simp: store_ops owner_of_def fun_eq_iff split: option.splits)
  show "Store_Delete f s u = (Some e, s') \<Longrightarrow> s' = s" for f s u s' e
    by (auto simp: store_ops split: option.splits)
  show "store_inv s \<Longrightarrow> store_inv (snd (Store_Put f s u k t))" for f s u k t
    by (auto simp: store_ops store_inv_def split: option.splits)
  show "store_inv s \<Longrightarrow> store_inv (snd (Store_Touch f s u t))" for f s u t
    by (auto simp: store_ops store_inv_def split: option.splits)
  show "store_inv s \<Longrightarrow> store_inv (snd (Store_Rotate f s u k t))" for f s u k t
    by (auto simp: store_ops store_inv_def split: option.splits)
  show "store_inv s \<Longrightarrow> store_inv (snd (Store_Delete f s u))" for f s u
    by (auto simp: store_ops store_inv_def split: option.splits if_splits)
qed

lemma Store_Get_owner: "Store_Get flt s u = Inr e \<Longrightarrow> owner_of s u = Some (e_Pubkey e)"
  by (auto simp: Store_Get_def owner_of_def to_entry_def split: option.splits)

lemma Store_Get_free: "Store_Get flt s u = Inl ErrNotFound \<Longrightarrow> owner_of s u = None"
  by (auto simp: Store_Get_def owner_of_def split: option.splits)

lemma Store_Touch_owner: "Store_Touch flt s u t = (e, s') \<Longrightarrow> owner_of s' = owner_of s"
  using ids.touch_owner [of flt s u t] by simp

section \<open>Properties\<close>

lemma store_step_inv: "store_inv s \<Longrightarrow> store_inv (store_step s op)"
  by (cases op) (simp_all add: ids.inv_put ids.inv_touch ids.inv_rotate ids.inv_del)

lemma store_step_owner:
  "\<lbrakk>owner_of s u = Some k; \<forall>f k' t. op \<noteq> OpRotate f u k' t; \<forall>f. op \<noteq> OpDelete f u\<rbrakk>
     \<Longrightarrow> owner_of (store_step s op) u = Some k"
  by (cases op) (auto simp: ids.put_no_steal ids.touch_owner ids.rotate_other ids.del_other)

text \<open>
  C13: ownership is stable.  Starting from any well-formed table, after any sequence of store
  calls with any faults, the table is well formed (one row per name, 32-byte keys), and a name
  that had an owner still has the same one unless the sequence rotated or deleted that very name:
  no claim (\<open>Put\<close>), whether it succeeds, loses a race or fails, takes a name away.
\<close>

theorem store_ownership_stable:
  assumes "store_inv s"
  shows "store_inv (foldl store_step s ops)
    \<and> (owner_of s u = Some k \<and> (\<forall>f k' t. OpRotate f u k' t \<notin> set ops) \<and> (\<forall>f. OpDelete f u \<notin> set ops)
         \<longrightarrow> owner_of (foldl store_step s ops) u = Some k)"
  using assms
proof (induction ops arbitrary: s)
  case (Cons op ops)
  have "owner_of (store_step s op) u = Some k"
    if "owner_of s u = Some k" "\<forall>f k' t. OpRotate f u k' t \<notin> set (op # ops)" "\<forall>f. OpDelete f u \<notin> set (op # ops)"
    using that by (intro store_step_owner) auto
  then show ?case using Cons.IH [of "store_step s op"] store_step_inv [OF Cons.prems, of op] by auto
qed simp

theorem store_ownership_stable_witness:
  "owner_of (foldl store_step [(''abc'', \<lparr>row_pubkey = replicate 32 CHR ''k'', row_created = 0, row_last = 0\<rparr>)]
     [OpPut None ''abc'' (replicate 32 CHR ''x'') 7, OpTouch None ''abc'' 9, OpDelete None ''other'']) ''abc''
   = Some (replicate 32 CHR ''k'')"
proof -
  let ?s = "[(''abc'', \<lparr>row_pubkey = replicate 32 CHR ''k'', row_created = 0, row_last = 0\<rparr>)]"
  have "store_inv ?s" by (simp add: store_inv_def gomap_wf_def PublicKeySize_def)
  then show ?thesis
    using store_ownership_stable [of ?s
        "[OpPut None ''abc'' (replicate 32 CHR ''x'') 7, OpTouch None ''abc'' 9, OpDelete None ''other'']"
        "''abc''" "replicate 32 CHR ''k''"]
    by (simp add: owner_of_def)
qed

text \<open>
  Claim, read back, and the race.  After a successful \<open>Put\<close> the record reads back with the
  same key and with both times rounded down to the second, every other name reads as before, and
  a second \<open>Put\<close> for the name, with any key, reports \<open>ErrAlreadyExists\<close> (or a size or driver error)
  and changes nothing.  \<open>Rotate\<close> then replaces the key and the last-seen time and keeps the
  creation time.
\<close>

theorem store_put_get:
  assumes "Store_Put flt s u k now = (None, s')" "0 \<le> now" "now < 2 ^ 62"
  shows "Store_Get None s' u = Inr \<lparr>e_Unique = u, e_Pubkey = k, e_CreatedAt = Second * (now div Second),
        e_LastSeenAt = Second * (now div Second)\<rparr>
    \<and> (\<forall>v. v \<noteq> u \<longrightarrow> Store_Get None s' v = Store_Get None s v)
    \<and> (length k' = PublicKeySize \<longrightarrow> Store_Put None s' u k' t' = (Some ErrAlreadyExists, s'))
    \<and> snd (Store_Put flt' s' u k' t') = s'
    \<and> (\<exists>e. Store_Get None (snd (Store_Rotate None s' u k now)) u = Inr e \<and> e_CreatedAt e = Second * (now div Second))"
proof -
  have put: "map_of s' = (map_of s)(u \<mapsto> \<lparr>row_pubkey = k, row_created = Time_Unix now, row_last = Time_Unix now\<rparr>)"
    and k: "length k = PublicKeySize"
    using assms(1) by (auto simp: Store_Put_def split: option.splits if_splits)
  have t: "time_Unix (Time_Unix now) = Second * (now div Second)"
  proof -
    have "0 \<le> now div Second" using assms(2) by (simp add: pos_imp_zdiv_nonneg_iff)
    moreover have "now div Second \<le> now div 1" using assms(2) by (intro zdiv_mono2) auto
    ultimately have "0 \<le> now div Second" "now div Second < 2 ^ 62" using assms(3) by auto
    then show ?thesis unfolding Time_Unix_def by (intro time_Unix_id) (simp_all add: unixToInternal_def)
  qed
  show ?thesis
    using put k t by (auto simp: Store_Get_def to_entry_def Store_Put_def Store_Rotate_def split: option.splits)
qed

theorem store_put_get_witness:
  "let (e, s') = Store_Put None [] ''abc'' (replicate 32 CHR ''k'') 1500000000
   in e = None \<and> Store_Get None s' ''abc'' = Inr \<lparr>e_Unique = ''abc'', e_Pubkey = replicate 32 CHR ''k'',
        e_CreatedAt = 1000000000, e_LastSeenAt = 1000000000\<rparr>
      \<and> Store_Put None s' ''abc'' (replicate 32 CHR ''x'') 2 = (Some ErrAlreadyExists, s')"
proof -
  let ?k = "replicate 32 CHR ''k''"
  let ?r = "\<lparr>row_pubkey = ?k, row_created = 1, row_last = 1\<rparr>"
  have p: "Store_Put None [] ''abc'' ?k 1500000000 = (None, [(''abc'', ?r)])"
    by (simp add: Store_Put_def PublicKeySize_def Time_Unix_def)
  show ?thesis
    using store_put_get [OF p, of "replicate 32 CHR ''x''" 2 None] p by (simp add: PublicKeySize_def)
qed

text \<open>
  The admin listing is complete and ordered.  \<open>List\<close> returns the entries in strictly
  increasing order of name, and its entries are exactly the results \<open>Get\<close> would return.
\<close>

theorem store_list_complete:
  assumes "store_inv s"
  shows "\<exists>es. Store_List None s = Inr es \<and> sorted_wrt (<) (map e_Unique es)
    \<and> (\<forall>e. e \<in> set es \<longleftrightarrow> Store_Get None s (e_Unique e) = Inr e)"
proof -
  let ?es = "map (\<lambda>(u, r). to_entry u r) (sort_key fst s)"
  have names: "map e_Unique ?es = map fst (sort_key fst s)" by (induction s) (auto simp: to_entry_def)
  have "distinct (map fst (sort_key fst s))"
    using assms by (simp add: store_inv_def gomap_wf_def distinct_map)
  then have "sorted_wrt (<) (map e_Unique ?es)"
    unfolding names by (simp add: strict_sorted_iff)
  moreover have "e \<in> set ?es \<longleftrightarrow> Store_Get None s (e_Unique e) = Inr e" for e
    using assms gomap_mem_iff [of s] by (force simp: store_inv_def Store_Get_def to_entry_def split: option.splits)
  ultimately show ?thesis by (intro exI [of _ ?es]) (simp add: Store_List_def)
qed

theorem store_list_complete_witness:
  "\<exists>es. Store_List None [(''b'', \<lparr>row_pubkey = replicate 32 CHR ''k'', row_created = 0, row_last = 0\<rparr>),
        (''a'', \<lparr>row_pubkey = replicate 32 CHR ''k'', row_created = 0, row_last = 0\<rparr>)] = Inr es
     \<and> sorted_wrt (<) (map e_Unique es)"
proof -
  let ?s = "[(''b'', \<lparr>row_pubkey = replicate 32 CHR ''k'', row_created = 0, row_last = 0\<rparr>),
        (''a'', \<lparr>row_pubkey = replicate 32 CHR ''k'', row_created = 0, row_last = 0\<rparr>)]"
  have "store_inv ?s" by (simp add: store_inv_def gomap_wf_def PublicKeySize_def)
  from store_list_complete [OF this] show ?thesis by blast
qed

end
