(* ===== verification/Allowlist.thy ===== *)
theory Allowlist
  imports Go_Encoding Reloadable "HOL-Library.List_Lexorder" "HOL-Library.Char_ord"
begin

text \<open>
  The pubkey allowlist (\<open>internal/allowlist/allowlist.go\<close>).  The file system is the record \<open>fs\<close>
  of the three calls the package makes: \<open>os.ReadDir\<close>, \<open>os.Stat\<close> (is the target of the name a
  regular file?) and \<open>os.Open\<close> followed by reading to the end; the last two take the directory and
  the name in it.  \<open>bufio.Scanner\<close> with its default limit is modelled by \<open>scan_lines\<close>: a line
  of 65536 bytes or more stops the scan with \<open>ErrTooLong\<close>.
\<close>

section \<open>Environment\<close>

record fs =
  fs_ReadDir :: "string \<Rightarrow> string list result"
  fs_Stat :: "string \<Rightarrow> string \<Rightarrow> bool result"
  fs_Read :: "string \<Rightarrow> string \<Rightarrow> bytes result"

datatype al_err =
    ReadDir_err string | Stat_err string string | Open_err string string
  | BadBase64 string nat | WrongKeySize string nat nat | Scan_err string

definition MaxScanTokenSize :: nat where
  "MaxScanTokenSize = 64 * 1024"

text \<open>
  \<open>bufio.ScanLines\<close>: the raw lines without their newline; a last empty piece is no line.  A
  trailing carriage return is dropped from the token.
\<close>

definition raw_lines :: "bytes \<Rightarrow> bytes list" where
  "raw_lines b = (let ls = Split b (CHR 0x0A) in if last ls = [] then butlast ls else ls)"

definition drop_cr :: "bytes \<Rightarrow> bytes" where
  "drop_cr l = TrimSuffix l [CHR 0x0D]"

text \<open>The lines before the first one that is too long, and whether there is one.\<close>

definition scan_lines :: "bytes \<Rightarrow> bytes list \<times> bool" where
  "scan_lines b =
     (let ok = takeWhile (\<lambda>l. length l < MaxScanTokenSize) (raw_lines b)
      in (map drop_cr ok, length ok < length (raw_lines b)))"

section \<open>Parsing\<close>

text \<open>A \<open>map[[32]byte]struct{}\<close>.\<close>

type_synonym keyset = "(bytes, unit) gomap"

definition key32 :: "bytes \<Rightarrow> bytes" where
  "key32 pub = take 32 (pub @ replicate 32 (CHR 0x00))"

text \<open>The text of a line that is decoded; \<open>None\<close> for a blank line or a comment.\<close>

definition key_line :: "bytes \<Rightarrow> string option" where
  "key_line raw =
     (let line = TrimSpace raw in
      if line = [] \<or> HasPrefix line ''#'' then None
      else Some (case IndexByte line (CHR ''#'') of
                   Some i \<Rightarrow> TrimSpace (take i line)
                 | None \<Rightarrow> line))"

fun parse_lines :: "string \<Rightarrow> nat \<Rightarrow> bytes list \<Rightarrow> keyset \<Rightarrow> al_err + keyset" where
  "parse_lines name n [] out = Inr out"
| "parse_lines name n (raw # ls) out =
     (case key_line raw of
        None \<Rightarrow> parse_lines name (Suc n) ls out
      | Some line \<Rightarrow>
          (case DecodeString line of
             None \<Rightarrow> Inl (BadBase64 name (Suc n))
           | Some b \<Rightarrow>
               if length b \<noteq> 32 then Inl (WrongKeySize name (Suc n) (length b))
               else parse_lines name (Suc n) ls (AList.update (key32 b) () out)))"

definition parseInto :: "fs \<Rightarrow> string \<Rightarrow> string \<Rightarrow> keyset \<Rightarrow> al_err + keyset" where
  "parseInto F dir name out =
     (case fs_Read F dir name of
        Inl e \<Rightarrow> Inl (Open_err name e)
      | Inr data \<Rightarrow>
          (case parse_lines name 0 (fst (scan_lines data)) out of
             Inl e \<Rightarrow> Inl e
           | Inr out' \<Rightarrow> if snd (scan_lines data) then Inl (Scan_err name) else Inr out'))"

fun parse_entries :: "fs \<Rightarrow> string \<Rightarrow> string list \<Rightarrow> keyset \<Rightarrow> nat \<Rightarrow> al_err + keyset \<times> nat" where
  "parse_entries F dir [] out files = Inr (out, files)"
| "parse_entries F dir (name # ns) out files =
     (if HasPrefix name ''.'' then parse_entries F dir ns out files
      else (case fs_Stat F dir name of
              Inl e \<Rightarrow> Inl (Stat_err name e)
            | Inr regular \<Rightarrow>
                if \<not> regular then parse_entries F dir ns out files
                else (case parseInto F dir name out of
                        Inl e \<Rightarrow> Inl e
                      | Inr out' \<Rightarrow> parse_entries F dir ns out' (Suc files))))"

definition parseDir :: "fs \<Rightarrow> string \<Rightarrow> al_err + keyset \<times> nat" where
  "parseDir F dir =
     (case fs_ReadDir F dir of
        Inl e \<Rightarrow> Inl (ReadDir_err e)
      | Inr entries \<Rightarrow> parse_entries F dir (sort entries) [] 0)"

section \<open>The set\<close>

record AllowSet =
  as_keys :: keyset
  as_files :: nat
  as_dir :: string

definition Allow_Load :: "fs \<Rightarrow> string \<Rightarrow> al_err + AllowSet" where
  "Allow_Load F dir =
     (case parseDir F dir of
        Inl e \<Rightarrow> Inl e
      | Inr (keys, files) \<Rightarrow> Inr \<lparr>as_keys = keys, as_files = files, as_dir = dir\<rparr>)"

text \<open>\<open>Reload\<close>: the set afterwards, and the error or the numbers added, removed and of files.\<close>

definition Allow_Reload :: "fs \<Rightarrow> AllowSet \<Rightarrow> AllowSet \<times> (al_err + nat \<times> nat \<times> nat)" where
  "Allow_Reload F s =
     (case parseDir F (as_dir s) of
        Inl e \<Rightarrow> (s, Inl e)
      | Inr (nxt, files) \<Rightarrow>
          (let prev = as_keys s;
               added = length (filter (\<lambda>(k, _). map_of prev k = None) nxt);
               removed = length (filter (\<lambda>(k, _). map_of nxt k = None) prev)
           in (s\<lparr>as_keys := nxt, as_files := files\<rparr>, Inr (added, removed, files))))"

definition Allow_Contains :: "AllowSet \<Rightarrow> bytes \<Rightarrow> bool" where
  "Allow_Contains s pub \<longleftrightarrow> length pub = 32 \<and> map_of (as_keys s) (key32 pub) \<noteq> None"

definition Allow_Len :: "AllowSet \<Rightarrow> nat" where
  "Allow_Len s = length (as_keys s)"

section \<open>What a directory means\<close>

text \<open>
  The keys a directory grants: those on some line of some regular file whose name does not start
  with a dot.
\<close>

definition grants :: "fs \<Rightarrow> string \<Rightarrow> string list \<Rightarrow> bytes set" where
  "grants F dir names =
     {b. \<exists>name data raw line. name \<in> set names \<and> \<not> HasPrefix name ''.'' \<and> fs_Stat F dir name = Inr True
        \<and> fs_Read F dir name = Inr data \<and> raw \<in> set (raw_lines data)
        \<and> key_line (drop_cr raw) = Some line \<and> DecodeString line = Some b}"

definition al_loaded :: "fs \<Rightarrow> AllowSet \<Rightarrow> (bytes \<Rightarrow> bool) option" where
  "al_loaded F s =
     (case Allow_Load F (as_dir s) of Inl _ \<Rightarrow> None | Inr s' \<Rightarrow> Some (Allow_Contains s'))"

text \<open>What a set loaded from a directory satisfies.\<close>

definition al_inv :: "AllowSet \<Rightarrow> bool" where
  "al_inv s \<longleftrightarrow> gomap_wf (as_keys s) \<and> (\<forall>k\<in>dom (map_of (as_keys s)). length k = 32)"

text \<open>A directory with one readable file, for the examples.\<close>

definition demo_fs :: fs where
  "demo_fs = \<lparr>fs_ReadDir = (\<lambda>_. Inr [''alice'', ''.swp'']), fs_Stat = (\<lambda>_ _. Inr True),
     fs_Read = (\<lambda>_ name. if name = ''alice'' then Inr (EncodeToString (replicate 32 CHR ''k'')) else Inl ''denied'')\<rparr>"

section \<open>Lemmas\<close>

lemma key32_id: "length b = 32 \<Longrightarrow> key32 b = b"
  by (simp add: key32_def)

lemma parse_lines_keys:
  "parse_lines name n ls out = Inr out' \<Longrightarrow>
     dom (map_of out') = dom (map_of out)
       \<union> {b. \<exists>raw line. raw \<in> set ls \<and> key_line raw = Some line \<and> DecodeString line = Some b}
     \<and> (gomap_wf out \<longrightarrow> gomap_wf out')
     \<and> ((\<forall>k\<in>dom (map_of out). length k = 32) \<longrightarrow> (\<forall>k\<in>dom (map_of out'). length k = 32))"
proof (induction ls arbitrary: n out)
  case (Cons raw ls)
  show ?case
  proof (cases "key_line raw")
    case None
    then show ?thesis using Cons by auto
  next
    case (Some line)
    then obtain b where b: "DecodeString line = Some b" "length b = 32"
      "parse_lines name (Suc n) ls (AList.update b () out) = Inr out'"
      using Cons.prems by (auto simp: key32_id split: option.splits if_splits)
    have "{b. \<exists>raw' line. raw' \<in> set (raw # ls) \<and> key_line raw' = Some line \<and> DecodeString line = Some b}
        = insert b {b. \<exists>raw line. raw \<in> set ls \<and> key_line raw = Some line \<and> DecodeString line = Some b}"
      using Some b(1) by auto
    moreover have d: "dom (map_of (AList.update b () out)) = insert b (dom (map_of out))"
      unfolding map_of_update by (auto simp: dom_def)
    ultimately show ?thesis using Cons.IH [OF b(3), unfolded d] b(2) by (simp del: map_of_update)
  qed
qed simp

text \<open>A file that is accepted has no line that is too long, so all of its lines were parsed.\<close>

lemma parseInto_lines:
  assumes "parseInto F dir name out = Inr out'"
  obtains data where "fs_Read F dir name = Inr data" "parse_lines name 0 (map drop_cr (raw_lines data)) out = Inr out'"
proof -
  obtain data where d: "fs_Read F dir name = Inr data"
    "parse_lines name 0 (fst (scan_lines data)) out = Inr out'" "\<not> snd (scan_lines data)"
    using assms by (auto simp: parseInto_def split: sum.splits if_splits)
  let ?P = "\<lambda>l::bytes. length l < MaxScanTokenSize"
  have "length (takeWhile ?P (raw_lines data)) = length (raw_lines data)"
    using d(3) length_takeWhile_le [of ?P "raw_lines data"] by (simp add: scan_lines_def Let_def)
  then have "takeWhile ?P (raw_lines data) = raw_lines data"
    by (metis takeWhile_eq_take take_all order_refl)
  then have "fst (scan_lines data) = map drop_cr (raw_lines data)" unfolding scan_lines_def Let_def fst_conv by (rule arg_cong)
  with d show ?thesis using that by simp
qed

lemma parseInto_keys:
  assumes "parseInto F dir name out = Inr out'"
  shows "\<exists>data. fs_Read F dir name = Inr data
     \<and> dom (map_of out') = dom (map_of out)
       \<union> {b. \<exists>raw line. raw \<in> set (raw_lines data) \<and> key_line (drop_cr raw) = Some line \<and> DecodeString line = Some b}
     \<and> (gomap_wf out \<longrightarrow> gomap_wf out')
     \<and> ((\<forall>k\<in>dom (map_of out). length k = 32) \<longrightarrow> (\<forall>k\<in>dom (map_of out'). length k = 32))"
proof -
  obtain data where d: "fs_Read F dir name = Inr data" "parse_lines name 0 (map drop_cr (raw_lines data)) out = Inr out'"
    by (rule parseInto_lines [OF assms])
  from d(1) parse_lines_keys [OF d(2)] show ?thesis by auto
qed

lemma parse_entries_keys:
  "parse_entries F dir names out files = Inr (out', files') \<Longrightarrow>
     dom (map_of out') = dom (map_of out) \<union> grants F dir names
     \<and> (gomap_wf out \<longrightarrow> gomap_wf out')
     \<and> ((\<forall>k\<in>dom (map_of out). length k = 32) \<longrightarrow> (\<forall>k\<in>dom (map_of out'). length k = 32))"
proof (induction names arbitrary: out files)
  case Nil
  then show ?case by (simp add: grants_def)
next
  case (Cons name ns)
  consider "HasPrefix name ''.'' \<or> fs_Stat F dir name = Inr False" "parse_entries F dir ns out files = Inr (out', files')"
    | out1 where "\<not> HasPrefix name ''.''" "fs_Stat F dir name = Inr True" "parseInto F dir name out = Inr out1"
      "parse_entries F dir ns out1 (Suc files) = Inr (out', files')"
    using Cons.prems by (auto split: if_splits sum.splits)
  then show ?case
  proof cases
    case 1
    then have "grants F dir (name # ns) = grants F dir ns" by (auto simp: grants_def)
    then show ?thesis using Cons.IH [OF 1(2)] by simp
  next
    case (2 out1)
    obtain data where d: "fs_Read F dir name = Inr data"
      "dom (map_of out1) = dom (map_of out)
       \<union> {b. \<exists>raw line. raw \<in> set (raw_lines data) \<and> key_line (drop_cr raw) = Some line \<and> DecodeString line = Some b}"
      "gomap_wf out \<longrightarrow> gomap_wf out1"
      "(\<forall>k\<in>dom (map_of out). length k = 32) \<longrightarrow> (\<forall>k\<in>dom (map_of out1). length k = 32)"
      using parseInto_keys [OF 2(3)] by blast
    have "grants F dir (name # ns) = {b. \<exists>raw line. raw \<in> set (raw_lines data) \<and> key_line (drop_cr raw) = Some line
        \<and> DecodeString line = Some b} \<union> grants F dir ns"
      using 2(1,2) d(1) by (fastforce simp: grants_def)
    then show ?thesis using Cons.IH [OF 2(4)] d by auto
  qed
qed

lemma grants_sort: "grants F dir (sort names) = grants F dir names"
  by (simp add: grants_def)

lemma parseDir_keys:
  assumes "parseDir F dir = Inr (keys, files)"
  shows "\<exists>entries. fs_ReadDir F dir = Inr entries \<and> dom (map_of keys) = grants F dir entries
    \<and> gomap_wf keys \<and> (\<forall>k\<in>dom (map_of keys). length k = 32)"
proof -
  obtain entries where e: "fs_ReadDir F dir = Inr entries" "parse_entries F dir (sort entries) [] 0 = Inr (keys, files)"
    using assms by (auto simp: parseDir_def split: sum.splits)
  from parse_entries_keys [OF e(2)] e(1) show ?thesis by (simp add: grants_sort)
qed

interpretation alr: reloadable Allow_Contains Allow_Reload al_loaded
proof
  show "s' = s \<and> al_loaded F s = None" if "Allow_Reload F s = (s', Inl e)" for F s s' e
    using that by (auto simp: Allow_Reload_def al_loaded_def Allow_Load_def Let_def split: sum.splits)
  show "al_loaded F s = Some (Allow_Contains s') \<and> (\<forall>F'. al_loaded F' s' = al_loaded F' s)"
    if "Allow_Reload F s = (s', Inr r)" for F s s' r
    using that by (auto simp: Allow_Reload_def al_loaded_def Allow_Load_def Allow_Contains_def Let_def fun_eq_iff split: sum.splits)
qed

section \<open>Properties\<close>

lemma Allow_Contains_dom: "al_inv s \<Longrightarrow> Allow_Contains s pub \<longleftrightarrow> pub \<in> dom (map_of (as_keys s))"
  unfolding Allow_Contains_def al_inv_def using key32_id [of pub] domI by (metis domIff)

lemma parseDir_inv: "parseDir F dir = Inr (keys, files) \<Longrightarrow> al_inv (s\<lparr>as_keys := keys, as_files := f\<rparr>)"
  using parseDir_keys by (fastforce simp: al_inv_def)

lemma drop_cr_graph: "l \<noteq> [] \<Longrightarrow> graph_char (last l) \<Longrightarrow> drop_cr l = l"
  by (cases l rule: rev_cases) (auto simp: drop_cr_def TrimSuffix_def HasSuffix_def graph_char_def)

lemma key_line_Encode:
  assumes "length pub = 32" "rest = [] \<or> hd rest = CHR ''#'' \<and> graph_char (last rest)"
  shows "key_line (drop_cr (EncodeToString pub @ rest)) = Some (EncodeToString pub)"
proof -
  let ?e = "EncodeToString pub"
  have ne: "?e \<noteq> []" using assms(1) by (intro EncodeToString_nonempty) auto
  have g: "\<forall>c\<in>set ?e. graph_char c \<and> c \<noteq> CHR ''#''" using EncodeToString_graph [of pub] by (simp add: list_all_iff)
  have hd: "graph_char (hd (?e @ rest))" "graph_char (last (?e @ rest))" "graph_char (hd ?e)" "graph_char (last ?e)"
    using ne bspec [OF g hd_in_set [OF ne]] bspec [OF g last_in_set [OF ne]] assms(2)
    by (auto simp: last_append)
  have dc: "drop_cr (?e @ rest) = ?e @ rest" using ne hd by (intro drop_cr_graph) auto
  have ts: "TrimSpace (?e @ rest) = ?e @ rest" "TrimSpace ?e = ?e"
    using hd by (simp_all add: TrimSpace_clean)
  have np: "\<not> HasPrefix (?e @ rest) ''#''"
    using ne bspec [OF g hd_in_set [OF ne]] by (cases ?e) (auto simp: HasPrefix_def)
  show ?thesis
  proof (cases rest)
    case Nil
    have "CHR ''#'' \<notin> set ?e" using g by auto
    then have "IndexByte ?e (CHR ''#'') = None" by (simp add: IndexByte_None_iff)
    with Nil ts np dc ne show ?thesis by (simp add: key_line_def)
  next
    case (Cons c cs)
    then have "IndexByte (?e @ rest) (CHR ''#'') = Some (length ?e)"
      using g assms(2) IndexByte_append [of "CHR ''#''" ?e cs] by auto
    with ts np dc ne show ?thesis by (simp add: key_line_def)
  qed
qed

text \<open>
  C24: what the allowlist directory means.  A set that loads contains exactly the keys written on
  some line of some regular, non-dot file of the directory, and its size is their number; a key
  whose base64 form stands on a line of its own (also directly followed by a comment) is among
  them.
\<close>

theorem Allow_Load_meaning:
  assumes "Allow_Load F dir = Inr s"
  shows "\<exists>entries. fs_ReadDir F dir = Inr entries
    \<and> (\<forall>pub. Allow_Contains s pub \<longleftrightarrow> pub \<in> grants F dir entries)
    \<and> Allow_Len s = card (grants F dir entries)
    \<and> (\<forall>name data pub rest. name \<in> set entries \<and> \<not> HasPrefix name ''.'' \<and> fs_Stat F dir name = Inr True
         \<and> fs_Read F dir name = Inr data \<and> length pub = 32 \<and> (rest = [] \<or> hd rest = CHR ''#'' \<and> graph_char (last rest))
         \<and> EncodeToString pub @ rest \<in> set (raw_lines data) \<longrightarrow> Allow_Contains s pub)"
proof -
  obtain keys files where p: "parseDir F dir = Inr (keys, files)"
    and s: "s = \<lparr>as_keys = keys, as_files = files, as_dir = dir\<rparr>"
    using assms by (auto simp: Allow_Load_def split: sum.splits)
  obtain entries where e: "fs_ReadDir F dir = Inr entries" "dom (map_of keys) = grants F dir entries"
    "gomap_wf keys" using parseDir_keys [OF p] by blast
  have inv: "al_inv s" using parseDir_keys [OF p] s by (auto simp: al_inv_def)
  have c: "Allow_Contains s pub \<longleftrightarrow> pub \<in> grants F dir entries" for pub
    using Allow_Contains_dom [OF inv] e(2) s by simp
  have len: "Allow_Len s = card (grants F dir entries)"
    using length_gomap [OF e(3)] e(2) s by (simp add: Allow_Len_def)
  have "pub \<in> grants F dir entries"
    if "name \<in> set entries" "\<not> HasPrefix name ''.''" "fs_Stat F dir name = Inr True"
      "fs_Read F dir name = Inr data" "length pub = 32" "rest = [] \<or> hd rest = CHR ''#'' \<and> graph_char (last rest)"
      "EncodeToString pub @ rest \<in> set (raw_lines data)" for name data pub rest
    using that key_line_Encode [OF that(5,6)] unfolding grants_def by fastforce
  with e c len show ?thesis by blast
qed

lemma raw_lines_Encode: "b \<noteq> [] \<Longrightarrow> raw_lines (EncodeToString b) = [EncodeToString b]"
proof -
  assume "b \<noteq> []"
  moreover have "CHR 0x0A \<notin> set (EncodeToString b)" using EncodeToString_graph [of b] by (auto simp: list_all_iff)
  ultimately show ?thesis by (simp add: raw_lines_def Split_free EncodeToString_nonempty)
qed

lemma demo_parse: "parseInto demo_fs ''/d'' ''alice'' [] = Inr [(replicate 32 CHR ''k'', ())]"
proof -
  let ?k = "replicate 32 CHR ''k''"
  have kl: "key_line (drop_cr (EncodeToString ?k)) = Some (EncodeToString ?k)"
    using key_line_Encode [of ?k "[]"] by simp
  have len: "length (EncodeToString ?k) < MaxScanTokenSize"
    using length_EncodeToString [of ?k] by (simp add: MaxScanTokenSize_def)
  have "scan_lines (EncodeToString ?k) = ([drop_cr (EncodeToString ?k)], False)"
    using raw_lines_Encode [of ?k] len by (simp add: scan_lines_def Let_def)
  then show ?thesis using kl by (simp add: parseInto_def demo_fs_def key32_def)
qed

lemma demo_load:
  "Allow_Load demo_fs ''/d'' = Inr \<lparr>as_keys = [(replicate 32 CHR ''k'', ())], as_files = 1, as_dir = ''/d''\<rparr>"
proof -
  have "sort [''alice'', ''.swp''] = [''.swp'', ''alice'']" by simp
  then show ?thesis using demo_parse by (simp add: Allow_Load_def parseDir_def demo_fs_def HasPrefix_def)
qed

theorem Allow_Load_meaning_witness:
  "\<exists>s. Allow_Load demo_fs ''/d'' = Inr s \<and> Allow_Contains s (replicate 32 CHR ''k'')"
proof -
  obtain entries where e: "fs_ReadDir demo_fs ''/d'' = Inr entries"
    and m: "\<forall>name data pub rest. name \<in> set entries \<and> \<not> HasPrefix name ''.'' \<and> fs_Stat demo_fs ''/d'' name = Inr True
         \<and> fs_Read demo_fs ''/d'' name = Inr data \<and> length pub = 32 \<and> (rest = [] \<or> hd rest = CHR ''#'' \<and> graph_char (last rest))
         \<and> EncodeToString pub @ rest \<in> set (raw_lines data) \<longrightarrow>
         Allow_Contains \<lparr>as_keys = [(replicate 32 CHR ''k'', ())], as_files = 1, as_dir = ''/d''\<rparr> pub"
    using Allow_Load_meaning [OF demo_load] by blast
  from e have "entries = [''alice'', ''.swp'']" by (simp add: demo_fs_def)
  with m [rule_format, of "''alice''" "EncodeToString (replicate 32 CHR ''k'')" "replicate 32 CHR ''k''" "[]"]
  show ?thesis using demo_load raw_lines_Encode [of "replicate 32 CHR ''k''"] by (simp add: demo_fs_def HasPrefix_def)
qed

lemma length_filter_absent:
  assumes "gomap_wf m'"
  shows "length (filter (\<lambda>(k, _). map_of m k = None) m') = card (dom (map_of m') - dom (map_of m))"
proof -
  let ?f = "filter (\<lambda>(k, _). map_of m k = None) m'"
  have "distinct (map fst ?f)" using assms by (auto simp: gomap_wf_def distinct_map inj_on_def)
  then have "length ?f = card (set (map fst ?f))" by (metis distinct_card length_map)
  also have "set (map fst ?f) = dom (map_of m') - dom (map_of m)"
    by (auto simp: dom_map_of_conv_image_fst) (force simp: map_of_eq_None_iff)+
  finally show ?thesis .
qed

text \<open>
  Reloading the allowlist.  A reload that reports an error leaves the set exactly as it was; a
  reload that succeeds leaves the set a fresh load of the same directory would give, and the
  numbers it reports are the numbers of keys gained and lost.
\<close>

theorem Allow_Reload_safe:
  assumes "al_inv s" "Allow_Reload F s = (s', r)"
  shows "al_inv s' \<and> as_dir s' = as_dir s
    \<and> (\<forall>e. r = Inl e \<longrightarrow> s' = s \<and> Allow_Load F (as_dir s) = Inl e)
    \<and> (\<forall>a d f. r = Inr (a, d, f) \<longrightarrow> Allow_Load F (as_dir s) = Inr s'
         \<and> a = card ({k. Allow_Contains s' k} - {k. Allow_Contains s k})
         \<and> d = card ({k. Allow_Contains s k} - {k. Allow_Contains s' k}))"
proof (cases "parseDir F (as_dir s)")
  case (Inl e)
  then show ?thesis using assms by (auto simp: Allow_Reload_def Allow_Load_def)
next
  case (Inr p)
  obtain keys files where p: "p = (keys, files)" by (cases p)
  have s': "s' = s\<lparr>as_keys := keys, as_files := files\<rparr>"
    and r: "r = Inr (length (filter (\<lambda>(k, _). map_of (as_keys s) k = None) keys),
        length (filter (\<lambda>(k, _). map_of keys k = None) (as_keys s)), files)"
    using assms(2) Inr p by (simp_all add: Allow_Reload_def Let_def)
  have inv: "al_inv s'" using parseDir_inv Inr p s' by blast
  have C: "{k. Allow_Contains s k} = dom (map_of (as_keys s))" "{k. Allow_Contains s' k} = dom (map_of keys)"
    using Allow_Contains_dom [OF assms(1)] Allow_Contains_dom [OF inv] s' by auto
  have "length (filter (\<lambda>(k, _). map_of m k = None) m') = card (dom (map_of m') - dom (map_of m))"
    if "gomap_wf m'" for m m' :: keyset
    using that by (rule length_filter_absent)
  then show ?thesis
    using inv s' r C assms(1) Inr p by (auto simp: Allow_Load_def al_inv_def)
qed

theorem Allow_Reload_safe_witness:
  "let s = \<lparr>as_keys = [(replicate 32 CHR ''x'', ())], as_files = 1, as_dir = ''/d''\<rparr>;
       (s', r) = Allow_Reload demo_fs s
   in Allow_Load demo_fs ''/d'' = Inr s' \<and> r = Inr (1, 1, 1) \<and> fst (Allow_Reload (demo_fs\<lparr>fs_ReadDir := \<lambda>_. Inl ''io''\<rparr>) s) = s"
proof -
  let ?x = "replicate 32 CHR ''x''" and ?k = "replicate 32 CHR ''k''"
  let ?s = "\<lparr>as_keys = [(?x, ())], as_files = 1, as_dir = ''/d''\<rparr>"
  have inv: "al_inv ?s" by (simp add: al_inv_def gomap_wf_def)
  have p: "parseDir demo_fs ''/d'' = Inr ([(?k, ())], 1)"
    using demo_load by (auto simp: Allow_Load_def split: sum.splits)
  have ne: "?x \<noteq> ?k" by (simp add: numeral_eq_Suc)
  have r: "Allow_Reload demo_fs ?s = (\<lparr>as_keys = [(?k, ())], as_files = 1, as_dir = ''/d''\<rparr>, Inr (1, 1, 1))"
    using p ne by (simp add: Allow_Reload_def Let_def)
  have f: "Allow_Reload (demo_fs\<lparr>fs_ReadDir := \<lambda>_. Inl ''io''\<rparr>) ?s = (?s, Inl (ReadDir_err ''io''))"
    by (simp add: Allow_Reload_def parseDir_def)
  show ?thesis using Allow_Reload_safe [OF inv r] Allow_Reload_safe [OF inv f] r f by (simp add: Let_def)
qed

end
