(* ===== verification/Registry.thy ===== *)
theory Registry
  imports Allowlist
begin

text \<open>
  The registry of live tunnel sessions (\<open>registry\<close> in \<open>cmd/swe-swe-tunneld/tunnel.go\<close>): the map
  from label to session and the parallel index by pubkey.  A \<open>*tunnelSession\<close> is its address, a
  number; the pointers are only compared.  SHA-256 is the argument \<open>sha\<close> and the verb \<open>%q\<close> the
  argument \<open>quote\<close>.

  The inductive relation \<open>reg_step\<close> interleaves what the connection handlers, the peers and the
  SIGHUP handler do to the registry (every registry method runs under its lock, so each is one
  step); \<open>reg_inv\<close> relates the two maps to the handlers that are between their \<open>add\<close> and their
  deferred \<open>remove\<close>.
\<close>

section \<open>Operations\<close>

type_synonym session = nat

record registry =
  reg_sessions :: "(string, session) gomap"
  reg_byPubkey :: "(bytes, (string, session) gomap) gomap"

definition newRegistry :: registry where
  "newRegistry = \<lparr>reg_sessions = [], reg_byPubkey = []\<rparr>"

definition reg_add ::
  "(string \<Rightarrow> string) \<Rightarrow> registry \<Rightarrow> string \<Rightarrow> bytes \<Rightarrow> session \<Rightarrow> string + registry" where
  "reg_add quote r label pub ts =
     (if map_of (reg_sessions r) label \<noteq> None
      then Inl (''label '' @ quote label @ '' already connected'')
      else
        (let k = key32 pub;
             m = (case map_of (reg_byPubkey r) k of None \<Rightarrow> [] | Some m \<Rightarrow> m)
         in Inr (r\<lparr>reg_sessions := AList.update label ts (reg_sessions r),
                   reg_byPubkey := AList.update k (AList.update label ts m) (reg_byPubkey r)\<rparr>)))"

text \<open>\<open>delete(m, label)\<close> guarded by the pointer comparison.\<close>

definition delete_own :: "string \<Rightarrow> session \<Rightarrow> (string, session) gomap \<Rightarrow> (string, session) gomap" where
  "delete_own label ts m = (if map_of m label = Some ts then AList.delete label m else m)"

definition reg_remove :: "registry \<Rightarrow> string \<Rightarrow> bytes \<Rightarrow> session \<Rightarrow> registry" where
  "reg_remove r label pub ts =
     (let k = key32 pub in
      r\<lparr>reg_sessions := delete_own label ts (reg_sessions r),
        reg_byPubkey :=
          (case map_of (reg_byPubkey r) k of
             None \<Rightarrow> reg_byPubkey r
           | Some m \<Rightarrow>
               (let m' = delete_own label ts m in
                if length m' = 0 then AList.delete k (reg_byPubkey r)
                else AList.update k m' (reg_byPubkey r)))\<rparr>)"

definition reg_get :: "registry \<Rightarrow> string \<Rightarrow> session option" where
  "reg_get r label = map_of (reg_sessions r) label"

definition fingerprint :: "(bytes \<Rightarrow> bytes) \<Rightarrow> bytes \<Rightarrow> string" where
  "fingerprint sha pub = hex_EncodeToString (take 6 (sha pub))"

text \<open>
  \<open>RevokeMissing\<close>: the sessions it closes, each with the label and fingerprint it logs.  The
  registry itself is not changed; the handlers prune it when their session ends.
\<close>

definition RevokeMissing ::
  "(bytes \<Rightarrow> bytes) \<Rightarrow> AllowSet option \<Rightarrow> registry \<Rightarrow> (string \<times> string \<times> session) list" where
  "RevokeMissing sha allow r =
     (case allow of
        None \<Rightarrow> []
      | Some a \<Rightarrow>
          concat (map (\<lambda>(k, byLabel).
                         if \<not> Allow_Contains a k
                         then map (\<lambda>(label, ts). (label, fingerprint sha k, ts)) byLabel else [])
                    (reg_byPubkey r)))"

section \<open>Interleaving\<close>

text \<open>
  The registry, the handlers that have added their session and not yet removed it, the sessions
  that are open, and the session addresses used so far.
\<close>

record reg_world =
  w_reg :: registry
  w_live :: "(string \<times> bytes \<times> session) set"
  w_open :: "session set"
  w_used :: "session set"

definition reg_init :: reg_world where
  "reg_init = \<lparr>w_reg = newRegistry, w_live = {}, w_open = {}, w_used = {}\<rparr>"

inductive reg_step :: "(string \<Rightarrow> string) \<Rightarrow> (bytes \<Rightarrow> bytes) \<Rightarrow> reg_world \<Rightarrow> reg_world \<Rightarrow> bool"
  for quote sha where
  Connect:
    "\<lbrakk>ts \<notin> w_used w; reg_add quote (w_reg w) label pub ts = Inr r; length pub = 32\<rbrakk> \<Longrightarrow>
     reg_step quote sha w
       (w\<lparr>w_reg := r, w_live := insert (label, pub, ts) (w_live w), w_open := insert ts (w_open w),
          w_used := insert ts (w_used w)\<rparr>)"
| Refused:
    "\<lbrakk>ts \<notin> w_used w; reg_add quote (w_reg w) label pub ts = Inl e\<rbrakk> \<Longrightarrow>
     reg_step quote sha w (w\<lparr>w_used := insert ts (w_used w)\<rparr>)"
| HangUp:
    "reg_step quote sha w (w\<lparr>w_open := w_open w - {ts}\<rparr>)"
| Finish:
    "(label, pub, ts) \<in> w_live w \<Longrightarrow>
     reg_step quote sha w
       (w\<lparr>w_reg := reg_remove (w_reg w) label pub ts, w_live := w_live w - {(label, pub, ts)},
          w_open := w_open w - {ts}\<rparr>)"
| Revoke:
    "reg_step quote sha w
       (w\<lparr>w_open := w_open w - (\<lambda>(_, _, ts). ts) ` set (RevokeMissing sha allow (w_reg w))\<rparr>)"

inductive_cases reg_stepE: "reg_step quote sha w w'"

text \<open>\<open>r.byPubkey[k][label]\<close>.\<close>

definition by_key :: "registry \<Rightarrow> bytes \<Rightarrow> string \<Rightarrow> session option" where
  "by_key r k label = (case map_of (reg_byPubkey r) k of None \<Rightarrow> None | Some m \<Rightarrow> map_of m label)"

definition maps_wf :: "registry \<Rightarrow> bool" where
  "maps_wf r \<longleftrightarrow> gomap_wf (reg_sessions r) \<and> gomap_wf (reg_byPubkey r)
     \<and> (\<forall>k m. map_of (reg_byPubkey r) k = Some m \<longrightarrow> gomap_wf m \<and> m \<noteq> [])"

text \<open>The two maps hold exactly the live handlers' sessions; no inner map is empty.\<close>

definition reg_inv :: "reg_world \<Rightarrow> bool" where
  "reg_inv w \<longleftrightarrow>
     maps_wf (w_reg w) \<and> (\<forall>label ts. map_of (reg_sessions (w_reg w)) label = Some ts \<longleftrightarrow> (\<exists>pub. (label, pub, ts) \<in> w_live w))
     \<and> (\<forall>k label ts. by_key (w_reg w) k label = Some ts \<longleftrightarrow> (label, k, ts) \<in> w_live w)
     \<and> (\<forall>label pub ts. (label, pub, ts) \<in> w_live w \<longrightarrow> length pub = 32 \<and> ts \<in> w_used w)
     \<and> inj_on (\<lambda>(_, _, ts). ts) (w_live w)"

definition demo_world :: reg_world where
  "demo_world = \<lparr>w_reg = \<lparr>reg_sessions = [(''app-tunnel'', 7)],
       reg_byPubkey = [(replicate 32 CHR ''k'', [(''app-tunnel'', 7)])]\<rparr>,
     w_live = {(''app-tunnel'', replicate 32 CHR ''k'', 7)}, w_open = {7}, w_used = {7}\<rparr>"



section \<open>Lemmas\<close>

lemma reg_add_sessions:
  "reg_add quote r label pub ts = Inr r' \<Longrightarrow>
     map_of (reg_sessions r) label = None \<and> map_of (reg_sessions r') = (map_of (reg_sessions r))(label \<mapsto> ts)"
  by (auto simp: reg_add_def Let_def split: if_splits)

lemma reg_add_by_key:
  "\<lbrakk>reg_add quote r label pub ts = Inr r'; length pub = 32\<rbrakk> \<Longrightarrow>
     by_key r' k l = (if k = pub \<and> l = label then Some ts else by_key r k l)"
  by (auto simp: reg_add_def by_key_def key32_id Let_def split: if_splits option.splits)

lemma update_nonempty: "AList.update k v m \<noteq> []"
  by (cases m) auto

lemma maps_wf_inner: "maps_wf r \<Longrightarrow> map_of (reg_byPubkey r) k = Some m \<Longrightarrow> gomap_wf m \<and> m \<noteq> []"
  by (simp add: maps_wf_def)

lemma maps_wf_update:
  assumes "maps_wf r" "gomap_wf m" "m \<noteq> []" "gomap_wf s"
  shows "maps_wf (r\<lparr>reg_sessions := s, reg_byPubkey := AList.update k m (reg_byPubkey r)\<rparr>)"
  using assms maps_wf_inner [OF assms(1)] by (auto simp: maps_wf_def)

lemma maps_wf_delete:
  assumes "maps_wf r" "gomap_wf s"
  shows "maps_wf (r\<lparr>reg_sessions := s, reg_byPubkey := AList.delete k (reg_byPubkey r)\<rparr>)"
  using assms maps_wf_inner [OF assms(1)] by (auto simp: maps_wf_def)

lemma reg_add_wf:
  assumes "reg_add quote r label pub ts = Inr r'" "maps_wf r"
  shows "maps_wf r'"
proof -
  let ?m = "case map_of (reg_byPubkey r) (key32 pub) of None \<Rightarrow> [] | Some m \<Rightarrow> m"
  have "gomap_wf ?m" using maps_wf_inner [OF assms(2), of "key32 pub"] by (auto split: option.splits)
  moreover have "gomap_wf (reg_sessions r)" using assms(2) by (simp add: maps_wf_def)
  moreover have "r' = r\<lparr>reg_sessions := AList.update label ts (reg_sessions r),
      reg_byPubkey := AList.update (key32 pub) (AList.update label ts ?m) (reg_byPubkey r)\<rparr>"
    using assms(1) by (simp add: reg_add_def Let_def split: if_splits)
  ultimately show ?thesis using assms(2) by (simp add: maps_wf_update update_nonempty)
qed

lemma map_of_delete_own:
  "map_of (delete_own label ts m) l = (if l = label \<and> map_of m l = Some ts then None else map_of m l)"
  by (auto simp: delete_own_def)

lemma gomap_wf_delete_own [simp]: "gomap_wf m \<Longrightarrow> gomap_wf (delete_own label ts m)"
  by (simp add: delete_own_def)

lemma reg_remove_sessions:
  "map_of (reg_sessions (reg_remove r label pub ts)) l
     = (if l = label \<and> map_of (reg_sessions r) l = Some ts then None else map_of (reg_sessions r) l)"
  by (simp add: reg_remove_def Let_def map_of_delete_own)

lemma reg_remove_by_key:
  assumes "length pub = 32"
  shows "by_key (reg_remove r label pub ts) k l
     = (if k = pub \<and> l = label \<and> by_key r k l = Some ts then None else by_key r k l)"
proof (cases "map_of (reg_byPubkey r) pub")
  case None
  then show ?thesis using assms by (auto simp: reg_remove_def by_key_def key32_id Let_def)
next
  case (Some m)
  have e: "delete_own label ts m = [] \<Longrightarrow> map_of (delete_own label ts m) l = None" by simp
  show ?thesis using assms Some e map_of_delete_own [of label ts m l]
    by (auto simp: reg_remove_def by_key_def key32_id Let_def split: if_splits)
qed

lemma reg_remove_wf:
  assumes "maps_wf r"
  shows "maps_wf (reg_remove r label pub ts)"
proof -
  let ?s = "delete_own label ts (reg_sessions r)"
  have s: "gomap_wf ?s" using assms by (simp add: maps_wf_def)
  show ?thesis
  proof (cases "map_of (reg_byPubkey r) (key32 pub)")
    case None
    then show ?thesis using assms s by (simp add: reg_remove_def Let_def maps_wf_def)
  next
    case (Some m)
    have "gomap_wf (delete_own label ts m)" using maps_wf_inner [OF assms Some] by simp
    with Some show ?thesis
      using maps_wf_update [OF assms _ _ s] maps_wf_delete [OF assms s] by (simp add: reg_remove_def Let_def)
  qed
qed

lemma RevokeMissing_mem:
  assumes "maps_wf r"
  shows "(label, fp, ts) \<in> set (RevokeMissing sha (Some a) r)
    \<longleftrightarrow> (\<exists>k. by_key r k label = Some ts \<and> \<not> Allow_Contains a k \<and> fp = fingerprint sha k)"
proof -
  have "(k, m) \<in> set (reg_byPubkey r) \<longleftrightarrow> map_of (reg_byPubkey r) k = Some m" for k m
    using assms by (intro gomap_mem_iff) (simp add: maps_wf_def)
  moreover have "map_of (reg_byPubkey r) k = Some m \<Longrightarrow> (l, t) \<in> set m \<longleftrightarrow> map_of m l = Some t" for k m l t
    using assms by (intro gomap_mem_iff) (auto simp: maps_wf_def)
  ultimately show ?thesis
    by (fastforce simp: RevokeMissing_def by_key_def split: option.splits if_splits)
qed

lemma reg_init_inv: "reg_inv reg_init"
  by (simp add: reg_inv_def reg_init_def newRegistry_def maps_wf_def by_key_def)

lemma reg_step_inv:
  assumes "reg_step quote sha w w'" "reg_inv w"
  shows "reg_inv w'"
  using assms(1)
proof cases
  case (Connect ts label pub r)
  have new: "(l, p, ts) \<notin> w_live w" for l p using assms(2) Connect(2) by (auto simp: reg_inv_def)
  have free: "(label, p, t) \<notin> w_live w" for p t
    using assms(2) reg_add_sessions [OF Connect(3)] unfolding reg_inv_def by (metis option.distinct(1))
  show ?thesis
    using assms(2) Connect(1,4) new free reg_add_sessions [OF Connect(3)] reg_add_by_key [OF Connect(3,4)]
      reg_add_wf [OF Connect(3)]
    unfolding reg_inv_def by (auto simp: inj_on_insert)
next
  case (Finish label pub ts)
  let ?r = "reg_remove (w_reg w) label pub ts" and ?L = "w_live w - {(label, pub, ts)}"
  have S: "map_of (reg_sessions (w_reg w)) l = Some t \<longleftrightarrow> (\<exists>p. (l, p, t) \<in> w_live w)"
    and K: "by_key (w_reg w) k l = Some t \<longleftrightarrow> (l, k, t) \<in> w_live w"
    and len: "(l, k, t) \<in> w_live w \<Longrightarrow> length k = 32 \<and> t \<in> w_used w" for l k t
    using assms(2) by (auto simp: reg_inv_def)
  have inj: "inj_on (\<lambda>(_, _, ts). ts) (w_live w)" using assms(2) by (simp add: reg_inv_def)
  have uniq: "l = label \<and> p = pub" if "(l, p, ts) \<in> w_live w" for l p
    using inj_onD [OF inj _ that Finish(2)] by simp
  have lab: "t = ts" if "(label, p, t) \<in> w_live w" for p t
    using that Finish(2) S by (metis option.inject)
  have "map_of (reg_sessions ?r) l = Some t \<longleftrightarrow> (\<exists>p. (l, p, t) \<in> ?L)" for l t
  proof (cases "l = label")
    case True
    have "map_of (reg_sessions (w_reg w)) label = Some ts" using S Finish(2) by blast
    then have "map_of (reg_sessions ?r) l = None" using True by (simp add: reg_remove_sessions)
    moreover have "\<not> (\<exists>p. (l, p, t) \<in> ?L)" using True lab uniq by blast
    ultimately show ?thesis by simp
  next
    case False
    then show ?thesis using S [of l t] by (simp add: reg_remove_sessions)
  qed
  moreover have "by_key ?r k l = Some t \<longleftrightarrow> (l, k, t) \<in> ?L" for k l t
    unfolding reg_remove_by_key [OF len [OF Finish(2), THEN conjunct1]] using K [of k l t] K [of pub label ts] Finish(2) by auto
  moreover have "maps_wf ?r" using assms(2) by (simp add: reg_inv_def reg_remove_wf)
  moreover have "inj_on (\<lambda>(_, _, ts). ts) ?L" using inj by (rule inj_on_subset) blast
  ultimately show ?thesis using Finish(1) len by (auto simp: reg_inv_def)
qed (use assms(2) in \<open>auto simp: reg_inv_def\<close>)

lemma reg_reach_inv: "(reg_step quote sha)\<^sup>*\<^sup>* reg_init w \<Longrightarrow> reg_inv w"
  by (induction rule: rtranclp_induct) (auto simp: reg_init_inv reg_step_inv)

section \<open>Properties\<close>

text \<open>
  C8: the registry is consistent and leaks nothing.  In every reachable state, whatever the
  interleaving of connects, refusals, hang-ups, removals and revocations: a label resolves to a
  session exactly when a handler has that session registered under it, and then to only one; the
  pubkey index holds exactly the same sessions under the key they authenticated with; there are
  as many entries as live handlers, and once no handler is live both maps are empty.
\<close>

theorem registry_consistent:
  assumes "(reg_step quote sha)\<^sup>*\<^sup>* reg_init w"
  shows "(\<forall>label ts. reg_get (w_reg w) label = Some ts \<longleftrightarrow> (\<exists>pub. (label, pub, ts) \<in> w_live w))
    \<and> (\<forall>label pub ts. by_key (w_reg w) pub label = Some ts \<longleftrightarrow> (label, pub, ts) \<in> w_live w)
    \<and> length (reg_sessions (w_reg w)) = card (w_live w)
    \<and> (w_live w = {} \<longrightarrow> w_reg w = newRegistry)"
proof -
  have inv: "reg_inv w" by (rule reg_reach_inv [OF assms])
  let ?s = "reg_sessions (w_reg w)" and ?b = "reg_byPubkey (w_reg w)"
  have S: "map_of ?s label = Some ts \<longleftrightarrow> (\<exists>pub. (label, pub, ts) \<in> w_live w)" for label ts
    using inv by (simp add: reg_inv_def)
  have K: "by_key (w_reg w) pub label = Some ts \<longleftrightarrow> (label, pub, ts) \<in> w_live w" for label pub ts
    using inv by (simp add: reg_inv_def)
  have wf: "gomap_wf ?s" "gomap_wf ?b" and inj: "inj_on (\<lambda>(_, _, ts). ts) (w_live w)"
    and maps: "maps_wf (w_reg w)" using inv by (auto simp: reg_inv_def maps_wf_def)
  have "inj_on fst (w_live w)"
  proof (rule inj_onI)
    fix x y assume xy: "x \<in> w_live w" "y \<in> w_live w" "fst x = fst y"
    obtain l p t p' t' where e: "x = (l, p, t)" "y = (l, p', t')" using xy(3) by (cases x; cases y) auto
    then have "t = t'" using S [of l t] S [of l t'] xy by auto
    then show "x = y" using inj_onD [OF inj _ xy(1,2)] e by simp
  qed
  moreover have "dom (map_of ?s) = fst ` w_live w" using S by (force simp: dom_def)
  ultimately have len: "length ?s = card (w_live w)" using length_gomap [OF wf(1)] by (simp add: card_image)
  have "w_reg w = newRegistry" if "w_live w = {}"
  proof -
    have "?s = []" using len that by simp
    moreover have "?b = []"
    proof (rule ccontr)
      assume "?b \<noteq> []"
      then obtain k m rest where b: "?b = (k, m) # rest" by (cases ?b) auto
      then have "m \<noteq> []" using maps_wf_inner [OF maps, of k m] by simp
      then have "map_of m (fst (hd m)) = Some (snd (hd m))" by (cases m) auto
      then obtain l t where "map_of m l = Some t" by blast
      then have "by_key (w_reg w) k l = Some t" using b by (simp add: by_key_def)
      then show False using K that by simp
    qed
    ultimately show ?thesis by (simp add: newRegistry_def)
  qed
  with S K len show ?thesis by (simp add: reg_get_def)
qed

lemma demo_world_reach: "(reg_step quote sha)\<^sup>*\<^sup>* reg_init demo_world"
proof -
  have "reg_add quote (w_reg reg_init) ''app-tunnel'' (replicate 32 CHR ''k'') 7 = Inr (w_reg demo_world)"
    by (simp add: reg_add_def reg_init_def newRegistry_def demo_world_def key32_def)
  from reg_step.Connect [OF _ this] show ?thesis
    by (intro r_into_rtranclp) (simp add: reg_init_def demo_world_def)
qed

theorem registry_consistent_witness:
  "reg_get (w_reg demo_world) ''app-tunnel'' = Some 7 \<and> length (reg_sessions (w_reg demo_world)) = 1"
  using registry_consistent [OF demo_world_reach [of id id]] by (simp add: demo_world_def)

text \<open>
  Revocation is exact.  In every reachable state \<open>RevokeMissing\<close> with a new allowlist closes
  the live sessions whose authenticated key is not in it and no others: afterwards every live
  session that is still open has an allowed key, and a live session with an allowed key is open
  exactly if it was before.  Without an allowlist nothing is closed.
\<close>

theorem RevokeMissing_exact:
  assumes "(reg_step quote sha)\<^sup>*\<^sup>* reg_init w"
    "w' = w\<lparr>w_open := w_open w - (\<lambda>(_, _, ts). ts) ` set (RevokeMissing sha allow (w_reg w))\<rparr>"
  shows "reg_step quote sha w w'
    \<and> (allow = None \<longrightarrow> w' = w)
    \<and> (\<forall>a label pub ts. allow = Some a \<and> (label, pub, ts) \<in> w_live w \<longrightarrow>
         (ts \<in> w_open w' \<longleftrightarrow> ts \<in> w_open w \<and> Allow_Contains a pub)
         \<and> (\<not> Allow_Contains a pub \<longrightarrow> (label, fingerprint sha pub, ts) \<in> set (RevokeMissing sha allow (w_reg w))))
    \<and> w_open w - w_open w' \<subseteq> (\<lambda>(_, _, ts). ts) ` w_live w"
proof -
  have inv: "reg_inv w" by (rule reg_reach_inv [OF assms(1)])
  have wf: "maps_wf (w_reg w)" and inj: "inj_on (\<lambda>(_, _, ts). ts) (w_live w)"
    and K: "\<And>k l t. by_key (w_reg w) k l = Some t \<longleftrightarrow> (l, k, t) \<in> w_live w"
    using inv by (simp_all add: reg_inv_def)
  show ?thesis
  proof (cases allow)
    case None
    then show ?thesis using reg_step.Revoke [of quote sha w None] assms(2) by (simp add: RevokeMissing_def)
  next
    case (Some a)
    note R = RevokeMissing_mem [OF wf, of _ _ _ sha a, unfolded K]
    let ?V = "set (RevokeMissing sha (Some a) (w_reg w))"
    have closed: "ts \<in> (\<lambda>(_, _, ts). ts) ` ?V \<longleftrightarrow> \<not> Allow_Contains a pub" if "(label, pub, ts) \<in> w_live w" for label pub ts
    proof
      assume "ts \<in> (\<lambda>(_, _, ts). ts) ` ?V"
      then obtain l f where "(l, f, ts) \<in> ?V" by auto
      then obtain k where "(l, k, ts) \<in> w_live w" "\<not> Allow_Contains a k" using R by blast
      then show "\<not> Allow_Contains a pub" using inj_onD [OF inj _ _ that] by force
    next
      assume "\<not> Allow_Contains a pub"
      then have "(label, fingerprint sha pub, ts) \<in> ?V" using R that by blast
      then show "ts \<in> (\<lambda>(_, _, ts). ts) ` ?V" by force
    qed
    have sub: "(\<lambda>(_, _, ts). ts) ` ?V \<subseteq> (\<lambda>(_, _, ts). ts) ` w_live w" using R by (force simp: image_def)
    have "w_open w' = w_open w - (\<lambda>(_, _, ts). ts) ` ?V" using assms(2) Some by simp
    then show ?thesis
      using closed sub R Some assms(2) reg_step.Revoke [of quote sha w allow] by auto
  qed
qed

theorem RevokeMissing_exact_witness:
  "let a = \<lparr>as_keys = [], as_files = 0, as_dir = ''/d''\<rparr>
   in 7 \<in> w_open demo_world
      \<and> 7 \<notin> w_open (demo_world\<lparr>w_open := w_open demo_world - (\<lambda>(_, _, ts). ts) ` set (RevokeMissing id (Some a) (w_reg demo_world))\<rparr>)"
proof -
  let ?a = "\<lparr>as_keys = [], as_files = 0, as_dir = ''/d''\<rparr>"
  have "(''app-tunnel'', replicate 32 CHR ''k'', 7) \<in> w_live demo_world" "\<not> Allow_Contains ?a (replicate 32 CHR ''k'')"
    "7 \<in> w_open demo_world"
    by (simp_all add: demo_world_def Allow_Contains_def)
  with RevokeMissing_exact [OF demo_world_reach [of id id] refl, of "Some ?a"] show ?thesis
    unfolding Let_def by blast
qed

end
