(* ===== verification/Cert_Store.thy ===== *)
theory Cert_Store
  imports Go_Time
begin

text \<open>
  The certificate table with its SNI dispatch (\<open>internal/cert/store.go\<close>), the pre-provisioned
  loader of \<open>--no-acme\<close> (\<open>static.go\<close>) and the helpers of \<open>manager.go\<close> they use.

  A \<open>*certEntry\<close> is a record with its address \<open>ce_addr\<close>; every \<open>addEntry\<close> call of the sources
  passes a freshly allocated entry, so \<open>addEntry\<close> takes the fields and allocates the address from
  the counter \<open>cs_next\<close>.  Pointer comparison is comparison of addresses.  A \<open>tls.Certificate\<close> is
  its chain and its parsed leaf (\<open>None\<close>: nil).  Reading a file is the argument \<open>rd\<close>; parsing a key
  pair and an X.509 leaf are the arguments \<open>key_pair\<close> and \<open>parse_leaf\<close>; \<open>uni\<close> is the non-ASCII part of
  \<open>strings.ToLower\<close>.
\<close>

section \<open>Certificates and entries\<close>

record leaf =
  l_DNSNames :: "string list"
  l_NotAfter :: gotime

record cert =
  c_chain :: bytes
  c_Leaf :: "leaf option"

record certEntry =
  ce_addr :: nat
  ce_cert :: cert
  ce_sans :: "string list"
  ce_baseName :: string

record certStore =
  cs_apex :: string
  cs_entries :: "(string, certEntry) gomap"
  cs_exact :: "(string, certEntry) gomap"
  cs_wildcard :: "(string, certEntry) gomap"
  cs_next :: nat

definition newCertStore :: "string \<Rightarrow> certStore" where
  "newCertStore apex = \<lparr>cs_apex = apex, cs_entries = [], cs_exact = [], cs_wildcard = [], cs_next = 0\<rparr>"

definition expiresIn :: "cert \<Rightarrow> gotime \<Rightarrow> duration" where
  "expiresIn c now = (case c_Leaf c of None \<Rightarrow> 0 | Some l \<Rightarrow> time_Sub (l_NotAfter l) now)"

definition dnsNamesFromCert :: "(string \<Rightarrow> string) \<Rightarrow> cert \<Rightarrow> string list" where
  "dnsNamesFromCert uni c = (case c_Leaf c of None \<Rightarrow> [] | Some l \<Rightarrow> map (ToLower uni) (l_DNSNames l))"

definition normalizeSNI :: "(string \<Rightarrow> string) \<Rightarrow> string \<Rightarrow> string" where
  "normalizeSNI uni s =
     (let t = TrimSuffix (ToLower uni s) ''.''
      in case IndexByte t (CHR '':'') of Some i \<Rightarrow> take i t | None \<Rightarrow> t)"

section \<open>Index maintenance\<close>

text \<open>One name of \<open>removeFromIndexLocked\<close>: the entry goes only if the index still points to \<open>e\<close>.\<close>

definition delete_if :: "string \<Rightarrow> certEntry \<Rightarrow> (string, certEntry) gomap \<Rightarrow> (string, certEntry) gomap" where
  "delete_if n e m =
     (case map_of m n of
        Some cur \<Rightarrow> if ce_addr cur = ce_addr e then AList.delete n m else m
      | None \<Rightarrow> m)"

definition unindex_name :: "certEntry \<Rightarrow> certStore \<Rightarrow> string \<Rightarrow> certStore" where
  "unindex_name e s name =
     (if HasPrefix name ''*.'' then s\<lparr>cs_wildcard := delete_if (drop 2 name) e (cs_wildcard s)\<rparr>
      else s\<lparr>cs_exact := delete_if name e (cs_exact s)\<rparr>)"

definition removeFromIndexLocked :: "(string \<Rightarrow> string) \<Rightarrow> certEntry \<Rightarrow> certStore \<Rightarrow> certStore" where
  "removeFromIndexLocked uni e s = foldl (unindex_name e) s (dnsNamesFromCert uni (ce_cert e))"

definition index_name :: "certEntry \<Rightarrow> certStore \<Rightarrow> string \<Rightarrow> certStore" where
  "index_name e s name =
     (if HasPrefix name ''*.'' then s\<lparr>cs_wildcard := AList.update (drop 2 name) e (cs_wildcard s)\<rparr>
      else s\<lparr>cs_exact := AList.update name e (cs_exact s)\<rparr>)"

definition addEntry :: "(string \<Rightarrow> string) \<Rightarrow> certStore \<Rightarrow> cert \<Rightarrow> string list \<Rightarrow> string \<Rightarrow> certStore" where
  "addEntry uni s c sans baseName =
     (let e = \<lparr>ce_addr = cs_next s, ce_cert = c, ce_sans = sans, ce_baseName = baseName\<rparr>;
          s0 = s\<lparr>cs_next := Suc (cs_next s)\<rparr>;
          s1 = (case map_of (cs_entries s) baseName of Some old \<Rightarrow> removeFromIndexLocked uni old s0 | None \<Rightarrow> s0);
          s2 = s1\<lparr>cs_entries := AList.update baseName e (cs_entries s1)\<rparr>
      in foldl (index_name e) s2 (dnsNamesFromCert uni c))"

section \<open>Dispatch\<close>

text \<open>The parent of a host name: what follows the first dot.\<close>

definition sni_parent :: "string \<Rightarrow> string option" where
  "sni_parent sni = map_option (\<lambda>i. drop (Suc i) sni) (IndexByte sni (CHR ''.''))"

definition getCertificate ::
  "(string \<Rightarrow> string) \<Rightarrow> (string \<Rightarrow> string) \<Rightarrow> certStore \<Rightarrow> string \<Rightarrow> string + cert" where
  "getCertificate uni quote s serverName =
     (let sni = normalizeSNI uni serverName in
      case map_of (cs_exact s) sni of
        Some e \<Rightarrow> Inr (ce_cert e)
      | None \<Rightarrow>
          (case Option.bind (sni_parent sni) (map_of (cs_wildcard s)) of
             Some e \<Rightarrow> Inr (ce_cert e)
           | None \<Rightarrow>
               (case map_of (cs_exact s) (cs_apex s) of
                  Some e \<Rightarrow> Inr (ce_cert e)
                | None \<Rightarrow>
                    (case map_of (cs_wildcard s) (cs_apex s) of
                       Some e \<Rightarrow> Inr (ce_cert e)
                     | None \<Rightarrow> Inl (''no certificate for SNI '' @ quote serverName)))))"

definition cs_has :: "(string \<Rightarrow> string) \<Rightarrow> certStore \<Rightarrow> string \<Rightarrow> bool" where
  "cs_has uni s fqdn =
     (let n = normalizeSNI uni fqdn in
      map_of (cs_exact s) n \<noteq> None \<or> Option.bind (sni_parent n) (map_of (cs_wildcard s)) \<noteq> None)"

definition snapshot :: "certStore \<Rightarrow> certEntry list" where
  "snapshot s = map snd (cs_entries s)"

section \<open>Loading from disk\<close>

datatype read_result = NotExist | ReadErr string | Data bytes

record x509 =
  x_key_pair :: "bytes \<Rightarrow> bytes \<Rightarrow> bytes result"
  x_parse_leaf :: "bytes \<Rightarrow> leaf result"

text \<open>\<open>(cert, ok, err)\<close>: \<open>Inr None\<close> is \<open>ok = false\<close>.  Files are named relative to the directory.\<close>

definition loadCertFile :: "x509 \<Rightarrow> (string \<Rightarrow> read_result) \<Rightarrow> string \<Rightarrow> string + cert option" where
  "loadCertFile x rd baseName =
     (case rd (baseName @ ''.crt'') of
        NotExist \<Rightarrow> Inr None
      | ReadErr e \<Rightarrow> Inl (''read crt: '' @ e)
      | Data crt \<Rightarrow>
          (case rd (baseName @ ''.key'') of
             NotExist \<Rightarrow> Inl ''read key: file does not exist''
           | ReadErr e \<Rightarrow> Inl (''read key: '' @ e)
           | Data key \<Rightarrow>
               (case x_key_pair x crt key of
                  Inl e \<Rightarrow> Inl (''parse keypair: '' @ e)
                | Inr der \<Rightarrow>
                    (case x_parse_leaf x der of
                       Inl e \<Rightarrow> Inl (''parse leaf: '' @ e)
                     | Inr l \<Rightarrow> Inr (Some \<lparr>c_chain = der, c_Leaf = Some l\<rparr>)))))"

text \<open>One directory entry of \<open>loadAllFromDir\<close>; a broken pair is skipped.\<close>

definition load_one ::
  "(string \<Rightarrow> string) \<Rightarrow> x509 \<Rightarrow> (string \<Rightarrow> read_result) \<Rightarrow> certStore \<times> nat \<Rightarrow> string \<Rightarrow> certStore \<times> nat" where
  "load_one uni x rd sn name =
     (if \<not> HasSuffix name ''.crt'' then sn
      else
        (let baseName = TrimSuffix name ''.crt'' in
         case loadCertFile x rd baseName of
           Inr (Some c) \<Rightarrow> (addEntry uni (fst sn) c (dnsNamesFromCert uni c) baseName, Suc (snd sn))
         | _ \<Rightarrow> sn))"

definition loadAllFromDir ::
  "(string \<Rightarrow> string) \<Rightarrow> x509 \<Rightarrow> string option \<Rightarrow> string list result \<Rightarrow> (string \<Rightarrow> read_result) \<Rightarrow> certStore
     \<Rightarrow> string + certStore \<times> nat" where
  "loadAllFromDir uni x mkdir dir rd s =
     (case mkdir of
        Some e \<Rightarrow> Inl (''mkdir cert dir: '' @ e)
      | None \<Rightarrow>
          (case dir of
             Inl e \<Rightarrow> Inl (''read cert dir: '' @ e)
           | Inr names \<Rightarrow> Inr (foldl (load_one uni x rd) (s, 0) names)))"

section \<open>The pre-provisioned loader\<close>

text \<open>\<open>StaticLoader.EnsureName\<close>: the error, if any, and the store afterwards.\<close>

definition Static_EnsureName ::
  "(string \<Rightarrow> string) \<Rightarrow> x509 \<Rightarrow> (string \<Rightarrow> read_result) \<Rightarrow> certStore \<Rightarrow> string \<Rightarrow> string option \<times> certStore" where
  "Static_EnsureName uni x rd s label =
     (if label = [] then (Some ''ensure-name: empty label'', s)
      else
        (let parent = label @ ''.'' @ cs_apex s in
         if cs_has uni s parent then (None, s)
         else
           (let baseName = ''_.'' @ parent in
            case loadCertFile x rd baseName of
              Inr (Some c) \<Rightarrow> (None, addEntry uni s c (dnsNamesFromCert uni c) baseName)
            | _ \<Rightarrow> (Some (''cert not provisioned for '' @ label), s))))"

section \<open>Specification\<close>

text \<open>
  A name pattern covers a host: it is the host, or \<open>*.\<close> and the host's parent (RFC 6125: one
  label).
\<close>

definition covers :: "string \<Rightarrow> string \<Rightarrow> bool" where
  "covers pat host \<longleftrightarrow> pat = host \<and> \<not> HasPrefix pat ''*.'' \<or> (\<exists>p. sni_parent host = Some p \<and> pat = ''*.'' @ p)"

definition entry_names :: "(string \<Rightarrow> string) \<Rightarrow> certEntry \<Rightarrow> string set" where
  "entry_names uni e = set (dnsNamesFromCert uni (ce_cert e))"

text \<open>The index entry for a pattern.\<close>

definition lookup_pat :: "certStore \<Rightarrow> string \<Rightarrow> certEntry option" where
  "lookup_pat s pat =
     (if HasPrefix pat ''*.'' then map_of (cs_wildcard s) (drop 2 pat) else map_of (cs_exact s) pat)"

text \<open>
  Every index entry is a current entry of the table under a name of its certificate; the exact
  index has no wildcard names; addresses are unique.
\<close>

definition cs_inv :: "(string \<Rightarrow> string) \<Rightarrow> certStore \<Rightarrow> bool" where
  "cs_inv uni s \<longleftrightarrow>
     (\<forall>pat e. lookup_pat s pat = Some e \<longrightarrow> map_of (cs_entries s) (ce_baseName e) = Some e \<and> pat \<in> entry_names uni e)
     \<and> (\<forall>n. HasPrefix n ''*.'' \<longrightarrow> map_of (cs_exact s) n = None)
     \<and> (\<forall>b e. map_of (cs_entries s) b = Some e \<longrightarrow> ce_baseName e = b \<and> ce_addr e < cs_next s)
     \<and> (\<forall>b b' e e'. map_of (cs_entries s) b = Some e \<and> map_of (cs_entries s) b' = Some e'
          \<and> ce_addr e = ce_addr e' \<longrightarrow> e = e')"

text \<open>
  The current entries' certificates share no name, and every name of every current entry is
  indexed.
\<close>

definition names_disjoint :: "(string \<Rightarrow> string) \<Rightarrow> certStore \<Rightarrow> bool" where
  "names_disjoint uni s \<longleftrightarrow>
     (\<forall>b b' e e'. map_of (cs_entries s) b = Some e \<and> map_of (cs_entries s) b' = Some e' \<and> b \<noteq> b'
        \<longrightarrow> entry_names uni e \<inter> entry_names uni e' = {})"

definition fully_indexed :: "(string \<Rightarrow> string) \<Rightarrow> certStore \<Rightarrow> bool" where
  "fully_indexed uni s \<longleftrightarrow>
     (\<forall>b e pat. map_of (cs_entries s) b = Some e \<and> pat \<in> entry_names uni e \<longrightarrow> lookup_pat s pat = Some e)"

text \<open>A store filled by a sequence of \<open>addEntry\<close> calls.\<close>

definition add_all :: "(string \<Rightarrow> string) \<Rightarrow> certStore \<Rightarrow> (cert \<times> string list \<times> string) list \<Rightarrow> certStore" where
  "add_all uni = foldl (\<lambda>s (c, sans, b). addEntry uni s c sans b)"

definition no_star_exact :: "certStore \<Rightarrow> bool" where
  "no_star_exact s \<longleftrightarrow> (\<forall>n. HasPrefix n ''*.'' \<longrightarrow> map_of (cs_exact s) n = None)"

definition adds_disjoint :: "(string \<Rightarrow> string) \<Rightarrow> (cert \<times> string list \<times> string) list \<Rightarrow> bool" where
  "adds_disjoint uni adds \<longleftrightarrow>
     (\<forall>x\<in>set adds. \<forall>y\<in>set adds. snd (snd x) \<noteq> snd (snd y) \<longrightarrow>
        set (dnsNamesFromCert uni (fst x)) \<inter> set (dnsNamesFromCert uni (fst y)) = {})"

definition mk_cert :: "string list \<Rightarrow> cert" where
  "mk_cert names = \<lparr>c_chain = [], c_Leaf = Some \<lparr>l_DNSNames = names, l_NotAfter = 0\<rparr>\<rparr>"

definition demo_adds :: "(cert \<times> string list \<times> string) list" where
  "demo_adds = [(mk_cert [''ex.com'', ''*.ex.com''], [], ''_.ex.com''),
     (mk_cert [''a-tunnel.ex.com'', ''*.a-tunnel.ex.com''], [], ''_.a-tunnel.ex.com'')]"



section \<open>Lemmas\<close>

lemma HasPrefix_star: "HasPrefix s ''*.'' \<longleftrightarrow> (\<exists>p. s = CHR ''*'' # CHR ''.'' # p)"
  by (auto simp: HasPrefix_iff)

lemma lookup_index: "lookup_pat (index_name e s n) pat = (if pat = n then Some e else lookup_pat s pat)"
  by (auto simp: lookup_pat_def index_name_def HasPrefix_star)

lemma lookup_index_all: "lookup_pat (foldl (index_name e) s ns) pat = (if pat \<in> set ns then Some e else lookup_pat s pat)"
  by (induction ns arbitrary: s) (auto simp: lookup_index)

lemma lookup_unindex:
  "lookup_pat (unindex_name e s n) pat
     = (if pat = n \<and> (\<exists>cur. lookup_pat s pat = Some cur \<and> ce_addr cur = ce_addr e) then None else lookup_pat s pat)"
  by (auto simp: lookup_pat_def unindex_name_def delete_if_def HasPrefix_star split: option.splits)

lemma lookup_unindex_all:
  "lookup_pat (foldl (unindex_name e) s ns) pat
     = (if pat \<in> set ns \<and> (\<exists>cur. lookup_pat s pat = Some cur \<and> ce_addr cur = ce_addr e) then None else lookup_pat s pat)"
  by (induction ns arbitrary: s) (auto simp: lookup_unindex)

lemma unindex_frame [simp]:
  "cs_entries (foldl (unindex_name e) s ns) = cs_entries s" "cs_next (foldl (unindex_name e) s ns) = cs_next s"
  "cs_apex (foldl (unindex_name e) s ns) = cs_apex s"
  by (induction ns arbitrary: s) (simp_all add: unindex_name_def)

lemma index_frame [simp]:
  "cs_entries (foldl (index_name e) s ns) = cs_entries s" "cs_next (foldl (index_name e) s ns) = cs_next s"
  "cs_apex (foldl (index_name e) s ns) = cs_apex s"
  by (induction ns arbitrary: s) (simp_all add: index_name_def)

lemma no_star_index: "no_star_exact s \<Longrightarrow> no_star_exact (foldl (index_name e) s ns)"
  by (induction ns arbitrary: s) (auto simp: no_star_exact_def index_name_def)

lemma no_star_unindex: "no_star_exact s \<Longrightarrow> no_star_exact (foldl (unindex_name e) s ns)"
  by (induction ns arbitrary: s) (auto simp: no_star_exact_def unindex_name_def delete_if_def split: option.splits)

text \<open>What \<open>addEntry\<close> does to the table and to the index.\<close>

lemma addEntry_entries:
  "cs_entries (addEntry uni s c sans b)
     = AList.update b \<lparr>ce_addr = cs_next s, ce_cert = c, ce_sans = sans, ce_baseName = b\<rparr> (cs_entries s)"
  "cs_next (addEntry uni s c sans b) = Suc (cs_next s)" "cs_apex (addEntry uni s c sans b) = cs_apex s"
  by (simp_all add: addEntry_def Let_def removeFromIndexLocked_def split: option.split)

lemma lookup_congs [simp]: "lookup_pat (s\<lparr>cs_next := n\<rparr>) = lookup_pat s" "lookup_pat (s\<lparr>cs_entries := m\<rparr>) = lookup_pat s"
  by (simp_all add: lookup_pat_def fun_eq_iff)

lemma addEntry_lookup:
  "lookup_pat (addEntry uni s c sans b) pat =
     (if pat \<in> set (dnsNamesFromCert uni c)
      then Some \<lparr>ce_addr = cs_next s, ce_cert = c, ce_sans = sans, ce_baseName = b\<rparr>
      else (case map_of (cs_entries s) b of
              Some old \<Rightarrow>
                if pat \<in> entry_names uni old \<and> (\<exists>cur. lookup_pat s pat = Some cur \<and> ce_addr cur = ce_addr old)
                then None else lookup_pat s pat
            | None \<Rightarrow> lookup_pat s pat))"
  by (auto simp: addEntry_def Let_def removeFromIndexLocked_def lookup_index_all lookup_unindex_all entry_names_def
      split: option.split)

lemma addEntry_no_star: "no_star_exact s \<Longrightarrow> no_star_exact (addEntry uni s c sans b)"
proof -
  assume s: "no_star_exact s"
  let ?s0 = "s\<lparr>cs_next := Suc (cs_next s)\<rparr>"
  have "no_star_exact (case map_of (cs_entries s) b of Some old \<Rightarrow> removeFromIndexLocked uni old ?s0 | None \<Rightarrow> ?s0)"
    using s no_star_unindex [of ?s0] by (auto simp: removeFromIndexLocked_def no_star_exact_def split: option.split)
  then have "no_star_exact ((case map_of (cs_entries s) b of Some old \<Rightarrow> removeFromIndexLocked uni old ?s0 | None \<Rightarrow> ?s0)
      \<lparr>cs_entries := m\<rparr>)" for m by (simp add: no_star_exact_def)
  then show ?thesis unfolding addEntry_def Let_def by (rule no_star_index)
qed

lemma addEntry_inv:
  assumes "cs_inv uni s"
  shows "cs_inv uni (addEntry uni s c sans b)"
proof -
  let ?e = "\<lparr>ce_addr = cs_next s, ce_cert = c, ce_sans = sans, ce_baseName = b\<rparr>"
  have L: "lookup_pat s pat = Some e \<Longrightarrow> map_of (cs_entries s) (ce_baseName e) = Some e \<and> pat \<in> entry_names uni e"
    and E: "map_of (cs_entries s) b' = Some e \<Longrightarrow> ce_baseName e = b' \<and> ce_addr e < cs_next s"
    and A: "map_of (cs_entries s) b1 = Some e1 \<Longrightarrow> map_of (cs_entries s) b2 = Some e2 \<Longrightarrow> ce_addr e1 = ce_addr e2 \<Longrightarrow> e1 = e2"
    for pat e b' b1 b2 e1 e2 using assms unfolding cs_inv_def by blast+
  have "map_of (cs_entries (addEntry uni s c sans b)) (ce_baseName e) = Some e \<and> pat \<in> entry_names uni e"
    if "lookup_pat (addEntry uni s c sans b) pat = Some e" for pat e
  proof (cases "pat \<in> set (dnsNamesFromCert uni c)")
    case True
    with that have "e = ?e" by (simp add: addEntry_lookup)
    with True show ?thesis by (simp add: addEntry_entries entry_names_def)
  next
    case False
    with that have e: "lookup_pat s pat = Some e" by (auto simp: addEntry_lookup split: option.splits if_splits)
    have "ce_baseName e \<noteq> b"
    proof
      assume "ce_baseName e = b"
      then have "map_of (cs_entries s) b = Some e" using L [OF e] by simp
      with that False e L [OF e] show False by (simp add: addEntry_lookup)
    qed
    with L [OF e] show ?thesis by (simp add: addEntry_entries)
  qed
  moreover have "no_star_exact (addEntry uni s c sans b)"
    using assms by (intro addEntry_no_star) (simp add: cs_inv_def no_star_exact_def)
  moreover have "ce_baseName e = b' \<and> ce_addr e < cs_next (addEntry uni s c sans b)"
    if "map_of (cs_entries (addEntry uni s c sans b)) b' = Some e" for b' e
    using that E [of b' e] by (auto simp: addEntry_entries split: if_splits)
  moreover have "e1 = e2" if "map_of (cs_entries (addEntry uni s c sans b)) b1 = Some e1"
    "map_of (cs_entries (addEntry uni s c sans b)) b2 = Some e2" "ce_addr e1 = ce_addr e2" for b1 b2 e1 e2
    using that E [of b1 e1] E [of b2 e2] A [of b1 e1 b2 e2] by (auto simp: addEntry_entries split: if_splits)
  ultimately show ?thesis unfolding cs_inv_def no_star_exact_def by blast
qed

lemma getCertificate_lookup:
  assumes "no_star_exact s"
  shows "getCertificate uni quote s name =
    (let h = normalizeSNI uni name in
     case (if HasPrefix h ''*.'' then None else lookup_pat s h) of Some e \<Rightarrow> Inr (ce_cert e)
     | None \<Rightarrow> (case Option.bind (sni_parent h) (\<lambda>p. lookup_pat s (''*.'' @ p)) of Some e \<Rightarrow> Inr (ce_cert e)
        | None \<Rightarrow> (case map_of (cs_exact s) (cs_apex s) of Some e \<Rightarrow> Inr (ce_cert e)
           | None \<Rightarrow> (case lookup_pat s (''*.'' @ cs_apex s) of Some e \<Rightarrow> Inr (ce_cert e)
              | None \<Rightarrow> Inl (''no certificate for SNI '' @ quote name)))))"
proof -
  let ?h = "normalizeSNI uni name"
  have 1: "map_of (cs_exact s) ?h = (if HasPrefix ?h ''*.'' then None else lookup_pat s ?h)"
    using assms by (simp add: no_star_exact_def lookup_pat_def)
  have 2: "lookup_pat s (''*.'' @ p) = map_of (cs_wildcard s) p" for p
    by (simp add: lookup_pat_def HasPrefix_def)
  show ?thesis unfolding getCertificate_def Let_def 1 2 by (rule refl)
qed

lemma newCertStore_inv: "cs_inv uni (newCertStore apex)"
  by (simp add: cs_inv_def newCertStore_def lookup_pat_def)

lemma add_all_inv: "cs_inv uni s \<Longrightarrow> cs_inv uni (add_all uni s adds)"
  by (induction adds arbitrary: s) (auto simp: add_all_def addEntry_inv)

lemma add_all_apex [simp]: "cs_apex (add_all uni s adds) = cs_apex s"
  by (induction adds arbitrary: s) (auto simp: add_all_def addEntry_entries)

lemma cs_inv_no_star: "cs_inv uni s \<Longrightarrow> no_star_exact s"
  by (simp add: cs_inv_def no_star_exact_def)

lemma fully_indexed_add:
  assumes "cs_inv uni s" "fully_indexed uni s"
    "\<And>b' e. map_of (cs_entries s) b' = Some e \<Longrightarrow> b' \<noteq> b \<Longrightarrow> entry_names uni e \<inter> set (dnsNamesFromCert uni c) = {}"
  shows "fully_indexed uni (addEntry uni s c sans b)"
proof -
  have A: "map_of (cs_entries s) b1 = Some e1 \<Longrightarrow> map_of (cs_entries s) b2 = Some e2 \<Longrightarrow> ce_addr e1 = ce_addr e2 \<Longrightarrow> e1 = e2"
    and E: "map_of (cs_entries s) b1 = Some e1 \<Longrightarrow> ce_baseName e1 = b1"
    for b1 b2 e1 e2 using assms(1) unfolding cs_inv_def by blast+
  have "lookup_pat (addEntry uni s c sans b) pat = Some e"
    if "map_of (cs_entries (addEntry uni s c sans b)) b' = Some e" "pat \<in> entry_names uni e" for b' e pat
  proof (cases "b' = b")
    case True
    with that show ?thesis by (auto simp: addEntry_entries addEntry_lookup entry_names_def)
  next
    case False
    then have e: "map_of (cs_entries s) b' = Some e" using that(1) by (simp add: addEntry_entries)
    have l: "lookup_pat s pat = Some e" using assms(2) e that(2) unfolding fully_indexed_def by blast
    have n: "pat \<notin> set (dnsNamesFromCert uni c)" using assms(3) [OF e False] that(2) by blast
    have "ce_addr e \<noteq> ce_addr old" if "map_of (cs_entries s) b = Some old" for old
      using A [OF e that] E [OF e] E [OF that] False by auto
    with l n show ?thesis by (auto simp: addEntry_lookup split: option.split)
  qed
  then show ?thesis unfolding fully_indexed_def by blast
qed

lemma add_all_entry_source:
  "map_of (cs_entries (add_all uni s adds)) b = Some e \<Longrightarrow>
     map_of (cs_entries s) b = Some e \<or> (\<exists>sans. (ce_cert e, sans, b) \<in> set adds)"
proof (induction adds arbitrary: s)
  case (Cons a adds)
  obtain c sans b' where a: "a = (c, sans, b')" by (cases a)
  from Cons.IH [of "addEntry uni s c sans b'"] Cons.prems a
  have "map_of (cs_entries (addEntry uni s c sans b')) b = Some e \<or> (\<exists>sans. (ce_cert e, sans, b) \<in> set adds)"
    by (simp add: add_all_def)
  then show ?case using a by (auto simp: addEntry_entries split: if_splits)
qed (simp add: add_all_def)

lemma add_all_fully_indexed:
  assumes "adds_disjoint uni adds"
  shows "fully_indexed uni (add_all uni (newCertStore apex) adds)"
  using assms
proof (induction adds rule: rev_induct)
  case Nil
  then show ?case by (simp add: fully_indexed_def add_all_def newCertStore_def)
next
  case (snoc a adds)
  obtain c sans b where a: "a = (c, sans, b)" by (cases a)
  let ?s = "add_all uni (newCertStore apex) adds"
  have d: "adds_disjoint uni adds" using snoc.prems by (simp add: adds_disjoint_def)
  have "entry_names uni e \<inter> set (dnsNamesFromCert uni c) = {}"
    if m: "map_of (cs_entries ?s) b' = Some e" "b' \<noteq> b" for b' e
  proof -
    obtain sans' where "(ce_cert e, sans', b') \<in> set adds"
      using add_all_entry_source [OF m(1)] by (auto simp: newCertStore_def)
    then have "(ce_cert e, sans', b') \<in> set (adds @ [a])" "(c, sans, b) \<in> set (adds @ [a])" using a by simp_all
    then show ?thesis using snoc.prems m(2) unfolding adds_disjoint_def entry_names_def by (metis fst_conv snd_conv)
  qed
  then have "fully_indexed uni (addEntry uni ?s c sans b)"
    using fully_indexed_add [OF add_all_inv [OF newCertStore_inv] snoc.IH [OF d]] by blast
  then show ?case using a by (simp add: add_all_def)
qed

lemma normalizeSNI_id:
  assumes "is_ascii s" "map ascii_lower s = s" "CHR '':'' \<notin> set s" "\<not> HasSuffix s ''.''"
  shows "normalizeSNI uni s = s"
proof -
  have "IndexByte s (CHR '':'') = None" using assms(3) by (simp add: IndexByte_None_iff)
  then show ?thesis using assms by (simp add: normalizeSNI_def ToLower_def TrimSuffix_def)
qed

section \<open>Properties\<close>

text \<open>
  C21: SNI dispatch is sound.  Whatever certificates have been added, replaced and re-added under
  whatever base names, a certificate that \<open>getCertificate\<close> returns is the current one of its
  base name, never a replaced one, and it covers the requested name, or is the fallback that
  names the apex or its wildcard.
\<close>

theorem getCertificate_sound:
  assumes "getCertificate uni quote (add_all uni (newCertStore apex) adds) name = Inr c"
  shows "\<exists>b e. map_of (cs_entries (add_all uni (newCertStore apex) adds)) b = Some e \<and> ce_cert e = c
    \<and> (\<exists>pat\<in>set (dnsNamesFromCert uni c). covers pat (normalizeSNI uni name) \<or> pat = apex \<or> pat = ''*.'' @ apex)"
proof -
  let ?s = "add_all uni (newCertStore apex) adds" and ?h = "normalizeSNI uni name"
  have inv: "cs_inv uni ?s" by (rule add_all_inv [OF newCertStore_inv])
  have cur: "map_of (cs_entries ?s) (ce_baseName e) = Some e \<and> pat \<in> set (dnsNamesFromCert uni (ce_cert e))"
    if "lookup_pat ?s pat = Some e" for pat e
    using inv that unfolding cs_inv_def entry_names_def by blast
  have apex: "cs_apex ?s = apex" by (simp add: newCertStore_def)
  have ex: "lookup_pat ?s apex = Some e" if "map_of (cs_exact ?s) apex = Some e" for e
    using cs_inv_no_star [OF inv] that by (auto simp: no_star_exact_def lookup_pat_def)
  have "\<exists>pat e. lookup_pat ?s pat = Some e \<and> ce_cert e = c \<and> (covers pat ?h \<or> pat = apex \<or> pat = ''*.'' @ apex)"
    using assms ex unfolding getCertificate_lookup [OF cs_inv_no_star [OF inv]] Let_def apex
    by (auto simp: covers_def bind_eq_Some_conv split: option.splits if_splits)
  then show ?thesis using cur by blast
qed

text \<open>
  SNI dispatch is complete when base names do not share names.  If the certificates added
  under different base names have no DNS name in common, every host that a name of a current
  certificate covers is served with a certificate that covers it.
\<close>

theorem getCertificate_complete:
  assumes "adds_disjoint uni adds"
    "map_of (cs_entries (add_all uni (newCertStore apex) adds)) b = Some e"
    "pat \<in> set (dnsNamesFromCert uni (ce_cert e))" "covers pat (normalizeSNI uni name)"
  shows "\<exists>c pat'. getCertificate uni quote (add_all uni (newCertStore apex) adds) name = Inr c
    \<and> pat' \<in> set (dnsNamesFromCert uni c) \<and> covers pat' (normalizeSNI uni name)"
proof -
  let ?s = "add_all uni (newCertStore apex) adds" and ?h = "normalizeSNI uni name"
  have inv: "cs_inv uni ?s" by (rule add_all_inv [OF newCertStore_inv])
  have l: "lookup_pat ?s pat = Some e"
    using add_all_fully_indexed [OF assms(1), of apex] assms(2,3) by (simp add: fully_indexed_def entry_names_def)
  have cur: "pat \<in> set (dnsNamesFromCert uni (ce_cert e))" if "lookup_pat ?s pat = Some e" for pat e
    using inv that unfolding cs_inv_def entry_names_def by blast
  have cov: "\<not> HasPrefix ?h ''*.'' \<Longrightarrow> covers ?h ?h" "sni_parent ?h = Some p \<Longrightarrow> covers (''*.'' @ p) ?h" for p
    by (simp_all add: covers_def)
  have "\<exists>e' pat'. getCertificate uni quote ?s name = Inr (ce_cert e') \<and> lookup_pat ?s pat' = Some e' \<and> covers pat' ?h"
    using l assms(4) cov unfolding getCertificate_lookup [OF cs_inv_no_star [OF inv]] Let_def
    by (auto simp: covers_def bind_eq_Some_conv split: option.splits if_splits)
  then show ?thesis using cur by blast
qed

theorem getCertificate_sound_witness:
  "\<exists>c b e. getCertificate id id (add_all id (newCertStore ''ex.com'') demo_adds) ''80.A-tunnel.ex.com.'' = Inr c
     \<and> map_of (cs_entries (add_all id (newCertStore ''ex.com'') demo_adds)) b = Some e \<and> ce_cert e = c"
proof -
  have "getCertificate id id (add_all id (newCertStore ''ex.com'') demo_adds) ''80.A-tunnel.ex.com.''
      = Inr (mk_cert [''a-tunnel.ex.com'', ''*.a-tunnel.ex.com''])" by code_simp
  from getCertificate_sound [OF this] this show ?thesis by blast
qed

theorem getCertificate_complete_witness:
  "\<exists>c pat'. getCertificate id id (add_all id (newCertStore ''ex.com'') demo_adds) ''80.a-tunnel.ex.com'' = Inr c
     \<and> pat' \<in> set (dnsNamesFromCert id c) \<and> covers pat' ''80.a-tunnel.ex.com''"
proof -
  have d: "adds_disjoint id demo_adds" by code_simp
  have e: "map_of (cs_entries (add_all id (newCertStore ''ex.com'') demo_adds)) ''_.a-tunnel.ex.com''
      = Some \<lparr>ce_addr = 1, ce_cert = mk_cert [''a-tunnel.ex.com'', ''*.a-tunnel.ex.com''], ce_sans = [],
          ce_baseName = ''_.a-tunnel.ex.com''\<rparr>" by code_simp
  have p: "''*.a-tunnel.ex.com'' \<in> set (dnsNamesFromCert id (mk_cert [''a-tunnel.ex.com'', ''*.a-tunnel.ex.com'']))"
    by code_simp
  have n: "normalizeSNI id ''80.a-tunnel.ex.com'' = ''80.a-tunnel.ex.com''" by code_simp
  have "sni_parent ''80.a-tunnel.ex.com'' = Some ''a-tunnel.ex.com''" by code_simp
  then have c: "covers ''*.a-tunnel.ex.com'' (normalizeSNI id ''80.a-tunnel.ex.com'')" by (simp add: covers_def n)
  from getCertificate_complete [OF d e _ c] p n show ?thesis by simp
qed

text \<open>
  Shared names are lost on replacement.  The hypothesis of the previous theorem is needed:
  when two base names' certificates share a DNS name, replacing one of them by a certificate
  without that name drops the name from the index although the other certificate is loaded and
  covers it; \<open>getCertificate\<close> then reports that there is no certificate.
\<close>

theorem shared_name_lost:
  "let adds = [(mk_cert [''b.org''], [], ''B''), (mk_cert [''a.org'', ''b.org''], [], ''A''), (mk_cert [''a.org''], [], ''A'')];
       s = add_all id (newCertStore ''ex.com'') adds
   in map_option ce_cert (map_of (cs_entries s) ''B'') = Some (mk_cert [''b.org''])
      \<and> getCertificate id id s ''b.org'' = Inl ''no certificate for SNI b.org''"
  by code_simp

lemma sni_parent_label: "CHR ''.'' \<notin> set label \<Longrightarrow> sni_parent (label @ ''.'' @ rest) = Some rest"
  using IndexByte_append [of "CHR ''.''" label rest] by (simp add: sni_parent_def)

text \<open>
  The apex wildcard satisfies every label.  With a certificate for \<open>*.{apex}\<close> loaded, which the
  manual asks for, \<open>EnsureName\<close> of the pre-provisioned loader succeeds at once for every label
  without a dot and loads nothing, whether or not a certificate for \<open>*.{label}.{apex}\<close> exists: the
  reply \<open>cert not provisioned\<close> is then unreachable.
\<close>

theorem Static_EnsureName_apex_wildcard:
  assumes "map_of (cs_wildcard s) (cs_apex s) = Some e" "label \<noteq> []" "CHR ''.'' \<notin> set label"
    "normalizeSNI uni (label @ ''.'' @ cs_apex s) = label @ ''.'' @ cs_apex s"
  shows "Static_EnsureName uni x rd s label = (None, s)"
  using assms sni_parent_label [OF assms(3), of "cs_apex s"] by (simp add: Static_EnsureName_def cs_has_def Let_def)

theorem Static_EnsureName_apex_wildcard_witness:
  "let s = add_all id (newCertStore ''ex.com'') [(mk_cert [''ex.com'', ''*.ex.com''], [], ''_.ex.com'')]
   in Static_EnsureName id \<lparr>x_key_pair = \<lambda>_ _. Inl [], x_parse_leaf = \<lambda>_. Inl []\<rparr> (\<lambda>_. NotExist) s ''new-tunnel'' = (None, s)
      \<and> getCertificate id id s ''80.new-tunnel.ex.com'' = Inr (mk_cert [''ex.com'', ''*.ex.com''])
      \<and> \<not> covers ''ex.com'' ''80.new-tunnel.ex.com'' \<and> \<not> covers ''*.ex.com'' ''80.new-tunnel.ex.com''"
proof -
  let ?s = "add_all id (newCertStore ''ex.com'') [(mk_cert [''ex.com'', ''*.ex.com''], [], ''_.ex.com'')]"
  let ?e = "\<lparr>ce_addr = 0, ce_cert = mk_cert [''ex.com'', ''*.ex.com''], ce_sans = [], ce_baseName = ''_.ex.com''\<rparr>"
  have apex: "cs_apex ?s = ''ex.com''" by (simp add: newCertStore_def)
  have w: "map_of (cs_wildcard ?s) ''ex.com'' = Some ?e" by code_simp
  have n: "normalizeSNI id ''new-tunnel.ex.com'' = ''new-tunnel.ex.com''" by code_simp
  have g: "getCertificate id id ?s ''80.new-tunnel.ex.com'' = Inr (mk_cert [''ex.com'', ''*.ex.com''])" by code_simp
  have p: "sni_parent ''80.new-tunnel.ex.com'' = Some ''new-tunnel.ex.com''" by code_simp
  show ?thesis
    using Static_EnsureName_apex_wildcard [of ?s ?e "''new-tunnel''"] apex w n g p by (simp add: covers_def Let_def)
qed

end
