(* ===== verification/Cert_Manager.thy ===== *)
theory Cert_Manager
  imports Cert_Store Rate_Limit
begin

text \<open>
  Issuing and renewing certificates (\<open>internal/cert/manager.go\<close>), the classification of failures
  (\<open>errors.go\<close>) and the two DNS checks (\<open>precheck.go\<close>, \<open>dnscheck.go\<close>).

  The ACME client (package lego) is the argument \<open>ae_obtain\<close>, the disk the two read functions of
  the environment: the disk may change between the fast path and the check inside the
  singleflight group.  A call that joins a group in flight gets that call's result
  (\<open>ae_joined\<close>); the effects are the leader's.  \<open>ensureSANs\<close> also returns the ACME orders it placed
  (the SAN list and the time).
\<close>

section \<open>Errors\<close>

text \<open>
  A Go error as far as \<open>IsPermanent\<close> can see it: its message, whether its chain contains
  \<open>ErrOrderLimit\<close>, and the type of the ACME problem document in its chain.
\<close>

record goerr =
  ge_msg :: string
  ge_order_limit :: bool
  ge_problem :: "string option"

definition plain_err :: "string \<Rightarrow> goerr" where
  "plain_err m = \<lparr>ge_msg = m, ge_order_limit = False, ge_problem = None\<rparr>"

text \<open>\<open>fmt.Errorf("prefix %w", err)\<close>.\<close>

definition wrap_err :: "string \<Rightarrow> goerr \<Rightarrow> goerr" where
  "wrap_err p e = e\<lparr>ge_msg := p @ ge_msg e\<rparr>"

definition ErrOrderLimit :: goerr where
  "ErrOrderLimit = \<lparr>ge_msg = ''acme order limit reached'', ge_order_limit = True, ge_problem = None\<rparr>"

definition acmeRateLimited :: string where
  "acmeRateLimited = ''urn:ietf:params:acme:error:rateLimited''"

definition IsPermanent :: "goerr option \<Rightarrow> bool" where
  "IsPermanent err =
     (case err of
        None \<Rightarrow> False
      | Some e \<Rightarrow>
          if ge_order_limit e then True
          else if ge_problem e = Some acmeRateLimited then True
          else Contains (ge_msg e) acmeRateLimited \<or> HasPrefix (ge_msg e) ''cert not provisioned'')"

section \<open>The manager\<close>

abbreviation renewBefore :: duration where
  "renewBefore \<equiv> 30 * 24 * Hour"

record Manager =
  m_Apex :: string
  m_store :: certStore
  m_orderLimit :: "SlidingWindow option"
  m_orderSlots :: "nat option"

definition Manager_New :: "string \<Rightarrow> Manager" where
  "Manager_New apex = \<lparr>m_Apex = apex, m_store = newCertStore apex, m_orderLimit = None, m_orderSlots = None\<rparr>"

definition SetOrderLimit :: "Manager \<Rightarrow> int \<Rightarrow> int \<Rightarrow> Manager" where
  "SetOrderLimit m perHour concurrent =
     (let m1 = (if perHour > 0 then m\<lparr>m_orderLimit := Some (SlidingWindow_New perHour Hour)\<rparr> else m)
      in if concurrent > 0 then m1\<lparr>m_orderSlots := Some (nat concurrent)\<rparr> else m1)"

definition Domains :: "Manager \<Rightarrow> string list" where
  "Domains m = [m_Apex m, ''*.'' @ m_Apex m]"

definition apexBaseName :: "Manager \<Rightarrow> string" where
  "apexBaseName m = ''_.'' @ m_Apex m"

text \<open>What one call meets: the results of the two \<open>MkdirAll\<close>, the disk at both checks, the clock, the
  call it joins if any, the number of orders running when it asks for a slot, the limiter's
  random eviction choice, and the certificate authority.\<close>

record acme_env =
  ae_mkdir_cert :: "string option"
  ae_mkdir_account :: "string option"
  ae_read1 :: "string \<Rightarrow> read_result"
  ae_read2 :: "string \<Rightarrow> read_result"
  ae_now :: gotime
  ae_joined :: "goerr option option"
  ae_running :: nat
  ae_rnd :: nat
  ae_obtain :: "string list \<Rightarrow> string \<Rightarrow> goerr + cert"

type_synonym order = "string list \<times> gotime"

text \<open>\<open>fmt\<close>'s \<open>%v\<close> of a string slice.\<close>

definition show_list :: "string list \<Rightarrow> string" where
  "show_list xs = ''['' @ Join xs '' '' @ '']''"

text \<open>The function run inside the singleflight group.\<close>

definition issue ::
  "(string \<Rightarrow> string) \<Rightarrow> x509 \<Rightarrow> acme_env \<Rightarrow> Manager \<Rightarrow> string list \<Rightarrow> string \<Rightarrow> goerr option \<times> Manager \<times> order list" where
  "issue uni x env m sans baseName =
     (case loadCertFile x (ae_read2 env) baseName of
        Inl e \<Rightarrow> (Some (plain_err e), m, [])
      | Inr oc \<Rightarrow>
          if oc \<noteq> None \<and> expiresIn (the oc) (ae_now env) > renewBefore
          then (None, m\<lparr>m_store := addEntry uni (m_store m) (the oc) (dnsNamesFromCert uni (the oc)) baseName\<rparr>, [])
          else if (case m_orderSlots m of Some cap \<Rightarrow> ae_running env \<ge> cap | None \<Rightarrow> False)
          then (Some ErrOrderLimit, m, [])
          else
            (let (ok, m1) =
                   (case m_orderLimit m of
                      None \<Rightarrow> (True, m)
                    | Some sw \<Rightarrow>
                        (let (ok, sw') = AllowAt (ae_rnd env) sw ''global'' (ae_now env)
                         in (ok, m\<lparr>m_orderLimit := Some sw'\<rparr>)))
             in if \<not> ok then (Some ErrOrderLimit, m1, [])
                else
                  (case ae_obtain env sans baseName of
                     Inl e \<Rightarrow> (Some (wrap_err (''obtain cert '' @ show_list sans @ '': '') e), m1, [(sans, ae_now env)])
                   | Inr c \<Rightarrow>
                       (None, m1\<lparr>m_store := addEntry uni (m_store m1) c sans baseName\<rparr>, [(sans, ae_now env)]))))"

definition ensureSANs ::
  "(string \<Rightarrow> string) \<Rightarrow> x509 \<Rightarrow> acme_env \<Rightarrow> Manager \<Rightarrow> string list \<Rightarrow> string \<Rightarrow> goerr option \<times> Manager \<times> order list" where
  "ensureSANs uni x env m sans baseName =
     (if ae_mkdir_cert env \<noteq> None then (Some (plain_err (''mkdir cert dir: '' @ the (ae_mkdir_cert env))), m, [])
      else if ae_mkdir_account env \<noteq> None
      then (Some (plain_err (''mkdir account dir: '' @ the (ae_mkdir_account env))), m, [])
      else
        (case loadCertFile x (ae_read1 env) baseName of
           Inl e \<Rightarrow> (Some (plain_err e), m, [])
         | Inr oc \<Rightarrow>
             if oc \<noteq> None \<and> expiresIn (the oc) (ae_now env) > renewBefore
             then (None, m\<lparr>m_store := addEntry uni (m_store m) (the oc) (dnsNamesFromCert uni (the oc)) baseName\<rparr>, [])
             else (case ae_joined env of
                     Some res \<Rightarrow> (res, m, [])
                   | None \<Rightarrow> issue uni x env m sans baseName)))"

definition Manager_Ensure ::
  "(string \<Rightarrow> string) \<Rightarrow> x509 \<Rightarrow> acme_env \<Rightarrow> Manager \<Rightarrow> goerr option \<times> Manager \<times> order list" where
  "Manager_Ensure uni x env m = ensureSANs uni x env m (Domains m) (apexBaseName m)"

definition Manager_EnsureName ::
  "(string \<Rightarrow> string) \<Rightarrow> x509 \<Rightarrow> acme_env \<Rightarrow> Manager \<Rightarrow> string \<Rightarrow> goerr option \<times> Manager \<times> order list" where
  "Manager_EnsureName uni x env m label =
     (if label = [] then (Some (plain_err ''ensure-name: empty label''), m, [])
      else (let parent = label @ ''.'' @ m_Apex m
            in ensureSANs uni x env m [parent, ''*.'' @ parent] (''_.'' @ parent)))"

text \<open>\<open>checkAndRenew\<close> over the snapshot of the entries; \<open>obtain\<close> is not counted against the caps.\<close>

definition renew_one ::
  "(string \<Rightarrow> string) \<Rightarrow> gotime \<Rightarrow> (string list \<Rightarrow> string \<Rightarrow> goerr + cert) \<Rightarrow> certStore \<Rightarrow> certEntry \<Rightarrow> certStore" where
  "renew_one uni now obt s e =
     (if expiresIn (ce_cert e) now > renewBefore then s
      else (case obt (ce_sans e) (ce_baseName e) of
              Inl _ \<Rightarrow> s
            | Inr c \<Rightarrow> addEntry uni s c (ce_sans e) (ce_baseName e)))"

definition checkAndRenew ::
  "(string \<Rightarrow> string) \<Rightarrow> gotime \<Rightarrow> (string list \<Rightarrow> string \<Rightarrow> goerr + cert) \<Rightarrow> Manager \<Rightarrow> Manager" where
  "checkAndRenew uni now obt m = m\<lparr>m_store := foldl (renew_one uni now obt) (m_store m) (snapshot (m_store m))\<rparr>"

section \<open>The authoritative pre-check\<close>

text \<open>
  The polls of one name server: each is the answer of the TXT query and whether the following
  \<open>select\<close> took the \<open>ctx.Done\<close> branch.  \<open>None\<close>: the polls are used up and the loop would go on.
\<close>

type_synonym poll = "string list result \<times> bool"

fun waitOneNS :: "string \<Rightarrow> poll list \<Rightarrow> bool option" where
  "waitOneNS value [] = None"
| "waitOneNS value ((ans, done) # ps) =
     (if (case ans of Inr txts \<Rightarrow> value \<in> set txts | Inl _ \<Rightarrow> False) then Some True
      else if done then Some False else waitOneNS value ps)"

datatype precheck_err = LookupNS_err string | No_NS | Not_seen string | Inner_err string

text \<open>The name servers in turn; \<open>polls ns\<close> are the polls of \<open>ns\<close>.\<close>

fun wait_all :: "string \<Rightarrow> (string \<Rightarrow> poll list) \<Rightarrow> string list \<Rightarrow> (precheck_err option) option" where
  "wait_all value polls [] = Some None"
| "wait_all value polls (ns # nss) =
     (case waitOneNS value (polls ns) of
        None \<Rightarrow> None
      | Some True \<Rightarrow> wait_all value polls nss
      | Some False \<Rightarrow> Some (Some (Not_seen ns)))"

definition waitAuthoritative ::
  "string list result \<Rightarrow> (string \<Rightarrow> poll list) \<Rightarrow> string \<Rightarrow> (precheck_err option) option" where
  "waitAuthoritative nss polls value =
     (case nss of
        Inl e \<Rightarrow> Some (Some (LookupNS_err e))
      | Inr ns \<Rightarrow> if ns = [] then Some (Some No_NS) else wait_all value polls ns)"

definition PreCheck_Present ::
  "string option \<Rightarrow> string list result \<Rightarrow> (string \<Rightarrow> poll list) \<Rightarrow> string \<Rightarrow> (precheck_err option) option" where
  "PreCheck_Present inner nss polls value =
     (case inner of Some e \<Rightarrow> Some (Some (Inner_err e)) | None \<Rightarrow> waitAuthoritative nss polls value)"

text \<open>The hosts of the NS records without their trailing dot; empty ones are dropped.\<close>

definition defaultLookupNS :: "string list result \<Rightarrow> string list result" where
  "defaultLookupNS nss =
     (case nss of
        Inl e \<Rightarrow> Inl e
      | Inr hosts \<Rightarrow>
          (let out = filter (\<lambda>h. h \<noteq> []) (map (\<lambda>h. TrimSuffix h ''.'') hosts)
           in if out = [] then Inl ''no usable NS records'' else Inr out))"

section \<open>The wildcard probe\<close>

text \<open>A resolver error: its message and \<open>DNSError.IsNotFound\<close>.\<close>

record dns_err =
  de_msg :: string
  de_not_found :: bool

definition isNotFoundErr :: "dns_err option \<Rightarrow> bool" where
  "isNotFoundErr err =
     (case err of None \<Rightarrow> False | Some e \<Rightarrow> de_not_found e \<or> Contains (de_msg e) ''no such host'')"

datatype probe_log = Verified | Strict | Unknown | NoAddresses

text \<open>Whether the wildcard is permissive, and which line is logged.\<close>

definition ProbeWildcard :: "dns_err + string list \<Rightarrow> bool \<times> probe_log" where
  "ProbeWildcard res =
     (let err = (case res of Inl e \<Rightarrow> Some e | Inr _ \<Rightarrow> None);
          permissive = (case res of Inl _ \<Rightarrow> False | Inr addrs \<Rightarrow> length addrs > 0)
      in (permissive,
          if permissive then Verified
          else if isNotFoundErr err then Strict
          else if err \<noteq> None then Unknown
          else NoAddresses))"

section \<open>Histories of orders\<close>

text \<open>A sequence of \<open>ensureSANs\<close> calls, collecting the times of the orders.\<close>

type_synonym ensure_call = "acme_env \<times> string list \<times> string"

fun ensure_run ::
  "(string \<Rightarrow> string) \<Rightarrow> x509 \<Rightarrow> Manager \<Rightarrow> ensure_call list \<Rightarrow> Manager \<times> gotime list" where
  "ensure_run uni x m [] = (m, [])"
| "ensure_run uni x m ((env, sans, b) # cs) =
     (let (_, m1, os) = ensureSANs uni x env m sans b;
          (m2, ts) = ensure_run uni x m1 cs
      in (m2, map snd os @ ts))"

definition demo_env :: "gotime \<Rightarrow> acme_env" where
  "demo_env now = \<lparr>ae_mkdir_cert = None, ae_mkdir_account = None, ae_read1 = (\<lambda>_. NotExist), ae_read2 = (\<lambda>_. NotExist),
     ae_now = now, ae_joined = None, ae_running = 0, ae_rnd = 0, ae_obtain = (\<lambda>sans _. Inr (mk_cert sans))\<rparr>"

definition demo_x509 :: x509 where
  "demo_x509 = \<lparr>x_key_pair = \<lambda>_ _. Inl [], x_parse_leaf = \<lambda>_. Inl []\<rparr>"



section \<open>Lemmas\<close>

lemma issue_limit:
  assumes "issue uni x env m sans b = (e, m1, os)" "m_orderLimit m = Some sw"
  shows "(m_orderLimit m1 = Some sw \<and> os = [])
    \<or> (\<exists>ok sw'. AllowAt (ae_rnd env) sw ''global'' (ae_now env) = (ok, sw') \<and> m_orderLimit m1 = Some sw'
         \<and> map snd os = (if ok then [ae_now env] else []))"
proof -
  obtain ok sw' where a: "AllowAt (ae_rnd env) sw ''global'' (ae_now env) = (ok, sw')" by fastforce
  then show ?thesis using assms by (auto simp: issue_def Let_def split: sum.splits if_splits)
qed

lemma ensure_limit:
  assumes "ensureSANs uni x env m sans b = (e, m1, os)" "m_orderLimit m = Some sw"
  shows "(m_orderLimit m1 = Some sw \<and> os = [])
    \<or> (\<exists>ok sw'. AllowAt (ae_rnd env) sw ''global'' (ae_now env) = (ok, sw') \<and> m_orderLimit m1 = Some sw'
         \<and> map snd os = (if ok then [ae_now env] else []))"
proof -
  consider "m_orderLimit m1 = Some sw \<and> os = []" | "issue uni x env m sans b = (e, m1, os)"
    using assms by (auto simp: ensureSANs_def split: sum.splits if_splits option.splits)
  then show ?thesis using issue_limit [OF _ assms(2)] by cases blast+
qed

lemma ensure_run_sim:
  assumes "m_orderLimit m = Some sw" "sw_sim {''global''} t (sw, h)" "sorted (t # map (\<lambda>c. ae_now (fst c)) cs)"
    "0 < sw_max sw" "sw_maxKeys sw \<le> 0 \<or> 1 \<le> sw_maxKeys sw"
    "ensure_run uni x m cs = (m', ts)"
  shows "\<exists>sw' h' t'. m_orderLimit m' = Some sw' \<and> sw_sim {''global''} t' (sw', h') \<and> sw_max sw' = sw_max sw
     \<and> sw_window sw' = sw_window sw \<and> h' ''global'' = h ''global'' @ ts"
  using assms
proof (induction cs arbitrary: m sw h t ts)
  case Nil
  then show ?case by auto
next
  case (Cons c cs)
  obtain env sans b where c: "c = (env, sans, b)" by (cases c)
  obtain e m1 os where s: "ensureSANs uni x env m sans b = (e, m1, os)" by (metis prod_cases3)
  obtain ts2 where r: "ensure_run uni x m1 cs = (m', ts2)" and res: "ts = map snd os @ ts2"
    using Cons.prems(6) c s by (auto split: prod.splits)
  have now: "t \<le> ae_now env" "sorted (ae_now env # map (\<lambda>c. ae_now (fst c)) cs)" "sorted (t # map (\<lambda>c. ae_now (fst c)) cs)"
    using Cons.prems(3) c by auto
  from ensure_limit [OF s Cons.prems(1)] show ?case
  proof (elim disjE exE conjE)
    assume "m_orderLimit m1 = Some sw" "os = []"
    then show ?thesis using Cons.IH [OF _ Cons.prems(2) now(3) Cons.prems(4,5) r] res by auto
  next
    fix ok sw'
    assume a: "AllowAt (ae_rnd env) sw ''global'' (ae_now env) = (ok, sw')" and l: "m_orderLimit m1 = Some sw'"
      and o: "map snd os = (if ok then [ae_now env] else [])"
    let ?h = "if ok then h(''global'' := h ''global'' @ [ae_now env]) else h"
    have "sw_sim {''global''} (ae_now env) (sw_step (sw, h) (LAllow ''global'' (ae_now env) (ae_rnd env)))"
      using Cons.prems(4,5) by (intro sw_sim_allow [OF Cons.prems(2) now(1), THEN conjunct2]) simp_all
    then have sim: "sw_sim {''global''} (ae_now env) (sw', ?h)" using a by simp
    have fr: "sw_max sw' = sw_max sw" "sw_window sw' = sw_window sw" "sw_maxKeys sw' = sw_maxKeys sw"
      using AllowAt_frame [of "ae_rnd env" sw "''global''" "ae_now env"] a by simp_all
    have e: "?h ''global'' @ ts2 = h ''global'' @ ts" using o res by simp
    have "0 < sw_max sw'" "sw_maxKeys sw' \<le> 0 \<or> 1 \<le> sw_maxKeys sw'" using Cons.prems(4,5) fr by simp_all
    from Cons.IH [OF l sim now(2) this r] show ?thesis unfolding e fr .
  qed
qed

section \<open>Properties\<close>

text \<open>
  C25: the order cap holds.  With \<open>SetOrderLimit n _\<close> on a fresh manager and any sequence of
  \<open>EnsureName\<close>-style calls (on whatever names, with whatever is on disk, whatever joins, slot
  refusals and failures of the certificate authority), no window of one hour contains more than
  \<open>n\<close> ACME orders.
\<close>

theorem orders_capped:
  assumes "0 < n" "sorted (map (\<lambda>c. ae_now (fst c)) cs)"
    "ensure_run uni x (SetOrderLimit (Manager_New apex) n k) cs = (m', ts)"
  shows "int (length (filter (\<lambda>t. T - Hour < t \<and> t \<le> T) ts)) \<le> n"
proof (cases cs)
  case Nil
  then show ?thesis using assms by simp
next
  case (Cons c cs')
  let ?m = "SetOrderLimit (Manager_New apex) n k" and ?sw = "SlidingWindow_New n Hour"
  have l: "m_orderLimit ?m = Some ?sw" using assms(1) by (simp add: SetOrderLimit_def Let_def)
  have srt: "sorted (ae_now (fst c) # map (\<lambda>c. ae_now (fst c)) cs)" using assms(2) Cons by auto
  have fr: "sw_max ?sw = n" "sw_window ?sw = Hour" "1 \<le> sw_maxKeys ?sw"
    by (simp_all add: SlidingWindow_New_def DefaultMaxKeys_def)
  obtain sw' h' t' where "sw_sim {''global''} t' (sw', h')" "sw_max sw' = n" "sw_window sw' = Hour"
    "h' ''global'' = ts"
    using ensure_run_sim [OF l sw_sim_New [OF assms(1)] srt _ _ assms(3)] fr assms(1) by auto
  then show ?thesis by (auto simp: sw_sim_def)
qed

theorem orders_capped_witness:
  "let (m, ts) = ensure_run id demo_x509 (SetOrderLimit (Manager_New ''ex.com'') 1 0)
         [(demo_env 0, [''a.ex.com''], ''_.a.ex.com''), (demo_env 5, [''b.ex.com''], ''_.b.ex.com'')]
   in ts = [0] \<and> int (length (filter (\<lambda>t. 10 - Hour < t \<and> t \<le> 10) ts)) \<le> 1"
proof -
  let ?cs = "[(demo_env 0, [''a.ex.com''], ''_.a.ex.com''), (demo_env 5, [''b.ex.com''], ''_.b.ex.com'')]"
  obtain m ts where r: "ensure_run id demo_x509 (SetOrderLimit (Manager_New ''ex.com'') 1 0) ?cs = (m, ts)" by fastforce
  have "ts = [0]" using r
    by (auto simp: demo_env_def demo_x509_def ensureSANs_def issue_def loadCertFile_def SetOrderLimit_def Manager_New_def
        SlidingWindow_New_def DefaultMaxKeys_def AllowAt_def samples_of_def drop_aged_def)
  moreover have "int (length (filter (\<lambda>t. 10 - Hour < t \<and> t \<le> 10) ts)) \<le> 1"
    using orders_capped [OF _ _ r, of 10] by (simp add: demo_env_def)
  ultimately show ?thesis using r by simp
qed

lemma lookup_added_star:
  "''*.'' @ p \<in> set (dnsNamesFromCert uni c) \<Longrightarrow>
     map_of (cs_wildcard (addEntry uni s c sans b)) p = Some \<lparr>ce_addr = cs_next s, ce_cert = c, ce_sans = sans, ce_baseName = b\<rparr>"
  using addEntry_lookup [of uni s c sans b "''*.'' @ p"] by (simp add: lookup_pat_def HasPrefix_def)

lemma issue_store:
  "issue uni x env m sans b = (e, m1, os) \<Longrightarrow>
     (e \<noteq> None \<longrightarrow> m_store m1 = m_store m)
     \<and> (e = None \<longrightarrow> (\<exists>c sans'. m_store m1 = addEntry uni (m_store m) c sans' b
          \<and> (expiresIn c (ae_now env) > renewBefore \<or> ae_obtain env sans b = Inr c)))"
  by (fastforce simp: issue_def Let_def split: sum.splits if_splits option.splits prod.splits)

lemma ensure_store:
  "ensureSANs uni x env m sans b = (e, m1, os) \<Longrightarrow>
     (e \<noteq> None \<longrightarrow> m_store m1 = m_store m)
     \<and> (e = None \<and> ae_joined env = None \<longrightarrow> (\<exists>c sans'. m_store m1 = addEntry uni (m_store m) c sans' b
          \<and> (expiresIn c (ae_now env) > renewBefore \<or> ae_obtain env sans b = Inr c)))"
proof -
  assume a: "ensureSANs uni x env m sans b = (e, m1, os)"
  consider "e \<noteq> None" "m1 = m" | "ae_joined env \<noteq> None" "m1 = m"
    | c where "e = None" "m_store m1 = addEntry uni (m_store m) c (dnsNamesFromCert uni c) b"
        "expiresIn c (ae_now env) > renewBefore"
    | "issue uni x env m sans b = (e, m1, os)"
    using a by (auto simp: ensureSANs_def split: sum.splits if_splits option.splits)
  then show ?thesis
    by cases (use issue_store [of uni x env m sans b e m1 os] in blast)+
qed

text \<open>
  Issuing a name makes it servable.  When \<open>EnsureName\<close> fails, the certificate table is
  unchanged.  When it succeeds (and did not merely join another call), the table holds under the
  conventional base name a certificate that is more than 30 days from expiry or was just obtained
  for the label's two names; if that certificate has the wildcard of the label among its names,
  every host directly below the label is served with a certificate that covers it.
\<close>

theorem EnsureName_serves:
  assumes "Manager_EnsureName uni x env m label = (e, m', os)" "ae_joined env = None" "cs_inv uni (m_store m)"
  shows "(e \<noteq> None \<longrightarrow> m_store m' = m_store m)
    \<and> (e = None \<longrightarrow> (\<exists>c sans. let parent = label @ ''.'' @ m_Apex m in
         map_of (cs_entries (m_store m')) (''_.'' @ parent)
           = Some \<lparr>ce_addr = cs_next (m_store m), ce_cert = c, ce_sans = sans, ce_baseName = ''_.'' @ parent\<rparr>
         \<and> (expiresIn c (ae_now env) > renewBefore \<or> ae_obtain env [parent, ''*.'' @ parent] (''_.'' @ parent) = Inr c)
         \<and> (''*.'' @ parent \<in> set (dnsNamesFromCert uni c) \<longrightarrow>
             (\<forall>name. sni_parent (normalizeSNI uni name) = Some parent \<longrightarrow>
               (\<exists>c' pat. getCertificate uni quote (m_store m') name = Inr c'
                   \<and> pat \<in> set (dnsNamesFromCert uni c') \<and> covers pat (normalizeSNI uni name))))))"
proof (cases "label = []")
  case True
  then show ?thesis using assms by (auto simp: Manager_EnsureName_def)
next
  case False
  let ?p = "label @ ''.'' @ m_Apex m"
  have E: "ensureSANs uni x env m [?p, ''*.'' @ ?p] (''_.'' @ ?p) = (e, m', os)"
    using assms(1) False by (simp add: Manager_EnsureName_def Let_def)
  note S = ensure_store [OF E]
  show ?thesis
  proof (cases e)
    case None
    then obtain c sans where c: "m_store m' = addEntry uni (m_store m) c sans (''_.'' @ ?p)"
      "expiresIn c (ae_now env) > renewBefore \<or> ae_obtain env [?p, ''*.'' @ ?p] (''_.'' @ ?p) = Inr c"
      using S assms(2) by blast
    have inv: "cs_inv uni (m_store m')" unfolding c(1) using assms(3) by (rule addEntry_inv)
    have ent: "map_of (cs_entries (m_store m')) (''_.'' @ ?p)
        = Some \<lparr>ce_addr = cs_next (m_store m), ce_cert = c, ce_sans = sans, ce_baseName = ''_.'' @ ?p\<rparr>"
      unfolding c(1) by (simp add: addEntry_entries)
    have serve: "\<exists>c' pat. getCertificate uni quote (m_store m') name = Inr c'
        \<and> pat \<in> set (dnsNamesFromCert uni c') \<and> covers pat (normalizeSNI uni name)"
      if star: "''*.'' @ ?p \<in> set (dnsNamesFromCert uni c)" and par: "sni_parent (normalizeSNI uni name) = Some ?p" for name
    proof (cases "map_of (cs_exact (m_store m')) (normalizeSNI uni name)")
      case None
      then have "getCertificate uni quote (m_store m') name = Inr c"
        using par lookup_added_star [OF star, of "m_store m" sans "''_.'' @ ?p"] by (simp add: getCertificate_def c(1))
      moreover have "covers (''*.'' @ ?p) (normalizeSNI uni name)" using par by (simp add: covers_def)
      ultimately show ?thesis using star by blast
    next
      case (Some e')
      then have "\<not> HasPrefix (normalizeSNI uni name) ''*.''" using cs_inv_no_star [OF inv] by (auto simp: no_star_exact_def)
      moreover have "normalizeSNI uni name \<in> set (dnsNamesFromCert uni (ce_cert e'))"
        using Some calculation inv unfolding cs_inv_def lookup_pat_def entry_names_def by (metis)
      ultimately show ?thesis using Some by (auto simp: getCertificate_def covers_def)
    qed
    show ?thesis using None ent c(2) serve by (auto simp: Let_def)
  qed (use S in simp)
qed

theorem EnsureName_serves_witness:
  "\<exists>m' os c'. Manager_EnsureName id demo_x509 (demo_env 0) (Manager_New ''ex.com'') ''a-tunnel'' = (None, m', os)
     \<and> getCertificate id id (m_store m') ''80.a-tunnel.ex.com'' = Inr c'"
proof -
  let ?M = "Manager_New ''ex.com''" and ?c = "mk_cert [''a-tunnel.ex.com'', ''*.a-tunnel.ex.com'']"
  obtain e m' os where r: "Manager_EnsureName id demo_x509 (demo_env 0) ?M ''a-tunnel'' = (e, m', os)"
    by (metis prod_cases3)
  have m: "e = None" "m_store m' = addEntry id (newCertStore ''ex.com'') ?c
      [''a-tunnel.ex.com'', ''*.a-tunnel.ex.com''] ''_.a-tunnel.ex.com''" using r
    by (auto simp: Manager_EnsureName_def ensureSANs_def issue_def demo_env_def demo_x509_def loadCertFile_def Manager_New_def Let_def)
  have inv: "cs_inv id (m_store ?M)" by (simp add: Manager_New_def newCertStore_inv)
  have j: "ae_joined (demo_env 0) = None" "m_Apex ?M = ''ex.com''" by (simp_all add: demo_env_def Manager_New_def)
  have star: "''*.a-tunnel.ex.com'' \<in> set (dnsNamesFromCert id ?c)" by code_simp
  have par: "sni_parent (normalizeSNI id ''80.a-tunnel.ex.com'') = Some ''a-tunnel.ex.com''" by code_simp
  obtain c sans where c: "map_of (cs_entries (m_store m')) ''_.a-tunnel.ex.com''
      = Some \<lparr>ce_addr = cs_next (m_store ?M), ce_cert = c, ce_sans = sans, ce_baseName = ''_.a-tunnel.ex.com''\<rparr>"
    and s: "''*.a-tunnel.ex.com'' \<in> set (dnsNamesFromCert id c) \<Longrightarrow>
      \<exists>c'. getCertificate id id (m_store m') ''80.a-tunnel.ex.com'' = Inr c'"
    using EnsureName_serves [OF r j(1) inv, of id] m(1) par by (auto simp: j(2) Let_def)
  have "c = ?c" using c by (auto simp: m(2) addEntry_entries)
  with s star r m(1) show ?thesis by blast
qed

lemma renew_one_entries:
  "map_of (cs_entries (renew_one uni now obt s e)) b =
     (if b = ce_baseName e \<and> \<not> expiresIn (ce_cert e) now > renewBefore \<and> \<not> isl (obt (ce_sans e) (ce_baseName e))
      then Some \<lparr>ce_addr = cs_next s, ce_cert = projr (obt (ce_sans e) (ce_baseName e)), ce_sans = ce_sans e, ce_baseName = ce_baseName e\<rparr>
      else map_of (cs_entries s) b)"
  by (auto simp: renew_one_def addEntry_entries split: sum.splits)

lemma renew_all_other:
  "b \<notin> set (map ce_baseName es) \<Longrightarrow>
     map_of (cs_entries (foldl (renew_one uni now obt) s es)) b = map_of (cs_entries s) b"
  by (induction es arbitrary: s) (auto simp: renew_one_entries)

lemma renew_all_entries:
  assumes "distinct (map ce_baseName es)" "e \<in> set es" "map_of (cs_entries s) (ce_baseName e) = Some e"
  shows "\<exists>e'. map_of (cs_entries (foldl (renew_one uni now obt) s es)) (ce_baseName e) = Some e' \<and> ce_sans e' = ce_sans e
      \<and> (if expiresIn (ce_cert e) now > renewBefore \<or> isl (obt (ce_sans e) (ce_baseName e)) then e' = e
         else obt (ce_sans e) (ce_baseName e) = Inr (ce_cert e'))"
  using assms
proof (induction es arbitrary: s)
  case (Cons f es)
  show ?case
  proof (cases "f = e")
    case True
    then have "ce_baseName e \<notin> set (map ce_baseName es)" using Cons.prems(1) by auto
    from renew_all_other [OF this] show ?thesis using Cons.prems(3) True
      by (cases "obt (ce_sans e) (ce_baseName e)") (auto simp: renew_one_entries)
  next
    case False
    then have "ce_baseName f \<noteq> ce_baseName e" using Cons.prems(1,2) by auto
    then have "map_of (cs_entries (renew_one uni now obt s f)) (ce_baseName e) = Some e"
      using Cons.prems(3) by (simp add: renew_one_entries)
    then show ?thesis using Cons.IH [of "renew_one uni now obt s f"] Cons.prems False by simp
  qed
qed simp

lemma renew_all_inv: "cs_inv uni s \<Longrightarrow> cs_inv uni (foldl (renew_one uni now obt) s es)"
  by (induction es arbitrary: s) (auto simp: renew_one_def addEntry_inv split: sum.splits)

text \<open>
  Renewal is fail-safe.  A renewal pass never loses a base name: a certificate more than 30
  days from expiry is untouched, one whose renewal fails stays in service as it is, one that is
  renewed is replaced by what the authority returned for the same names; no other base name
  appears, the dispatch invariant holds, and the order caps are not charged.
\<close>

theorem checkAndRenew_safe:
  assumes "cs_inv uni (m_store m)" "gomap_wf (cs_entries (m_store m))"
  shows "cs_inv uni (m_store (checkAndRenew uni now obt m)) \<and> m_orderLimit (checkAndRenew uni now obt m) = m_orderLimit m
    \<and> (\<forall>b. case map_of (cs_entries (m_store m)) b of
        None \<Rightarrow> map_of (cs_entries (m_store (checkAndRenew uni now obt m))) b = None
      | Some e \<Rightarrow> (\<exists>e'. map_of (cs_entries (m_store (checkAndRenew uni now obt m))) b = Some e' \<and> ce_sans e' = ce_sans e
          \<and> (if expiresIn (ce_cert e) now > renewBefore \<or> isl (obt (ce_sans e) b) then e' = e
             else obt (ce_sans e) b = Inr (ce_cert e'))))"
proof -
  let ?s = "m_store m"
  let ?es = "snapshot ?s"
  have base: "map_of (cs_entries ?s) b = Some e \<Longrightarrow> ce_baseName e = b" for b e
    using assms(1) unfolding cs_inv_def by blast
  have "map ce_baseName ?es = map fst (cs_entries ?s)"
    using base gomap_mem_iff [OF assms(2)] by (auto simp: snapshot_def)
  then have d: "distinct (map ce_baseName ?es)" and n: "set (map ce_baseName ?es) = fst ` set (cs_entries ?s)"
    using assms(2) by (simp_all add: gomap_wf_def)
  have "case map_of (cs_entries ?s) b of
        None \<Rightarrow> map_of (cs_entries (foldl (renew_one uni now obt) ?s ?es)) b = None
      | Some e \<Rightarrow> (\<exists>e'. map_of (cs_entries (foldl (renew_one uni now obt) ?s ?es)) b = Some e' \<and> ce_sans e' = ce_sans e
          \<and> (if expiresIn (ce_cert e) now > renewBefore \<or> isl (obt (ce_sans e) b) then e' = e
             else obt (ce_sans e) b = Inr (ce_cert e')))" for b
  proof (cases "map_of (cs_entries ?s) b")
    case None
    then have "b \<notin> set (map ce_baseName ?es)" unfolding n by (simp add: map_of_eq_None_iff)
    from renew_all_other [OF this] None show ?thesis by simp
  next
    case (Some e)
    then have "e \<in> set ?es" using map_of_SomeD [OF Some] by (force simp: snapshot_def)
    moreover have "map_of (cs_entries ?s) (ce_baseName e) = Some e" using Some base by simp
    ultimately show ?thesis using renew_all_entries [OF d, of e ?s] unfolding Some option.case base [OF Some] by blast
  qed
  moreover have "m_store (checkAndRenew uni now obt m) = foldl (renew_one uni now obt) ?s ?es"
    "m_orderLimit (checkAndRenew uni now obt m) = m_orderLimit m" by (simp_all add: checkAndRenew_def)
  ultimately show ?thesis using renew_all_inv [OF assms(1)] by presburger
qed

theorem checkAndRenew_safe_witness:
  "let m = (Manager_New ''ex.com'')\<lparr>m_store := add_all id (newCertStore ''ex.com'') demo_adds\<rparr>;
       m' = checkAndRenew id 0 (\<lambda>_ b. if b = ''_.ex.com'' then Inl (plain_err ''dns'') else Inr (mk_cert [])) m
   in map_of (cs_entries (m_store m')) ''_.ex.com'' = map_of (cs_entries (m_store m)) ''_.ex.com''
      \<and> map_option ce_cert (map_of (cs_entries (m_store m')) ''_.a-tunnel.ex.com'') = Some (mk_cert [])"
proof -
  let ?m = "(Manager_New ''ex.com'')\<lparr>m_store := add_all id (newCertStore ''ex.com'') demo_adds\<rparr>"
  let ?obt = "\<lambda>(_::string list) b. if b = ''_.ex.com'' then Inl (plain_err ''dns'') else Inr (mk_cert [])"
  let ?m' = "checkAndRenew id 0 ?obt ?m"
  have inv: "cs_inv id (m_store ?m)" by (simp add: add_all_inv newCertStore_inv)
  have wf: "gomap_wf (cs_entries (m_store ?m))" by code_simp
  have a: "\<exists>e. map_of (cs_entries (m_store ?m)) ''_.ex.com'' = Some e \<and> \<not> expiresIn (ce_cert e) 0 > renewBefore"
    "\<exists>e. map_of (cs_entries (m_store ?m)) ''_.a-tunnel.ex.com'' = Some e \<and> \<not> expiresIn (ce_cert e) 0 > renewBefore"
    by (simp_all add: add_all_def demo_adds_def addEntry_entries newCertStore_def mk_cert_def expiresIn_def
        time_Sub_def minDuration_def maxDuration_def)
  have R: "case map_of (cs_entries (m_store ?m)) b of
        None \<Rightarrow> map_of (cs_entries (m_store ?m')) b = None
      | Some e \<Rightarrow> (\<exists>e'. map_of (cs_entries (m_store ?m')) b = Some e' \<and> ce_sans e' = ce_sans e
          \<and> (if expiresIn (ce_cert e) 0 > renewBefore \<or> isl (?obt (ce_sans e) b) then e' = e
             else ?obt (ce_sans e) b = Inr (ce_cert e')))" for b
    using checkAndRenew_safe [OF inv wf, of 0 ?obt] by blast
  show ?thesis using R [of "''_.ex.com''"] R [of "''_.a-tunnel.ex.com''"] a by (auto simp: Let_def)
qed

lemma HasPrefix_obtain: "\<not> HasPrefix (''obtain cert '' @ s) ''cert not provisioned''"
  by (simp add: HasPrefix_def)

text \<open>
  Which failures are permanent.  A refusal by one of the order caps is permanent and places no
  order; a failure after an order was placed is permanent exactly when the authority's error is
  its rate limit (by problem type or in the message) or wraps an order cap; and the reply of the
  pre-provisioned loader for a label without certificate is permanent.
\<close>

theorem issue_permanence:
  assumes "issue uni x env m sans b = (Some e, m', os)"
  shows "(os = [] \<and> e = ErrOrderLimit \<longrightarrow> IsPermanent (Some e))
    \<and> (os = [] \<longrightarrow> e = ErrOrderLimit \<or> (\<exists>msg. loadCertFile x (ae_read2 env) b = Inl msg \<and> e = plain_err msg))
    \<and> (os \<noteq> [] \<longrightarrow> (\<exists>e0. ae_obtain env sans b = Inl e0 \<and>
         (IsPermanent (Some e) \<longleftrightarrow> ge_order_limit e0 \<or> ge_problem e0 = Some acmeRateLimited
            \<or> Contains (''obtain cert '' @ show_list sans @ '': '' @ ge_msg e0) acmeRateLimited)))
    \<and> (fst (Static_EnsureName uni x rd s label) = Some msg \<and> label \<noteq> [] \<longrightarrow> IsPermanent (Some (plain_err msg)))"
proof -
  consider "os = []" "e = ErrOrderLimit" | msg where "os = []" "loadCertFile x (ae_read2 env) b = Inl msg" "e = plain_err msg"
    | e0 where "os = [(sans, ae_now env)]" "ae_obtain env sans b = Inl e0"
        "e = wrap_err (''obtain cert '' @ show_list sans @ '': '') e0"
    using assms by (auto simp: issue_def Let_def split: sum.splits if_splits option.splits prod.splits)
  moreover have "fst (Static_EnsureName uni x rd s label) = Some msg \<and> label \<noteq> [] \<longrightarrow> IsPermanent (Some (plain_err msg))"
    by (auto simp: Static_EnsureName_def Let_def IsPermanent_def plain_err_def HasPrefix_def split: sum.splits option.splits if_splits)
  ultimately show ?thesis
    by cases (auto simp: IsPermanent_def ErrOrderLimit_def wrap_err_def HasPrefix_def)
qed

theorem issue_permanence_witness:
  "\<exists>e m'. issue id demo_x509 ((demo_env 0)\<lparr>ae_running := 2\<rparr>) (SetOrderLimit (Manager_New ''ex.com'') 0 2) [''a''] ''b'' = (Some e, m', [])
     \<and> IsPermanent (Some e)"
proof -
  have r: "issue id demo_x509 ((demo_env 0)\<lparr>ae_running := 2\<rparr>) (SetOrderLimit (Manager_New ''ex.com'') 0 2) [''a''] ''b''
      = (Some ErrOrderLimit, SetOrderLimit (Manager_New ''ex.com'') 0 2, [])"
    by (simp add: issue_def demo_env_def loadCertFile_def SetOrderLimit_def Manager_New_def)
  from issue_permanence [OF r] r show ?thesis by blast
qed

lemma waitOneNS_iff:
  "(waitOneNS value ps = Some True \<longleftrightarrow>
      (\<exists>i < length ps. (\<exists>txts. fst (ps ! i) = Inr txts \<and> value \<in> set txts) \<and> (\<forall>j < i. \<not> snd (ps ! j))))
   \<and> ((\<exists>p\<in>set ps. snd p) \<longrightarrow> waitOneNS value ps \<noteq> None)"
proof (induction ps)
  case (Cons p ps)
  obtain ans dn where p: "p = (ans, dn)" by (cases p)
  show ?case
  proof (cases "\<exists>txts. ans = Inr txts \<and> value \<in> set txts")
    case True
    then show ?thesis using p by (auto intro!: exI [of _ 0])
  next
    case False
    then have w: "waitOneNS value (p # ps) = (if dn then Some False else waitOneNS value ps)"
      using p by (auto split: sum.splits)
    show ?thesis
    proof (cases dn)
      case True
      have "\<not> (\<exists>i < length (p # ps). (\<exists>txts. fst ((p # ps) ! i) = Inr txts \<and> value \<in> set txts) \<and> (\<forall>j < i. \<not> snd ((p # ps) ! j)))"
      proof
        assume "\<exists>i < length (p # ps). (\<exists>txts. fst ((p # ps) ! i) = Inr txts \<and> value \<in> set txts) \<and> (\<forall>j < i. \<not> snd ((p # ps) ! j))"
        then obtain i where i: "\<exists>txts. fst ((p # ps) ! i) = Inr txts \<and> value \<in> set txts" "\<forall>j < i. \<not> snd ((p # ps) ! j)" by blast
        then show False using False True p by (cases i) (auto dest: spec [of _ 0])
      qed
      then show ?thesis using w True by simp
    next
      case dn: False
      then have "(\<exists>i < length (p # ps). (\<exists>txts. fst ((p # ps) ! i) = Inr txts \<and> value \<in> set txts) \<and> (\<forall>j < i. \<not> snd ((p # ps) ! j)))
         \<longleftrightarrow> (\<exists>i < length ps. (\<exists>txts. fst (ps ! i) = Inr txts \<and> value \<in> set txts) \<and> (\<forall>j < i. \<not> snd (ps ! j)))"
        using False p by (simp add: Ex_less_Suc2 All_less_Suc2) blast
      then show ?thesis using Cons w dn p by auto
    qed
  qed
qed simp

lemma wait_all_iff:
  "(wait_all value polls nss = Some None \<longleftrightarrow> (\<forall>ns\<in>set nss. waitOneNS value (polls ns) = Some True))
   \<and> ((\<forall>ns\<in>set nss. waitOneNS value (polls ns) \<noteq> None) \<longrightarrow> wait_all value polls nss \<noteq> None)"
  by (induction nss) (auto split: option.splits bool.splits)

text \<open>
  The pre-check.  If every name server's polling is cut off by the deadline at some point, the
  check returns; it reports success only if the inner provider succeeded, there is at least one
  name server, and every one of them served the expected TXT value before its deadline; and it
  does report success in that case.
\<close>

theorem PreCheck_Present_iff:
  "(PreCheck_Present inner nss polls value = Some None \<longleftrightarrow>
      inner = None \<and> (\<exists>ns. nss = Inr ns \<and> ns \<noteq> [] \<and>
        (\<forall>n\<in>set ns. \<exists>i < length (polls n). (\<exists>txts. fst (polls n ! i) = Inr txts \<and> value \<in> set txts)
           \<and> (\<forall>j < i. \<not> snd (polls n ! j)))))
   \<and> ((\<forall>n. \<exists>p\<in>set (polls n). snd p) \<longrightarrow> PreCheck_Present inner nss polls value \<noteq> None)"
proof -
  have w: "waitOneNS value (polls n) = Some True \<longleftrightarrow>
      (\<exists>i < length (polls n). (\<exists>txts. fst (polls n ! i) = Inr txts \<and> value \<in> set txts) \<and> (\<forall>j < i. \<not> snd (polls n ! j)))"
    "(\<exists>p\<in>set (polls n). snd p) \<Longrightarrow> waitOneNS value (polls n) \<noteq> None" for n
    using waitOneNS_iff by blast+
  show ?thesis
    using wait_all_iff [of "value" polls] w(2)
    by (auto simp: PreCheck_Present_def waitAuthoritative_def w(1) split: option.splits sum.splits)
qed

theorem PreCheck_Present_witness:
  "PreCheck_Present None (Inr [''ns1'']) (\<lambda>_. [(Inl ''refused'', False), (Inr [''tok''], True)]) ''tok'' = Some None
   \<and> PreCheck_Present None (Inr [''ns1'']) (\<lambda>_. [(Inl ''refused'', True)]) ''tok'' \<noteq> None"
proof
  show "PreCheck_Present None (Inr [''ns1'']) (\<lambda>_. [(Inl ''refused'', False), (Inr [''tok''], True)]) ''tok'' = Some None"
    using PreCheck_Present_iff [of None "Inr [''ns1'']" "\<lambda>_. [(Inl ''refused'', False), (Inr [''tok''], True)]" "''tok''"]
    by (auto intro!: exI [of _ "Suc 0"])
  show "PreCheck_Present None (Inr [''ns1'']) (\<lambda>_. [(Inl ''refused'', True)]) ''tok'' \<noteq> None"
    using PreCheck_Present_iff [of None "Inr [''ns1'']" "\<lambda>_. [(Inl ''refused'', True)]" "''tok''"] by simp
qed

end
