(* ===== verification/Register.thy ===== *)
theory Register
  imports Registry Control Cert_Manager Identity_Store
begin

text \<open>
  The registration protocol (\<open>handleRegister\<close>, \<open>runControlLoop\<close> and \<open>handleDeregister\<close> in
  \<open>cmd/swe-swe-tunneld/tunnel.go\<close>), composed from the limiter, the wire protocol, the allowlist,
  the identity store and the certificate interface.

  Handlers of different connections run concurrently and share the state \<open>server\<close>.  The
  argument \<open>re_yield\<close> of a run is what the other goroutines (and the SIGHUP and admin paths) did to
  that state up to a program point; it is applied before every access to the shared state, so a
  theorem without an assumption on it holds under every interleaving.  The clock, the choice of an
  eviction victim and a driver fault are likewise given per program point.  \<open>ed25519.Verify\<close>, the
  verb \<open>%q\<close> and the random nonce are arguments.
\<close>

section \<open>State and environment\<close>

record 'c server =
  sv_reg :: registry
  sv_store :: Store
  sv_cert :: 'c
  sv_ip :: "SlidingWindow option"
  sv_pub :: "SlidingWindow option"
  sv_refund :: "SlidingWindow option"
  sv_allow :: "AllowSet option"

datatype point =
    P_ip | P_retry_ip | P_now | P_refund | P_allow | P_get | P_pub | P_retry_pub | P_ensure
  | P_put | P_reget | P_touch | P_rotate | P_add | P_remove | P_delete

record 'c reg_env =
  re_verify :: "bytes \<Rightarrow> bytes \<Rightarrow> bytes \<Rightarrow> bool"
  re_quote :: "string \<Rightarrow> string"
  re_now :: "point \<Rightarrow> gotime"
  re_rnd :: "point \<Rightarrow> nat"
  re_fault :: "point \<Rightarrow> string option"
  re_yield :: "point \<Rightarrow> 'c server \<Rightarrow> 'c server"
  re_nonce :: "bytes option"
  re_grace :: duration
  re_gone :: bool
  re_ensure :: "'c \<Rightarrow> string \<Rightarrow> goerr option \<times> 'c"

record registerResult =
  rr_unique :: string
  rr_label :: string
  rr_newRegistration :: bool
  rr_pubkey :: bytes

type_synonym 'c outcome = "registerResult option \<times> 'c server \<times> stream"

definition maxClockSkew :: duration where
  "maxClockSkew = 5 * Minute"

definition SignatureSize :: nat where
  "SignatureSize = 64"

section \<open>Standard library\<close>

text \<open>\<open>net.SplitHostPort\<close>: host and port, or an error.\<close>

definition LastIndexByte :: "string \<Rightarrow> char \<Rightarrow> nat option" where
  "LastIndexByte s c = map_option (\<lambda>i. length s - 1 - i) (IndexByte (rev s) c)"

definition SplitHostPort :: "string \<Rightarrow> (string \<times> string) option" where
  "SplitHostPort hp =
     (case LastIndexByte hp (CHR '':'') of
        None \<Rightarrow> None
      | Some i \<Rightarrow>
          (if HasPrefix hp ''['' then
             (case IndexByte hp (CHR '']'') of
                None \<Rightarrow> None
              | Some e \<Rightarrow>
                  if e + 1 = i \<and> IndexByte (drop 1 hp) (CHR ''['') = None
                     \<and> IndexByte (drop (e + 1) hp) (CHR '']'') = None
                  then Some (take (e - 1) (drop 1 hp), drop (i + 1) hp) else None)
           else if IndexByte (take i hp) (CHR '':'') = None \<and> IndexByte hp (CHR ''['') = None
                   \<and> IndexByte hp (CHR '']'') = None
           then Some (take i hp, drop (i + 1) hp) else None))"

section \<open>Replies, limiters and refunds\<close>

definition sendDeny :: "stream \<Rightarrow> string \<Rightarrow> stream" where
  "sendDeny w reason = snd (WriteMessage w KindDeny (MDeny \<lparr>d_Reason = reason, d_RetryAfterSec = 0\<rparr>))"

definition sendRateLimitDeny :: "stream \<Rightarrow> string \<Rightarrow> int \<Rightarrow> stream" where
  "sendRateLimitDeny w reason retryAfterSec =
     snd (WriteMessage w KindDeny (MDeny \<lparr>d_Reason = reason, d_RetryAfterSec = retryAfterSec\<rparr>))"

text \<open>\<open>sendDeny(stream, reason); return registerResult{}, false\<close>.\<close>

definition denied :: "string \<Rightarrow> 'c server \<Rightarrow> stream \<Rightarrow> 'c outcome" where
  "denied reason sv st = (None, sv, sendDeny st reason)"

text \<open>A limiter that may be nil: \<open>l == nil || l.Allow(key)\<close>, and \<open>l.RetryAfter(key)\<close>.\<close>

definition lim_Allow ::
  "nat \<Rightarrow> gotime \<Rightarrow> SlidingWindow option \<Rightarrow> string \<Rightarrow> bool \<times> SlidingWindow option" where
  "lim_Allow rnd now l key =
     (case l of None \<Rightarrow> (True, None) | Some s \<Rightarrow> (let (ok, s') = AllowAt rnd s key now in (ok, Some s')))"

definition lim_RetryAfter ::
  "gotime \<Rightarrow> SlidingWindow option \<Rightarrow> string \<Rightarrow> duration \<times> SlidingWindow option" where
  "lim_RetryAfter now l key =
     (case l of None \<Rightarrow> (0, None) | Some s \<Rightarrow> (let (d, s') = RetryAfterAt s key now in (d, Some s')))"

definition lim_Cancel :: "SlidingWindow option \<Rightarrow> string \<Rightarrow> SlidingWindow option" where
  "lim_Cancel l key = map_option (\<lambda>s. CancelLatest s key) l"

definition mayRefund ::
  "nat \<Rightarrow> gotime \<Rightarrow> SlidingWindow option \<Rightarrow> string \<Rightarrow> bool \<times> SlidingWindow option" where
  "mayRefund rnd now refundLimiter ipKey =
     (case refundLimiter of
        None \<Rightarrow> (True, None)
      | Some l \<Rightarrow> if SlidingWindow_Max l \<le> 0 then (False, Some l) else lim_Allow rnd now (Some l) ipKey)"

definition refundRegister :: "string \<Rightarrow> bytes \<Rightarrow> 'c server \<Rightarrow> 'c server" where
  "refundRegister ipKey pub sv =
     sv\<lparr>sv_ip := lim_Cancel (sv_ip sv) ipKey, sv_pub := lim_Cancel (sv_pub sv) pub\<rparr>"

text \<open>\<open>mayRefund(refundLimiter, ipKey)\<close> on the shared state, at the point \<open>P_refund\<close>.\<close>

definition try_refund :: "'c reg_env \<Rightarrow> string \<Rightarrow> 'c server \<Rightarrow> bool \<times> 'c server" where
  "try_refund env ipKey sv =
     (let sv1 = re_yield env P_refund sv;
          (ok, l) = mayRefund (re_rnd env P_refund) (re_now env P_refund) (sv_refund sv1) ipKey
      in (ok, sv1\<lparr>sv_refund := l\<rparr>))"

text \<open>\<open>d := now.Sub(ts); d > maxClockSkew || -d > maxClockSkew\<close>.\<close>

definition clockSkewed :: "gotime \<Rightarrow> int \<Rightarrow> bool" where
  "clockSkewed now timestamp =
     (let d = time_Sub now (time_Unix timestamp) in d > maxClockSkew \<or> neg64 d > maxClockSkew)"

section \<open>Register\<close>

text \<open>
  A name that is not in the store (lines 546-658): the per-pubkey limit, the grace window, the
  certificate, and the claim, which may lose a race against another handler.
\<close>

definition result_of :: "Register \<Rightarrow> bool \<Rightarrow> bytes \<Rightarrow> registerResult" where
  "result_of reg new pub =
     \<lparr>rr_unique = r_Unique reg, rr_label = TunnelLabel (r_Unique reg), rr_newRegistration = new,
      rr_pubkey = pub\<rparr>"

text \<open>After the certificate: \<open>Put\<close>, and the reconciliation when a parallel claim committed first.\<close>

definition claimName ::
  "'c reg_env \<Rightarrow> Register \<Rightarrow> bytes \<Rightarrow> 'c server \<Rightarrow> stream \<Rightarrow> 'c outcome" where
  "claimName env reg pub sv st =
     (let sv1 = re_yield env P_put sv;
          (e, s1) = Store_Put (re_fault env P_put) (sv_store sv1) (r_Unique reg) pub (re_now env P_now);
          sv2 = sv1\<lparr>sv_store := s1\<rparr>
      in case e of
           None \<Rightarrow> (Some (result_of reg True pub), sv2, st)
         | Some ErrAlreadyExists \<Rightarrow>
             (let sv3 = re_yield env P_reget sv2 in
              case Store_Get (re_fault env P_reget) (sv_store sv3) (r_Unique reg) of
                Inl _ \<Rightarrow> denied ''store error'' sv3 st
              | Inr existing \<Rightarrow>
                  if e_Pubkey existing \<noteq> pub then denied ''key_mismatch'' sv3 st
                  else
                    (let sv4 = re_yield env P_touch sv3;
                         (_, s2) = Store_Touch (re_fault env P_touch) (sv_store sv4) (r_Unique reg) (re_now env P_now)
                     in (Some (result_of reg False pub), sv4\<lparr>sv_store := s2\<rparr>, st)))
         | Some _ \<Rightarrow> denied ''store error'' sv2 st)"

definition issueName ::
  "'c reg_env \<Rightarrow> string \<Rightarrow> Register \<Rightarrow> bytes \<Rightarrow> 'c server \<Rightarrow> stream \<Rightarrow> 'c outcome" where
  "issueName env ipKey reg pub sv st =
     (let sv1 = re_yield env P_ensure sv;
          (e, c) = re_ensure env (sv_cert sv1) (TunnelLabel (r_Unique reg));
          sv2 = sv1\<lparr>sv_cert := c\<rparr>
      in case e of
           None \<Rightarrow> claimName env reg pub sv2 st
         | Some err \<Rightarrow>
             (let deny = (if HasPrefix (ge_msg err) ''cert not provisioned''
                          then ''cert not provisioned'' else ''cert issuance failed'');
                  permanent = IsPermanent (Some err)
              in if permanent then denied deny sv2 st
                 else
                   (let (refunded, sv3) = try_refund env ipKey sv2
                    in denied deny (if refunded then refundRegister ipKey pub sv3 else sv3) st)))"

definition registerNew ::
  "'c reg_env \<Rightarrow> string \<Rightarrow> Register \<Rightarrow> bytes \<Rightarrow> 'c server \<Rightarrow> stream \<Rightarrow> 'c outcome" where
  "registerNew env ipKey reg pub sv st =
     (let sv1 = re_yield env P_pub sv;
          (ok, l) = lim_Allow (re_rnd env P_pub) (re_now env P_pub) (sv_pub sv1) pub;
          sv2 = sv1\<lparr>sv_pub := l\<rparr>
      in if \<not> ok then
           (let sv3 = re_yield env P_retry_pub sv2;
                (d, l') = lim_RetryAfter (re_now env P_retry_pub) (sv_pub sv3) pub
            in (None, sv3\<lparr>sv_pub := l'\<rparr>,
                sendRateLimitDeny st ''rate_limited:pubkey'' (Duration_Seconds d + 1)))
         else if re_grace env > 0 \<and> re_gone env then
           (let (ok, sv3) = try_refund env ipKey sv2
            in (None, if ok then refundRegister ipKey pub sv3 else sv3, st))
         else issueName env ipKey reg pub sv2 st)"

text \<open>
  A name owned by another key (lines 674-717): challenge, proof by the stored key, rotation.
\<close>

definition registerReclaim ::
  "'c reg_env \<Rightarrow> Register \<Rightarrow> bytes \<Rightarrow> Entry \<Rightarrow> 'c server \<Rightarrow> stream \<Rightarrow> 'c outcome" where
  "registerReclaim env reg pub existing sv st =
     (case re_nonce env of
        None \<Rightarrow> denied ''internal error'' sv st
      | Some nonce \<Rightarrow>
          (case WriteMessage st KindChallenge (MChallenge \<lparr>c_Nonce = EncodeToString nonce\<rparr>) of
             (Some _, st1) \<Rightarrow> (None, sv, st1)
           | (None, st1) \<Rightarrow>
               (case ReadFrame st1 of
                  (Inl _, st2) \<Rightarrow> (None, sv, st2)
                | (Inr f, st2) \<Rightarrow>
                    if f_Type f \<noteq> KindProof
                    then denied (''expected proof, got '' @ re_quote env (f_Type f)) sv st2
                    else
                      (case DecodePayload Unmarshal_Proof f of
                         Inl _ \<Rightarrow> denied ''bad proof payload'' sv st2
                       | Inr proof \<Rightarrow>
                           (case DecodeString (p_Sig proof) of
                              None \<Rightarrow> denied ''bad proof sig'' sv st2
                            | Some sig \<Rightarrow>
                                if length sig \<noteq> SignatureSize then denied ''bad proof sig'' sv st2
                                else if \<not> re_verify env (e_Pubkey existing) (ProofSigningPayload nonce) sig
                                then denied ''key_mismatch'' sv st2
                                else
                                  (let sv1 = re_yield env P_rotate sv;
                                       (e, s1) = Store_Rotate (re_fault env P_rotate) (sv_store sv1)
                                                   (r_Unique reg) pub (re_now env P_now);
                                       sv2 = sv1\<lparr>sv_store := s1\<rparr>
                                   in if e \<noteq> None then denied ''store error'' sv2 st2
                                      else (Some (result_of reg False pub), sv2, st2)))))))"

text \<open>Lines 534-670: the allowlist gate, the lookup and the idempotent reconnect.\<close>

definition registerLookup ::
  "'c reg_env \<Rightarrow> string \<Rightarrow> Register \<Rightarrow> bytes \<Rightarrow> 'c server \<Rightarrow> stream \<Rightarrow> 'c outcome" where
  "registerLookup env ipKey reg pub sv st =
     (let sv1 = re_yield env P_allow sv in
      if (case sv_allow sv1 of None \<Rightarrow> False | Some a \<Rightarrow> \<not> Allow_Contains a pub)
      then denied ''not_authorized'' sv1 st
      else
        (let sv2 = re_yield env P_get sv1 in
         case Store_Get (re_fault env P_get) (sv_store sv2) (r_Unique reg) of
           Inl ErrNotFound \<Rightarrow> registerNew env ipKey reg pub sv2 st
         | Inl _ \<Rightarrow> denied ''store error'' sv2 st
         | Inr existing \<Rightarrow>
             if e_Pubkey existing = pub then
               (let sv3 = re_yield env P_touch sv2;
                    (_, s1) = Store_Touch (re_fault env P_touch) (sv_store sv3) (r_Unique reg) (re_now env P_now)
                in (Some (result_of reg False pub), sv3\<lparr>sv_store := s1\<rparr>, st))
             else registerReclaim env reg pub existing sv2 st))"

text \<open>Lines 457-513: pubkey and signature, clock skew, peer certificate.\<close>

definition registerVerify ::
  "'c reg_env \<Rightarrow> bytes option \<Rightarrow> string \<Rightarrow> Register \<Rightarrow> 'c server \<Rightarrow> stream \<Rightarrow> 'c outcome" where
  "registerVerify env peerCertPub ipKey reg sv st =
     (case DecodeString (r_Pubkey reg) of
        None \<Rightarrow> denied ''bad pubkey'' sv st
      | Some pub \<Rightarrow>
          if length pub \<noteq> PublicKeySize then denied ''bad pubkey'' sv st
          else
            (case DecodeString (r_Sig reg) of
               None \<Rightarrow> denied ''bad sig'' sv st
             | Some sig \<Rightarrow>
                 if length sig \<noteq> SignatureSize then denied ''bad sig'' sv st
                 else if clockSkewed (re_now env P_now) (r_Timestamp reg) then
                   (let (ok, sv1) = try_refund env ipKey sv
                    in denied ''timestamp out of range''
                         (if ok then sv1\<lparr>sv_ip := lim_Cancel (sv_ip sv1) ipKey\<rparr> else sv1) st)
                 else if \<not> re_verify env pub (RegisterSigningPayload pub (r_Unique reg) (r_Timestamp reg)) sig
                 then denied ''signature invalid'' sv st
                 else if peerCertPub \<noteq> None \<and> the peerCertPub \<noteq> pub then denied ''not_authorized'' sv st
                 else registerLookup env ipKey reg pub sv st))"

text \<open>Lines 443-455: the per-IP limit.\<close>

definition ip_key :: "string \<Rightarrow> string" where
  "ip_key remoteAddr = (case SplitHostPort remoteAddr of None \<Rightarrow> remoteAddr | Some (h, _) \<Rightarrow> h)"

definition registerAdmit ::
  "'c reg_env \<Rightarrow> bytes option \<Rightarrow> string \<Rightarrow> Register \<Rightarrow> 'c server \<Rightarrow> stream \<Rightarrow> 'c outcome" where
  "registerAdmit env peerCertPub remoteAddr reg sv st =
     (let ipKey = ip_key remoteAddr;
          sv1 = re_yield env P_ip sv;
          (ok, l) = lim_Allow (re_rnd env P_ip) (re_now env P_ip) (sv_ip sv1) ipKey;
          sv2 = sv1\<lparr>sv_ip := l\<rparr>
      in if ok then registerVerify env peerCertPub ipKey reg sv2 st
         else
           (let sv3 = re_yield env P_retry_ip sv2;
                (d, l') = lim_RetryAfter (re_now env P_retry_ip) (sv_ip sv3) ipKey
            in (None, sv3\<lparr>sv_ip := l'\<rparr>,
                sendRateLimitDeny st ''rate_limited:ip'' (Duration_Seconds d + 1))))"

definition handleRegister ::
  "'c reg_env \<Rightarrow> bytes option \<Rightarrow> string \<Rightarrow> 'c server \<Rightarrow> stream \<Rightarrow> 'c outcome" where
  "handleRegister env peerCertPub remoteAddr sv st =
     (case ReadFrame st of
        (Inl _, st1) \<Rightarrow> (None, sv, st1)
      | (Inr frame, st1) \<Rightarrow>
          if f_Type frame \<noteq> KindRegister
          then denied (''expected register, got '' @ re_quote env (f_Type frame)) sv st1
          else
            (case DecodePayload Unmarshal_Register frame of
               Inl _ \<Rightarrow> denied ''bad register payload'' sv st1
             | Inr reg \<Rightarrow>
                 if r_Version reg \<noteq> ProtoVersion
                 then denied (''unsupported protocol version '' @ Itoa (r_Version reg)) sv st1
                 else
                   (case ValidateUnique (re_quote env) (r_Unique reg) of
                      Some e \<Rightarrow> denied e sv st1
                    | None \<Rightarrow> registerAdmit env peerCertPub remoteAddr reg sv st1)))"

section \<open>The control loop\<close>

text \<open>\<open>handleDeregister\<close>: success, the server state and the stream afterwards.\<close>

definition handleDeregister ::
  "'c reg_env \<Rightarrow> Frame \<Rightarrow> string \<Rightarrow> bytes \<Rightarrow> 'c server \<Rightarrow> stream \<Rightarrow> bool \<times> 'c server \<times> stream" where
  "handleDeregister env frame sessUnique sessPubkey sv st =
     (case DecodePayload Unmarshal_Deregister frame of
        Inl _ \<Rightarrow> (False, sv, sendDeny st ''bad deregister payload'')
      | Inr d \<Rightarrow>
          if dr_Unique d \<noteq> sessUnique then (False, sv, sendDeny st ''unique mismatch'')
          else if clockSkewed (re_now env P_now) (dr_Timestamp d)
          then (False, sv, sendDeny st ''timestamp out of range'')
          else
            (case DecodeString (dr_Sig d) of
               None \<Rightarrow> (False, sv, sendDeny st ''bad sig'')
             | Some sig \<Rightarrow>
                 if length sig \<noteq> SignatureSize then (False, sv, sendDeny st ''bad sig'')
                 else if \<not> re_verify env sessPubkey (DeregisterSigningPayload (dr_Unique d) (dr_Timestamp d)) sig
                 then (False, sv, sendDeny st ''signature invalid'')
                 else
                   (let sv1 = re_yield env P_delete sv;
                        (e, s1) = Store_Delete (re_fault env P_delete) (sv_store sv1) (dr_Unique d);
                        sv2 = sv1\<lparr>sv_store := s1\<rparr>
                    in if e \<noteq> None then (False, sv2, sendDeny st ''store error'')
                       else (True, sv2, snd (WriteMessage st KindDeregisterOK MDeregisterOK)))))"

section \<open>Specification and sample runs\<close>

text \<open>
  No interference; none and no driver fault either; and interference that leaves the owner of one
  name alone.
\<close>

definition alone :: "'c reg_env \<Rightarrow> bool" where
  "alone env \<longleftrightarrow> (\<forall>p s. re_yield env p s = s)"

definition quiet :: "'c reg_env \<Rightarrow> bool" where
  "quiet env \<longleftrightarrow> (\<forall>p s. re_yield env p s = s) \<and> (\<forall>p. re_fault env p = None)"

definition others_keep :: "'c reg_env \<Rightarrow> string \<Rightarrow> bool" where
  "others_keep env v \<longleftrightarrow> (\<forall>p s. owner_of (sv_store (re_yield env p s)) v = owner_of (sv_store s) v)"

text \<open>What a handler with result \<open>r\<close> may have done to the owner of \<open>v\<close>.\<close>

definition owner_effect ::
  "'c reg_env \<Rightarrow> string \<Rightarrow> bytes option \<Rightarrow> registerResult option \<Rightarrow> bytes option \<Rightarrow> bool" where
  "owner_effect env v own r own' \<longleftrightarrow>
     (case r of
        None \<Rightarrow> own' = own
      | Some res \<Rightarrow>
          if rr_unique res \<noteq> v then own' = own
          else own' = Some (rr_pubkey res)
            \<and> (if rr_newRegistration res then own = None
               else own = own' \<or> (\<exists>k nonce sig. own = Some k \<and> re_nonce env = Some nonce
                                   \<and> re_verify env k (ProofSigningPayload nonce) sig)))"

text \<open>The Register message an honest client sends.\<close>

definition register_msg :: "bytes \<Rightarrow> bytes \<Rightarrow> string \<Rightarrow> int \<Rightarrow> Register" where
  "register_msg pub sig u ts =
     \<lparr>r_Version = ProtoVersion, r_Unique = u, r_Pubkey = EncodeToString pub, r_Timestamp = ts,
      r_Sig = EncodeToString sig\<rparr>"

definition demo_pub :: bytes where "demo_pub = replicate 32 CHR ''k''"
definition demo_old :: bytes where "demo_old = replicate 32 CHR ''o''"
definition demo_sig :: bytes where "demo_sig = replicate 64 CHR ''s''"

definition demo_env_reg :: "gotime \<Rightarrow> nat reg_env" where
  "demo_env_reg now = \<lparr>re_verify = (\<lambda>k m s. s = replicate 64 (CHR ''s'')), re_quote = id, re_now = (\<lambda>_. now),
     re_rnd = (\<lambda>_. 0), re_fault = (\<lambda>_. None), re_yield = (\<lambda>_ s. s), re_nonce = Some (replicate 32 CHR ''n''),
     re_grace = 5 * Second, re_gone = False, re_ensure = (\<lambda>c _. (None, Suc c))\<rparr>"

definition demo_server :: "nat server" where
  "demo_server = \<lparr>sv_reg = newRegistry, sv_store = [], sv_cert = 0,
     sv_ip = Some (SlidingWindow_New 30 Hour), sv_pub = Some (SlidingWindow_New 5 (24 * Hour)),
     sv_refund = Some (SlidingWindow_New 10 Hour), sv_allow = None\<rparr>"

definition demo_stream :: stream where
  "demo_stream = \<lparr>s_in = frame_bytes (MRegister (register_msg demo_pub demo_sig ''app'' 1700000000)), s_out = [], s_cap = None\<rparr>"

section \<open>Which branch accepts\<close>

lemma denied_not_Some [simp]: "denied r sv st \<noteq> (Some res, sv', st')"
  by (simp add: denied_def)

lemma registerNew_accepts:
  assumes "registerNew env ipKey reg pub sv st = (Some res, sv', st')"
  shows "rr_unique res = r_Unique reg \<and> rr_label res = TunnelLabel (r_Unique reg) \<and> rr_pubkey res = pub \<and> st' = st"
  using assms
  by (auto simp: registerNew_def issueName_def claimName_def result_of_def Let_def
      split: prod.splits if_splits option.splits sum.splits store_err.splits)

lemma registerReclaim_accepts:
  assumes "registerReclaim env reg pub existing sv st = (Some res, sv', st')"
  shows "\<exists>nonce st1 st2 f proof sig.
      re_nonce env = Some nonce
    \<and> WriteMessage st KindChallenge (MChallenge \<lparr>c_Nonce = EncodeToString nonce\<rparr>) = (None, st1)
    \<and> ReadFrame st1 = (Inr f, st2) \<and> f_Type f = KindProof \<and> DecodePayload Unmarshal_Proof f = Inr proof
    \<and> DecodeString (p_Sig proof) = Some sig \<and> length sig = SignatureSize
    \<and> re_verify env (e_Pubkey existing) (ProofSigningPayload nonce) sig
    \<and> res = result_of reg False pub \<and> st' = st2
    \<and> (\<exists>s. Store_Rotate (re_fault env P_rotate) (sv_store (re_yield env P_rotate sv)) (r_Unique reg) pub (re_now env P_now)
             = (None, s) \<and> sv' = (re_yield env P_rotate sv)\<lparr>sv_store := s\<rparr>)"
  using assms
  by (auto simp: registerReclaim_def Let_def split: option.splits prod.splits sum.splits if_splits)

lemma handleRegister_accepts:
  assumes "handleRegister env peer addr sv st = (Some res, sv', st')"
  obtains f st1 reg pub sig sv1 where
    "ReadFrame st = (Inr f, st1)" "f_Type f = KindRegister" "DecodePayload Unmarshal_Register f = Inr reg"
    "r_Version reg = ProtoVersion" "ValidateUnique (re_quote env) (r_Unique reg) = None"
    "DecodeString (r_Pubkey reg) = Some pub" "length pub = PublicKeySize"
    "DecodeString (r_Sig reg) = Some sig" "length sig = SignatureSize"
    "\<not> clockSkewed (re_now env P_now) (r_Timestamp reg)"
    "re_verify env pub (RegisterSigningPayload pub (r_Unique reg) (r_Timestamp reg)) sig"
    "peer = None \<or> peer = Some pub"
    "fst (lim_Allow (re_rnd env P_ip) (re_now env P_ip) (sv_ip (re_yield env P_ip sv)) (ip_key addr))"
    "sv1 = (re_yield env P_ip sv)\<lparr>sv_ip := snd (lim_Allow (re_rnd env P_ip) (re_now env P_ip)
                                              (sv_ip (re_yield env P_ip sv)) (ip_key addr))\<rparr>"
    "registerLookup env (ip_key addr) reg pub sv1 st1 = (Some res, sv', st')"
  using assms
  by (fastforce simp: handleRegister_def registerAdmit_def registerVerify_def Let_def
      split: prod.splits sum.splits if_splits option.splits)

lemma registerLookup_accepts:
  assumes "registerLookup env ipKey reg pub sv st = (Some res, sv', st')"
  shows "(\<forall>a. sv_allow (re_yield env P_allow sv) = Some a \<longrightarrow> Allow_Contains a pub)
    \<and> rr_unique res = r_Unique reg \<and> rr_label res = TunnelLabel (r_Unique reg) \<and> rr_pubkey res = pub"
  using assms
  by (auto simp: registerLookup_def Let_def result_of_def split: option.splits prod.splits sum.splits if_splits store_err.splits
      dest!: registerNew_accepts registerReclaim_accepts)
lemma owner_effect_None [simp]: "owner_effect env v own None own' \<longleftrightarrow> own' = own"
  by (simp add: owner_effect_def)

lemma others_keepD: "others_keep env v \<Longrightarrow> owner_of (sv_store (re_yield env p s)) v = owner_of (sv_store s) v"
  by (simp add: others_keep_def)

lemma others_keepD':
  "others_keep env v \<Longrightarrow> v = u \<Longrightarrow> owner_of (sv_store (re_yield env p s)) u = owner_of (sv_store s) u"
  by (simp add: others_keep_def)

lemma denied_parts [simp]:
  "fst (denied r sv st) = None" "fst (snd (denied r sv st)) = sv" "snd (snd (denied r sv st)) = sendDeny st r"
  by (simp_all add: denied_def)

lemma try_refund_store: "try_refund env k sv = (ok, sv') \<Longrightarrow> sv_store sv' = sv_store (re_yield env P_refund sv)"
  by (auto simp: try_refund_def Let_def split: prod.splits)

lemma refundRegister_store [simp]: "sv_store (refundRegister k p sv) = sv_store sv"
  by (simp add: refundRegister_def)

lemma claimName_owner:
  assumes "others_keep env v" "claimName env reg pub sv st = (r, sv', st')"
  shows "owner_effect env v (owner_of (sv_store sv) v) r (owner_of (sv_store sv') v)"
proof -
  note y = others_keepD [OF assms(1)]
  let ?s = "sv_store (re_yield env P_put sv)"
  obtain e s1 where P: "Store_Put (re_fault env P_put) ?s (r_Unique reg) pub (re_now env P_now) = (e, s1)" by fastforce
  show ?thesis
  proof (cases e)
    case None
    then show ?thesis
      using ids.put_ok [of "re_fault env P_put" ?s] P assms(2) y [of P_put sv]
      by (auto simp: claimName_def owner_effect_def result_of_def)
  next
    case (Some er)
    then have s1: "s1 = ?s" using P ids.put_err by blast
    show ?thesis
      using assms(2) P Some s1
      by (auto simp: claimName_def others_keepD' [OF assms(1)] owner_effect_def result_of_def Let_def y denied_def
          split: store_err.splits sum.splits if_splits prod.splits
          dest!: Store_Get_owner Store_Touch_owner)
  qed
qed

lemma issueName_owner:
  assumes "others_keep env v" "issueName env ipKey reg pub sv st = (r, sv', st')"
  shows "owner_effect env v (owner_of (sv_store sv) v) r (owner_of (sv_store sv') v)"
proof -
  note y = others_keepD [OF assms(1)]
  obtain e c where E: "re_ensure env (sv_cert (re_yield env P_ensure sv)) (TunnelLabel (r_Unique reg)) = (e, c)"
    by fastforce
  show ?thesis
  proof (cases e)
    case None
    then have "claimName env reg pub ((re_yield env P_ensure sv)\<lparr>sv_cert := c\<rparr>) st = (r, sv', st')"
      using assms(2) E by (simp add: issueName_def)
    from claimName_owner [OF assms(1) this] show ?thesis by (simp add: y)
  next
    case (Some er)
    then show ?thesis
      using assms(2) E
      by (auto simp: issueName_def owner_effect_def denied_def Let_def y
          split: prod.splits if_splits dest!: try_refund_store)
  qed
qed

lemma registerNew_owner:
  assumes "others_keep env v" "registerNew env ipKey reg pub sv st = (r, sv', st')"
  shows "owner_effect env v (owner_of (sv_store sv) v) r (owner_of (sv_store sv') v)"
proof -
  note y = others_keepD [OF assms(1)]
  have "owner_effect env v (owner_of (sv_store (re_yield env P_pub sv)) v) r (owner_of (sv_store sv') v)"
    if "issueName env ipKey reg pub ((re_yield env P_pub sv)\<lparr>sv_pub := l\<rparr>) st = (r, sv', st')" for l
    using issueName_owner [OF assms(1) that] by simp
  then show ?thesis
    using assms(2)
    by (auto simp: registerNew_def Let_def y split: prod.splits if_splits dest!: try_refund_store)
qed

lemma registerReclaim_owner:
  assumes "others_keep env v" "registerReclaim env reg pub existing sv st = (r, sv', st')"
    "owner_of (sv_store sv) (r_Unique reg) = Some (e_Pubkey existing)"
  shows "owner_effect env v (owner_of (sv_store sv) v) r (owner_of (sv_store sv') v)"
proof (cases r)
  case None
  let ?s = "sv_store (re_yield env P_rotate sv)"
  have "sv_store sv' = sv_store sv \<or> sv_store sv' = ?s"
    using assms(2) None
    by (auto simp: registerReclaim_def denied_def Let_def split: option.splits prod.splits sum.splits if_splits
        dest!: ids.rotate_err)
  then show ?thesis using None others_keepD [OF assms(1), of P_rotate sv] by (auto simp: owner_effect_def)
next
  case (Some res)
  let ?s = "sv_store (re_yield env P_rotate sv)"
  from registerReclaim_accepts [OF assms(2) [unfolded Some]] obtain nonce sig s where
    *: "re_nonce env = Some nonce" "re_verify env (e_Pubkey existing) (ProofSigningPayload nonce) sig"
      "res = result_of reg False pub"
      "Store_Rotate (re_fault env P_rotate) ?s (r_Unique reg) pub (re_now env P_now) = (None, s)"
      "sv_store sv' = s" by auto
  have "owner_of s = (if owner_of ?s (r_Unique reg) = None then owner_of ?s else (owner_of ?s)(r_Unique reg \<mapsto> pub))"
    using ids.rotate_ok [OF *(4)] .
  then show ?thesis
    using * Some assms(3) others_keepD [OF assms(1), of P_rotate sv]
    by (auto simp: owner_effect_def result_of_def)
qed

lemma registerLookup_owner:
  assumes "others_keep env v" "registerLookup env ipKey reg pub sv st = (r, sv', st')"
  shows "owner_effect env v (owner_of (sv_store sv) v) r (owner_of (sv_store sv') v)"
proof -
  note y = others_keepD [OF assms(1)]
  let ?sv = "re_yield env P_get (re_yield env P_allow sv)"
  have o: "owner_of (sv_store ?sv) v = owner_of (sv_store sv) v" by (simp add: y)
  consider (new) "registerNew env ipKey reg pub ?sv st = (r, sv', st')"
    | (deny) "r = None" "sv' = ?sv \<or> sv' = re_yield env P_allow sv"
    | (touch) x e where "Store_Get (re_fault env P_get) (sv_store ?sv) (r_Unique reg) = Inr x" "e_Pubkey x = pub"
        "r = Some (result_of reg False pub)"
        "(e, sv_store sv') = Store_Touch (re_fault env P_touch) (sv_store (re_yield env P_touch ?sv)) (r_Unique reg) (re_now env P_now)"
    | (reclaim) x where "Store_Get (re_fault env P_get) (sv_store ?sv) (r_Unique reg) = Inr x"
        "registerReclaim env reg pub x ?sv st = (r, sv', st')"
    using assms(2)
    by (auto simp: registerLookup_def Let_def denied_def split: option.splits sum.splits if_splits store_err.splits prod.splits)
  then show ?thesis
  proof cases
    case new
    then show ?thesis using registerNew_owner [OF assms(1)] o by metis
  next
    case deny
    then show ?thesis using o by (auto simp: owner_effect_def y)
  next
    case touch
    then show ?thesis
      using Store_Touch_owner [OF touch(4) [symmetric]] Store_Get_owner [OF touch(1)] o
      by (auto simp: owner_effect_def result_of_def y others_keepD' [OF assms(1)])
  next
    case reclaim
    then show ?thesis using registerReclaim_owner [OF assms(1)] Store_Get_owner o by metis
  qed
qed

lemma handleRegister_owner:
  assumes "others_keep env v" "handleRegister env peer addr sv st = (r, sv', st')"
  shows "owner_effect env v (owner_of (sv_store sv) v) r (owner_of (sv_store sv') v)"
proof -
  note y = others_keepD [OF assms(1)]
  have L: "owner_effect env v (owner_of (sv_store sv) v) r (owner_of (sv_store sv') v)"
    if "registerLookup env (ip_key addr) reg pub ((re_yield env P_ip sv)\<lparr>sv_ip := l\<rparr>) st1 = (r, sv', st')" for reg pub l st1
    using registerLookup_owner [OF assms(1) that] by (simp add: y)
  show ?thesis
    using assms(2)
    by (auto simp: handleRegister_def registerAdmit_def registerVerify_def Let_def denied_def y
      split: prod.splits sum.splits if_splits option.splits dest!: try_refund_store intro: L)
qed
lemma register_msg_wf:
  assumes "ValidateUnique quote u = None" "length pub = 32" "length sig = 64" "int64 ts"
  shows "msg_wf (MRegister (register_msg pub sig u ts))"
    "length (frame_bytes (MRegister (register_msg pub sig u ts))) \<le> MaxFrameBytes + 4"
proof -
  show "msg_wf (MRegister (register_msg pub sig u ts))"
    using assms ValidateUnique_ascii [OF assms(1)]
    by (simp add: register_msg_def valid_utf8_ascii EncodeToString_ascii ProtoVersion_def)
  show "length (frame_bytes (MRegister (register_msg pub sig u ts))) \<le> MaxFrameBytes + 4"
    using ValidateUnique_shape(1) [OF assms(1)] assms length_EncodeToString [of pub] length_EncodeToString [of sig]
    by (intro frame_bytes_Register_small) (auto simp: register_msg_def ProtoVersion_def)
qed

lemma handleRegister_honest:
  assumes "s_in st = frame_bytes (MRegister (register_msg pub sig u ts)) @ rest"
    "ValidateUnique (re_quote env) u = None" "length pub = 32" "length sig = 64" "int64 ts"
    "\<not> clockSkewed (re_now env P_now) ts" "re_verify env pub (RegisterSigningPayload pub u ts) sig"
    "peer = None \<or> peer = Some pub"
    "lim_Allow (re_rnd env P_ip) (re_now env P_ip) (sv_ip (re_yield env P_ip sv)) (ip_key addr) = (True, l)"
  shows "handleRegister env peer addr sv st
    = registerLookup env (ip_key addr) (register_msg pub sig u ts) pub ((re_yield env P_ip sv)\<lparr>sv_ip := l\<rparr>) (st\<lparr>s_in := rest\<rparr>)"
proof -
  note wf = register_msg_wf [OF assms(2-5)]
  show ?thesis
    using assms(2-9) ReadFrame_frame_bytes [OF wf(2) assms(1)] DecodePayload_msgs(1) [OF wf(1)]
    by (auto simp: handleRegister_def registerAdmit_def registerVerify_def register_msg_def PublicKeySize_def SignatureSize_def
        simp del: json_Marshal.simps)
qed

lemma registerReclaim_honest:
  assumes "re_nonce env = Some nonce" "length nonce = 32" "s_cap st = None"
    "s_in st = frame_bytes (MProof \<lparr>p_Sig = EncodeToString psig\<rparr>) @ rest" "length psig = 64"
    "re_verify env (e_Pubkey x) (ProofSigningPayload nonce) psig" "length pub = 32" "re_fault env P_rotate = None"
  shows "\<exists>st'. registerReclaim env reg pub x sv st =
      (Some (result_of reg False pub),
       (re_yield env P_rotate sv)\<lparr>sv_store := snd (Store_Rotate None (sv_store (re_yield env P_rotate sv)) (r_Unique reg) pub (re_now env P_now))\<rparr>, st')
     \<and> s_out st' = s_out st @ frame_bytes (MChallenge \<lparr>c_Nonce = EncodeToString nonce\<rparr>) \<and> s_in st' = rest"
proof -
  let ?c = "MChallenge \<lparr>c_Nonce = EncodeToString nonce\<rparr>" and ?p = "MProof \<lparr>p_Sig = EncodeToString psig\<rparr>"
  obtain e st1 where W: "WriteMessage st (kind_of ?c) ?c = (e, st1)" by fastforce
  have c: "e = None" "s_out st1 = s_out st @ frame_bytes ?c" "s_in st1 = s_in st"
    using WriteMessage_cases [OF W] frame_bytes_Challenge_small [of nonce] assms(2,3) by auto
  have R: "ReadFrame st1 = (Inr \<lparr>f_Type = kind_of ?p, f_Payload = json_Marshal ?p\<rparr>, st1\<lparr>s_in := rest\<rparr>)"
    using frame_bytes_Proof_small [of psig] assms(4,5) c(3) by (intro ReadFrame_frame_bytes) simp_all
  have D: "DecodePayload Unmarshal_Proof \<lparr>f_Type = kind_of ?p, f_Payload = json_Marshal ?p\<rparr> = Inr \<lparr>p_Sig = EncodeToString psig\<rparr>"
    by (rule DecodePayload_msgs) (simp add: valid_utf8_ascii EncodeToString_ascii)
  show ?thesis
    using W c R D assms
    by (auto simp: registerReclaim_def Let_def SignatureSize_def Store_Rotate_def PublicKeySize_def simp del: json_Marshal.simps)
qed

text \<open>
  C2: who gets in.  Under every interleaving with other handlers, a Register that is accepted was one
  frame of the right kind and version with a well-shaped name, its 32-byte key signed exactly this
  name and timestamp for the purpose of registering, the timestamp passed the clock check, the
  verified TLS peer key, if there is one, is the same key, the allowlist, if there is one,
  contained the key when it was consulted, the per-IP limit admitted the address, and the session is
  registered under that name's label and that key.
\<close>

theorem register_authentic:
  assumes "handleRegister env peer addr sv st = (Some res, sv', st')"
  shows "\<exists>f st1 reg sig sv1.
      ReadFrame st = (Inr f, st1) \<and> f_Type f = KindRegister \<and> DecodePayload Unmarshal_Register f = Inr reg
    \<and> r_Version reg = ProtoVersion \<and> ValidateUnique (re_quote env) (rr_unique res) = None
    \<and> rr_unique res = r_Unique reg \<and> rr_label res = TunnelLabel (r_Unique reg)
    \<and> DecodeString (r_Pubkey reg) = Some (rr_pubkey res) \<and> length (rr_pubkey res) = 32
    \<and> DecodeString (r_Sig reg) = Some sig \<and> length sig = 64
    \<and> re_verify env (rr_pubkey res) (RegisterSigningPayload (rr_pubkey res) (rr_unique res) (r_Timestamp reg)) sig
    \<and> \<not> clockSkewed (re_now env P_now) (r_Timestamp reg)
    \<and> (peer = None \<or> peer = Some (rr_pubkey res))
    \<and> sv1 = (re_yield env P_ip sv)\<lparr>sv_ip := snd (lim_Allow (re_rnd env P_ip) (re_now env P_ip)
                                              (sv_ip (re_yield env P_ip sv)) (ip_key addr))\<rparr>
    \<and> (\<forall>a. sv_allow (re_yield env P_allow sv1) = Some a \<longrightarrow> Allow_Contains a (rr_pubkey res))
    \<and> fst (lim_Allow (re_rnd env P_ip) (re_now env P_ip) (sv_ip (re_yield env P_ip sv)) (ip_key addr))"
  using assms
proof (rule handleRegister_accepts)
  fix f st1 reg pub sig sv1
  assume *: "ReadFrame st = (Inr f, st1)" "f_Type f = KindRegister" "DecodePayload Unmarshal_Register f = Inr reg"
    "r_Version reg = ProtoVersion" "ValidateUnique (re_quote env) (r_Unique reg) = None"
    "DecodeString (r_Pubkey reg) = Some pub" "length pub = PublicKeySize"
    "DecodeString (r_Sig reg) = Some sig" "length sig = SignatureSize"
    "\<not> clockSkewed (re_now env P_now) (r_Timestamp reg)"
    "re_verify env pub (RegisterSigningPayload pub (r_Unique reg) (r_Timestamp reg)) sig"
    "peer = None \<or> peer = Some pub"
    "fst (lim_Allow (re_rnd env P_ip) (re_now env P_ip) (sv_ip (re_yield env P_ip sv)) (ip_key addr))"
    "sv1 = (re_yield env P_ip sv)\<lparr>sv_ip := snd (lim_Allow (re_rnd env P_ip) (re_now env P_ip)
                                              (sv_ip (re_yield env P_ip sv)) (ip_key addr))\<rparr>"
    "registerLookup env (ip_key addr) reg pub sv1 st1 = (Some res, sv', st')"
  note a = registerLookup_accepts [OF *(15)]
  show ?thesis
    using * a
    by (intro exI [of _ f] exI [of _ st1] exI [of _ reg] exI [of _ sig] exI [of _ sv1])
      (simp add: PublicKeySize_def SignatureSize_def)
qed
lemma lim_Allow_fresh: "0 < mx \<Longrightarrow> fst (lim_Allow r now (Some (SlidingWindow_New mx w)) k)"
  by (simp add: lim_Allow_def SlidingWindow_New_def AllowAt_def samples_of_def drop_aged_def Let_def)

lemma register_free:
  assumes "quiet env" "s_in st = frame_bytes (MRegister (register_msg pub sig u ts)) @ rest"
    "ValidateUnique (re_quote env) u = None" "length pub = 32" "length sig = 64" "int64 ts"
    "\<not> clockSkewed (re_now env P_now) ts" "re_verify env pub (RegisterSigningPayload pub u ts) sig"
    "peer = None \<or> peer = Some pub" "\<forall>a. sv_allow sv = Some a \<longrightarrow> Allow_Contains a pub"
    "fst (lim_Allow (re_rnd env P_ip) (re_now env P_ip) (sv_ip sv) (ip_key addr))"
    "owner_of (sv_store sv) u = None" "fst (lim_Allow (re_rnd env P_pub) (re_now env P_pub) (sv_pub sv) pub)"
    "\<not> re_gone env" "fst (re_ensure env (sv_cert sv) (TunnelLabel u)) = None"
  shows "\<exists>sv'. handleRegister env peer addr sv st = (Some (result_of (register_msg pub sig u ts) True pub), sv', st\<lparr>s_in := rest\<rparr>)
         \<and> owner_of (sv_store sv') = (owner_of (sv_store sv))(u \<mapsto> pub)"
proof -
  have y: "re_yield env p s = s" "re_fault env p = None" for p s using assms(1) by (auto simp: quiet_def)
  let ?m = "register_msg pub sig u ts"
  obtain l where l: "lim_Allow (re_rnd env P_ip) (re_now env P_ip) (sv_ip sv) (ip_key addr) = (True, l)"
    using assms(11) by (metis prod.collapse)
  obtain l' where l': "lim_Allow (re_rnd env P_pub) (re_now env P_pub) (sv_pub sv) pub = (True, l')"
    using assms(13) by (metis prod.collapse)
  obtain c where c: "re_ensure env (sv_cert sv) (TunnelLabel u) = (None, c)" using assms(15) by (metis prod.collapse)
  obtain s' where P: "Store_Put None (sv_store sv) u pub (re_now env P_now) = (None, s')"
    using assms(4,12) by (auto simp: Store_Put_def PublicKeySize_def owner_of_def)
  have H: "handleRegister env peer addr sv st = registerLookup env (ip_key addr) ?m pub (sv\<lparr>sv_ip := l\<rparr>) (st\<lparr>s_in := rest\<rparr>)"
    using handleRegister_honest [OF assms(2-9)] l y by simp
  have "\<not> (case sv_allow sv of None \<Rightarrow> False | Some a \<Rightarrow> \<not> Allow_Contains a pub)"
    using assms(10) by (auto split: option.splits)
  moreover have "Store_Get None (sv_store sv) u = Inl ErrNotFound" "r_Unique ?m = u"
    using assms(12) by (auto simp: Store_Get_def owner_of_def register_msg_def)
  ultimately show ?thesis
    using H l' c P ids.put_ok [OF P] assms(14) y
    by (auto simp: registerLookup_def registerNew_def issueName_def claimName_def owner_of_def Let_def)
qed

text \<open>
  C20: an honest client gets in.  Take a Register frame as the client builds it (a well-shaped name, the
  key's signature over key, name and timestamp, an acceptable clock), an address the per-IP limit
  admits, a key on the allowlist, and no interference and no driver faults.  If the key owns the
  name, the session is accepted at once, without charging the per-key limit and without touching
  a certificate.  If the name is free, the per-key limit admits, the peer stays and the certificate
  can be had, the name is claimed for the key.  If another key owns the name and the peer answers
  the challenge with a signature of the nonce by that key, the name passes to the new key.
\<close>

theorem register_honest:
  fixes env :: "'c reg_env"
  assumes "quiet env" "s_in st = frame_bytes (MRegister (register_msg pub sig u ts)) @ rest"
    "ValidateUnique (re_quote env) u = None" "length pub = 32" "length sig = 64" "int64 ts"
    "\<not> clockSkewed (re_now env P_now) ts" "re_verify env pub (RegisterSigningPayload pub u ts) sig"
    "peer = None \<or> peer = Some pub" "\<forall>a. sv_allow sv = Some a \<longrightarrow> Allow_Contains a pub"
    "fst (lim_Allow (re_rnd env P_ip) (re_now env P_ip) (sv_ip sv) (ip_key addr))"
  shows "(owner_of (sv_store sv) u = Some pub \<longrightarrow>
      (\<exists>sv'. handleRegister env peer addr sv st = (Some (result_of (register_msg pub sig u ts) False pub), sv', st\<lparr>s_in := rest\<rparr>)
         \<and> owner_of (sv_store sv') = owner_of (sv_store sv) \<and> sv_pub sv' = sv_pub sv \<and> sv_cert sv' = sv_cert sv))
   \<and> (owner_of (sv_store sv) u = None \<longrightarrow>
      fst (lim_Allow (re_rnd env P_pub) (re_now env P_pub) (sv_pub sv) pub) \<longrightarrow> \<not> re_gone env \<longrightarrow>
      fst (re_ensure env (sv_cert sv) (TunnelLabel u)) = None \<longrightarrow>
      (\<exists>sv'. handleRegister env peer addr sv st = (Some (result_of (register_msg pub sig u ts) True pub), sv', st\<lparr>s_in := rest\<rparr>)
         \<and> owner_of (sv_store sv') = (owner_of (sv_store sv))(u \<mapsto> pub)))
   \<and> (\<forall>k nonce psig rest'. owner_of (sv_store sv) u = Some k \<longrightarrow> k \<noteq> pub \<longrightarrow> re_nonce env = Some nonce \<longrightarrow>
      length nonce = 32 \<longrightarrow> s_cap st = None \<longrightarrow> length psig = 64 \<longrightarrow>
      rest = frame_bytes (MProof \<lparr>p_Sig = EncodeToString psig\<rparr>) @ rest' \<longrightarrow>
      re_verify env k (ProofSigningPayload nonce) psig \<longrightarrow>
      (\<exists>sv' st'. handleRegister env peer addr sv st = (Some (result_of (register_msg pub sig u ts) False pub), sv', st')
         \<and> owner_of (sv_store sv') = (owner_of (sv_store sv))(u \<mapsto> pub)))"
    (is "?own \<and> ?free \<and> ?other")
proof -
  have y [simp]: "re_yield env p s = s" "re_fault env p = None" for p s using assms(1) by (auto simp: quiet_def)
  let ?m = "register_msg pub sig u ts"
  obtain l where l: "lim_Allow (re_rnd env P_ip) (re_now env P_ip) (sv_ip sv) (ip_key addr) = (True, l)"
    using assms(11) by (cases "lim_Allow (re_rnd env P_ip) (re_now env P_ip) (sv_ip sv) (ip_key addr)") auto
  have H: "handleRegister env peer addr sv st = registerLookup env (ip_key addr) ?m pub (sv\<lparr>sv_ip := l\<rparr>) (st\<lparr>s_in := rest\<rparr>)"
    using handleRegister_honest [OF assms(2-9)] l by simp
  have u: "r_Unique ?m = u" by (simp add: register_msg_def)
  have allow: "\<not> (case sv_allow sv of None \<Rightarrow> False | Some a \<Rightarrow> \<not> Allow_Contains a pub)"
    using assms(10) by (auto split: option.splits)
  have get: "Store_Get None (sv_store sv) u = (case map_of (sv_store sv) u of None \<Rightarrow> Inl ErrNotFound | Some r \<Rightarrow> Inr (to_entry u r))"
    by (simp add: Store_Get_def)
  have own: ?own
    using H allow get u ids.touch_owner [of None "sv_store sv" u "re_now env P_now"]
    by (auto simp: registerLookup_def owner_of_def to_entry_def Store_Touch_def)
  have free: ?free using register_free [OF assms] by blast
  have other: ?other
  proof (intro allI impI)
    fix k nonce psig rest'
    assume f: "owner_of (sv_store sv) u = Some k" "k \<noteq> pub" "re_nonce env = Some nonce" "length nonce = 32"
      "s_cap st = None" "length psig = 64" "rest = frame_bytes (MProof \<lparr>p_Sig = EncodeToString psig\<rparr>) @ rest'"
      "re_verify env k (ProofSigningPayload nonce) psig"
    obtain r where r: "map_of (sv_store sv) u = Some r" "row_pubkey r = k" using f(1) by (auto simp: owner_of_def)
    have e: "e_Pubkey (to_entry u r) = k" using r by (simp add: to_entry_def)
    obtain e' s' where R: "Store_Rotate None (sv_store sv) u pub (re_now env P_now) = (e', s')" by fastforce
    have "e' = None" using R assms(4) by (auto simp: Store_Rotate_def PublicKeySize_def)
    then have "owner_of s' = (owner_of (sv_store sv))(u \<mapsto> pub)" using ids.rotate_ok R f(1) by fastforce
    moreover have "\<exists>st'. registerReclaim env ?m pub (to_entry u r) (sv\<lparr>sv_ip := l\<rparr>) (st\<lparr>s_in := rest\<rparr>) =
      (Some (result_of ?m False pub), sv\<lparr>sv_ip := l, sv_store := s'\<rparr>, st')"
      using registerReclaim_honest [OF f(3,4), of "st\<lparr>s_in := rest\<rparr>" psig rest' "to_entry u r" pub ?m "sv\<lparr>sv_ip := l\<rparr>"]
        f assms(4) e R u by auto
    ultimately show "\<exists>sv' st'. handleRegister env peer addr sv st = (Some (result_of ?m False pub), sv', st')
         \<and> owner_of (sv_store sv') = (owner_of (sv_store sv))(u \<mapsto> pub)"
      using H allow get u r e f(2) by (auto simp: registerLookup_def)
  qed
  show ?thesis using own free other by blast
qed

lemma demo_facts:
  "quiet (demo_env_reg (1700000000 * Second))"
  "ValidateUnique (re_quote (demo_env_reg now)) ''app'' = None" "length demo_pub = 32" "length demo_sig = 64"
  "\<not> clockSkewed (re_now (demo_env_reg (1700000000 * Second)) P_now) 1700000000"
  "re_verify (demo_env_reg now) k m demo_sig" "s_cap demo_stream = None"
  "s_in demo_stream = frame_bytes (MRegister (register_msg demo_pub demo_sig ''app'' 1700000000)) @ []"
  "fst (lim_Allow r now (sv_ip demo_server) k)" "fst (lim_Allow r now (sv_pub demo_server) k)" "sv_allow demo_server = None"
proof -
  have "ValidateUnique id ''app'' = None" by code_simp
  then show "ValidateUnique (re_quote (demo_env_reg now)) ''app'' = None" by (simp add: demo_env_reg_def)
qed (simp_all add: quiet_def demo_env_reg_def demo_pub_def demo_sig_def demo_stream_def demo_server_def clockSkewed_def
    time_Sub_def time_Unix_def wrap64_def unixToInternal_def minDuration_def maxDuration_def neg64_def maxClockSkew_def lim_Allow_fresh)

theorem register_honest_witness:
  "\<exists>sv'. handleRegister (demo_env_reg (1700000000 * Second)) None ''10.0.0.1:5555'' demo_server demo_stream
      = (Some \<lparr>rr_unique = ''app'', rr_label = ''app-tunnel'', rr_newRegistration = True, rr_pubkey = demo_pub\<rparr>, sv', demo_stream\<lparr>s_in := []\<rparr>)
     \<and> owner_of (sv_store sv') ''app'' = Some demo_pub"
proof -
  have i: "int64 1700000000" by simp
  note h = register_honest [OF demo_facts(1) demo_facts(8) demo_facts(2-4) i demo_facts(5,6), of None demo_server "''10.0.0.1:5555''"]
  have "owner_of (sv_store demo_server) ''app'' = None" "\<not> re_gone (demo_env_reg t)"
    "fst (re_ensure (demo_env_reg t) (sv_cert demo_server) (TunnelLabel ''app'')) = None" for t
    by (simp_all add: demo_server_def demo_env_reg_def owner_of_def)
  with h show ?thesis
    by (auto simp: demo_facts result_of_def register_msg_def TunnelLabel_def)
qed

lemma demo_run:
  "\<exists>res sv' st'. handleRegister (demo_env_reg (1700000000 * Second)) None ''10.0.0.1:5555'' demo_server demo_stream = (Some res, sv', st')
      \<and> rr_unique res = ''app'' \<and> rr_pubkey res = demo_pub"
proof -
  let ?env = "demo_env_reg (1700000000 * Second)"
  have i: "int64 1700000000" by simp
  obtain l where l: "lim_Allow (re_rnd ?env P_ip) (re_now ?env P_ip) (sv_ip (re_yield ?env P_ip demo_server)) (ip_key ''10.0.0.1:5555'') = (True, l)"
    using demo_facts(9) [of "re_rnd ?env P_ip" "re_now ?env P_ip" "ip_key ''10.0.0.1:5555''"]
    by (cases "lim_Allow (re_rnd ?env P_ip) (re_now ?env P_ip) (sv_ip demo_server) (ip_key ''10.0.0.1:5555'')")
      (auto simp: demo_env_reg_def)
  obtain l' where l': "lim_Allow (re_rnd ?env P_pub) (re_now ?env P_pub) (sv_pub demo_server) demo_pub = (True, l')"
    using demo_facts(10) [of "re_rnd ?env P_pub" "re_now ?env P_pub" demo_pub]
    by (cases "lim_Allow (re_rnd ?env P_pub) (re_now ?env P_pub) (sv_pub demo_server) demo_pub") auto
  show "\<exists>res sv' st'. handleRegister ?env None ''10.0.0.1:5555'' demo_server demo_stream = (Some res, sv', st')
      \<and> rr_unique res = ''app'' \<and> rr_pubkey res = demo_pub"
    using handleRegister_honest [OF demo_facts(8) demo_facts(2-4) i demo_facts(5,6) _ l] l'
    by (simp add: registerLookup_def registerNew_def issueName_def claimName_def demo_env_reg_def demo_server_def
        Store_Get_def Store_Put_def register_msg_def result_of_def demo_pub_def PublicKeySize_def)
qed

theorem register_authentic_witness:
  "\<exists>f st1 reg sig. ReadFrame demo_stream = (Inr f, st1) \<and> DecodePayload Unmarshal_Register f = Inr reg
     \<and> r_Unique reg = ''app'' \<and> DecodeString (r_Pubkey reg) = Some demo_pub
     \<and> re_verify (demo_env_reg (1700000000 * Second)) demo_pub (RegisterSigningPayload demo_pub ''app'' (r_Timestamp reg)) sig"
proof -
  let ?env = "demo_env_reg (1700000000 * Second)"
  obtain res sv' st' where r: "handleRegister ?env None ''10.0.0.1:5555'' demo_server demo_stream = (Some res, sv', st')"
    "rr_unique res = ''app''" "rr_pubkey res = demo_pub" using demo_run by blast
  from register_authentic [OF r(1)] show ?thesis unfolding r(2,3) by metis
qed
text \<open>
  C1: who may take a name.  Let \<open>v\<close> be a name whose owner the other goroutines leave alone while the
  handler runs (they may do anything else).  Whatever the peer sends and whatever fails, a Register
  that is not accepted, or is accepted for another name, leaves the owner of \<open>v\<close> as it was; one that
  is accepted for \<open>v\<close> leaves the session's key as the owner, and before it \<open>v\<close> was free (a new
  registration), or owned by that key, or owned by a key that signed this handler's nonce.
\<close>

theorem register_ownership:
  assumes "\<forall>p s. owner_of (sv_store (re_yield env p s)) v = owner_of (sv_store s) v"
    "handleRegister env peer addr sv st = (r, sv', st')"
  shows "case r of
      None \<Rightarrow> owner_of (sv_store sv') v = owner_of (sv_store sv) v
    | Some res \<Rightarrow>
        (rr_unique res \<noteq> v \<longrightarrow> owner_of (sv_store sv') v = owner_of (sv_store sv) v)
      \<and> (rr_unique res = v \<longrightarrow> owner_of (sv_store sv') v = Some (rr_pubkey res)
         \<and> (if rr_newRegistration res then owner_of (sv_store sv) v = None
            else owner_of (sv_store sv) v = Some (rr_pubkey res)
              \<or> (\<exists>k nonce sig. owner_of (sv_store sv) v = Some k \<and> re_nonce env = Some nonce
                    \<and> re_verify env k (ProofSigningPayload nonce) sig)))"
  using handleRegister_owner [OF _ assms(2), of v] assms(1)
  by (auto simp: owner_effect_def others_keep_def split: option.splits if_splits)

theorem register_ownership_witness:
  "\<exists>res sv' st'. handleRegister (demo_env_reg (1700000000 * Second)) None ''10.0.0.1:5555'' demo_server demo_stream = (Some res, sv', st')
     \<and> rr_unique res = ''app'' \<and> owner_of (sv_store sv') ''app'' = Some (rr_pubkey res) \<and> owner_of (sv_store sv') ''other'' = None"
proof -
  let ?env = "demo_env_reg (1700000000 * Second)"
  obtain res sv' st' where r: "handleRegister ?env None ''10.0.0.1:5555'' demo_server demo_stream = (Some res, sv', st')"
    "rr_unique res = ''app''" using demo_run by blast
  have y: "\<forall>p s. owner_of (sv_store (re_yield ?env p s)) v = owner_of (sv_store s) v" for v by (simp add: demo_env_reg_def)
  from register_ownership [OF y r(1), of "''app''"] register_ownership [OF y r(1), of "''other''"] r show ?thesis
    by (simp add: demo_server_def owner_of_def)
qed

text \<open>
  Two handlers race for a free name.  Both looked the name up before either committed.  The one that
  commits first registers it; the other one, if it has the same key, is reconciled as a reconnect,
  and otherwise is told \<open>key_mismatch\<close>; in both cases the name belongs to the first.
\<close>

theorem claim_race:
  assumes "quiet env1" "quiet env2" "r_Unique reg1 = u" "r_Unique reg2 = u" "length k1 = 32" "length k2 = 32"
    "owner_of (sv_store sv) u = None"
    "claimName env1 reg1 k1 sv st1 = (r1, sv1, st1')" "claimName env2 reg2 k2 sv1 st2 = (r2, sv2, st2')"
  shows "r1 = Some (result_of reg1 True k1) \<and> st1' = st1
    \<and> (if k2 = k1 then r2 = Some (result_of reg2 False k2) \<and> st2' = st2
       else r2 = None \<and> st2' = sendDeny st2 ''key_mismatch'')
    \<and> owner_of (sv_store sv2) u = Some k1"
proof -
  have y: "re_yield env1 p s = s" "re_fault env1 p = None" "re_yield env2 p s = s" "re_fault env2 p = None" for p s
    using assms(1,2) by (auto simp: quiet_def)
  obtain s1 where P: "Store_Put None (sv_store sv) u k1 (re_now env1 P_now) = (None, s1)"
    using assms(5,7) by (auto simp: Store_Put_def PublicKeySize_def owner_of_def)
  have o: "owner_of s1 u = Some k1" using ids.put_ok [OF P] by simp
  have 1: "r1 = Some (result_of reg1 True k1)" "st1' = st1" "sv1 = sv\<lparr>sv_store := s1\<rparr>"
    using assms(3,8) P y by (auto simp: claimName_def)
  have P2: "Store_Put None s1 u k2 (re_now env2 P_now) = (Some ErrAlreadyExists, s1)"
    using o assms(6) by (auto simp: Store_Put_def PublicKeySize_def owner_of_def)
  obtain x where G: "Store_Get None s1 u = Inr x" "e_Pubkey x = k1"
    using o by (auto simp: Store_Get_def owner_of_def to_entry_def)
  obtain e s2 where T: "Store_Touch None s1 u (re_now env2 P_now) = (e, s2)" by fastforce
  show ?thesis
    using assms(4,9) 1 P2 G T y o Store_Touch_owner [OF T]
    by (auto simp: claimName_def denied_def split: if_splits)
qed

theorem claim_race_witness:
  "\<exists>r1 sv1 st1 r2 sv2 st2.
     claimName (demo_env_reg 0) (register_msg demo_pub demo_sig ''app'' 0) demo_pub demo_server empty_stream = (r1, sv1, st1)
   \<and> claimName (demo_env_reg 0) (register_msg demo_old demo_sig ''app'' 0) demo_old sv1 empty_stream = (r2, sv2, st2)
   \<and> r1 \<noteq> None \<and> r2 = None \<and> st2 = sendDeny empty_stream ''key_mismatch'' \<and> owner_of (sv_store sv2) ''app'' = Some demo_pub"
proof -
  let ?m1 = "register_msg demo_pub demo_sig ''app'' 0" and ?m2 = "register_msg demo_old demo_sig ''app'' 0"
  obtain r1 sv1 st1 where 1: "claimName (demo_env_reg 0) ?m1 demo_pub demo_server empty_stream = (r1, sv1, st1)" using prod_cases3 by blast
  obtain r2 sv2 st2 where 2: "claimName (demo_env_reg 0) ?m2 demo_old sv1 empty_stream = (r2, sv2, st2)" using prod_cases3 by blast
  have q: "quiet (demo_env_reg 0)" by (simp add: quiet_def demo_env_reg_def)
  have "r_Unique ?m1 = ''app''" "r_Unique ?m2 = ''app''" "length demo_pub = 32" "length demo_old = 32" "demo_old \<noteq> demo_pub"
    "owner_of (sv_store demo_server) ''app'' = None"
    by (simp_all add: register_msg_def demo_pub_def demo_old_def demo_server_def owner_of_def)
  from claim_race [OF q q this(1-4,6) 1 2] this(5) show ?thesis using 1 2 by auto
qed

text \<open>
  C26: the replay window.  The clock check accepts a timestamp exactly when it is within five minutes of
  the server's clock or at least 2^63 nanoseconds (about 292 years) in its future: there
  \<open>now.Sub(ts)\<close> saturates at the smallest duration and its negation wraps to itself.  In particular
  a signed Register with timestamp 2^36 is accepted whatever the time is, for the next century.
\<close>

theorem clock_check_exact:
  "(\<not> clockSkewed now ts \<longleftrightarrow> \<bar>now - time_Unix ts\<bar> \<le> maxClockSkew \<or> 2 ^ 63 \<le> time_Unix ts - now)
   \<and> (0 \<le> now \<longrightarrow> now < 2 ^ 62 \<longrightarrow> \<not> clockSkewed now (2 ^ 36))"
proof -
  have iff: "\<not> clockSkewed now ts \<longleftrightarrow> \<bar>now - time_Unix ts\<bar> \<le> maxClockSkew \<or> 2 ^ 63 \<le> time_Unix ts - now" for now ts
  proof -
    let ?d = "now - time_Unix ts"
    consider "?d \<le> minDuration" | "minDuration < ?d" "?d \<le> maxDuration" | "maxDuration < ?d" by linarith
    then show ?thesis
    proof cases
      case 1
      then have "time_Sub now (time_Unix ts) = minDuration" by (simp add: time_Sub_def minDuration_def maxDuration_def)
      then show ?thesis using 1 by (simp add: clockSkewed_def neg64_min) (simp add: minDuration_def maxClockSkew_def)
    next
      case 2
      then have "time_Sub now (time_Unix ts) = ?d" by (simp add: time_Sub_def)
      then show ?thesis using 2 neg64_id [OF 2] by (simp add: clockSkewed_def) (auto simp: minDuration_def)
    next
      case 3
      then have "time_Sub now (time_Unix ts) = maxDuration" by (simp add: time_Sub_def minDuration_def maxDuration_def)
      then show ?thesis using 3 by (simp add: clockSkewed_def) (simp add: maxDuration_def maxClockSkew_def)
    qed
  qed
  have "time_Unix (2 ^ 36) = 68719476736 * Second" by (simp add: time_Unix_def wrap64_def unixToInternal_def)
  then show ?thesis using iff [of now ts] iff [of now "2 ^ 36"] by auto
qed

theorem clock_check_exact_witness:
  "\<not> clockSkewed (1700000000 * Second) (2 ^ 36) \<and> clockSkewed (1700000000 * Second) 1700000301 \<and> \<not> clockSkewed (1700000000 * Second) 1700000300"
  using clock_check_exact [of "1700000000 * Second" 1700000301] clock_check_exact [of "1700000000 * Second" 1700000300]
  by (simp add: time_Unix_def wrap64_def unixToInternal_def maxClockSkew_def)



end
