(* ===== verification/Register_Budget.thy ===== *)
theory Register_Budget
  imports Register "HOL-Library.Multiset"
begin

text \<open>
  The budgets of the registration protocol over a sequence of attempts: the per-IP limiter
  charges an attempt, the refund paths of \<open>handleRegister\<close> (clock skew, abort during the grace
  window, transient certificate failure) give the charge back, and the refund limiter caps how
  often.  \<open>budget_inv\<close> relates the two limiters to the attempts that passed the per-IP gate, through
  the histories of the limiter's refinement proof.
\<close>

section \<open>Specification\<close>

text \<open>What a handler past the per-IP gate does to the IP and refund limiters.\<close>

definition refund_effect :: "'c reg_env \<Rightarrow> string \<Rightarrow> 'c server \<Rightarrow> 'c server \<Rightarrow> bool" where
  "refund_effect env key sv sv' \<longleftrightarrow>
     (let (ok, l) = mayRefund (re_rnd env P_refund) (re_now env P_refund) (sv_refund sv) key in
      sv_ip sv' = sv_ip sv \<and> sv_refund sv' \<in> {sv_refund sv, l}
      \<or> ok \<and> sv_ip sv' = lim_Cancel (sv_ip sv) key \<and> sv_refund sv' = l)"

definition valid_register :: "'c reg_env \<Rightarrow> stream \<Rightarrow> bool" where
  "valid_register env st =
     (case fst (ReadFrame st) of
        Inl _ \<Rightarrow> False
      | Inr f \<Rightarrow> f_Type f = KindRegister \<and>
          (case DecodePayload Unmarshal_Register f of
             Inl _ \<Rightarrow> False
           | Inr reg \<Rightarrow> r_Version reg = ProtoVersion \<and> ValidateUnique (re_quote env) (r_Unique reg) = None))"

definition gate_pass :: "'c reg_env \<Rightarrow> string \<Rightarrow> 'c server \<Rightarrow> stream \<Rightarrow> bool" where
  "gate_pass env addr sv st \<longleftrightarrow> valid_register env st
     \<and> fst (lim_Allow (re_rnd env P_ip) (re_now env P_ip) (sv_ip sv) (ip_key addr))"

type_synonym 'c attempt = "'c reg_env \<times> bytes option \<times> string \<times> stream"

fun run_attempts :: "'c server \<Rightarrow> 'c attempt list \<Rightarrow> 'c server \<times> (string \<times> gotime) list" where
  "run_attempts sv [] = (sv, [])"
| "run_attempts sv ((env, peer, addr, st) # as) =
     (let sv1 = fst (snd (handleRegister env peer addr sv st));
          (sv2, ps) = run_attempts sv1 as
      in (sv2, (if gate_pass env addr sv st then [(ip_key addr, re_now env P_ip)] else []) @ ps))"

definition passes :: "string \<Rightarrow> (string \<times> gotime) list \<Rightarrow> gotime multiset" where
  "passes k ps = mset (map snd (filter (\<lambda>p. fst p = k) ps))"

definition lim_ok :: "string set \<Rightarrow> gotime \<Rightarrow> int \<Rightarrow> SlidingWindow \<Rightarrow> history \<Rightarrow> bool" where
  "lim_ok K t mx l h \<longleftrightarrow> sw_sim K t (l, h) \<and> sw_max l = mx \<and> sw_window l = Hour \<and> sw_maxKeys l = DefaultMaxKeys"

definition budget_inv :: "string set \<Rightarrow> gotime \<Rightarrow> int \<Rightarrow> int \<Rightarrow> 'c server \<Rightarrow> (string \<times> gotime) list \<Rightarrow> bool" where
  "budget_inv K t a b sv ps \<longleftrightarrow>
     (\<exists>li lr hi hr. sv_ip sv = Some li \<and> sv_refund sv = Some lr \<and> lim_ok K t a li hi \<and> lim_ok K t b lr hr
        \<and> (\<forall>k. passes k ps \<subseteq># mset (hi k) + mset (hr k)))"

definition attempt_time :: "'c attempt \<Rightarrow> gotime" where
  "attempt_time x = re_now (fst x) P_ip"

definition attempt_key :: "'c attempt \<Rightarrow> string" where
  "attempt_key x = ip_key (fst (snd (snd x)))"

section \<open>Lemmas\<close>

lemma refund_effect_refl: "sv_ip sv' = sv_ip sv \<Longrightarrow> sv_refund sv' = sv_refund sv \<Longrightarrow> refund_effect env key sv sv'"
  by (simp add: refund_effect_def split: prod.splits)

lemma try_refund_alone:
  "alone env \<Longrightarrow> try_refund env key sv = (ok, sv1) \<Longrightarrow>
     \<exists>l. mayRefund (re_rnd env P_refund) (re_now env P_refund) (sv_refund sv) key = (ok, l) \<and> sv1 = sv\<lparr>sv_refund := l\<rparr>"
  by (auto simp: try_refund_def alone_def split: prod.splits)

lemma refund_effect_refund:
  assumes "alone env" "try_refund env key sv = (ok, sv1)"
  shows "refund_effect env key sv (if ok then refundRegister key pub sv1 else sv1)"
    "refund_effect env key sv (if ok then sv1\<lparr>sv_ip := lim_Cancel (sv_ip sv1) key\<rparr> else sv1)"
  using try_refund_alone [OF assms] by (auto simp: refund_effect_def refundRegister_def)

lemma claimName_limits:
  "alone env \<Longrightarrow> claimName env reg pub sv st = (r, sv', st') \<Longrightarrow> sv_ip sv' = sv_ip sv \<and> sv_refund sv' = sv_refund sv"
  by (auto simp: claimName_def alone_def Let_def denied_def split: prod.splits option.splits store_err.splits sum.splits if_splits)

lemma refund_effect_cong: "sv_ip s = sv_ip sv \<Longrightarrow> sv_refund s = sv_refund sv \<Longrightarrow> refund_effect env key s sv' = refund_effect env key sv sv'"
  by (simp add: refund_effect_def)

lemma issueName_limits:
  assumes "alone env" "issueName env key reg pub sv st = (r, sv', st')"
  shows "refund_effect env key sv sv'"
proof -
  obtain e c where E: "re_ensure env (sv_cert sv) (TunnelLabel (r_Unique reg)) = (e, c)" by fastforce
  let ?sv = "sv\<lparr>sv_cert := c\<rparr>"
  obtain ok sv3 where T: "try_refund env key ?sv = (ok, sv3)" by fastforce
  have "refund_effect env key ?sv sv'"
    using assms E T refund_effect_refund(1) [OF assms(1) T, of pub] claimName_limits [OF assms(1), of reg pub ?sv st r sv' st']
    by (auto simp: issueName_def alone_def Let_def denied_def intro: refund_effect_refl
        split: option.splits if_splits)
  then show ?thesis by (simp add: refund_effect_def)
qed

lemma registerNew_limits:
  assumes "alone env" "registerNew env key reg pub sv st = (r, sv', st')"
  shows "refund_effect env key sv sv'"
proof -
  obtain a l where A: "lim_Allow (re_rnd env P_pub) (re_now env P_pub) (sv_pub sv) pub = (a, l)" by fastforce
  let ?sv = "sv\<lparr>sv_pub := l\<rparr>"
  obtain ok sv3 where T: "try_refund env key ?sv = (ok, sv3)" by fastforce
  have "refund_effect env key ?sv sv'"
    using assms A T refund_effect_refund(1) [OF assms(1) T, of pub] issueName_limits [OF assms(1), of key reg pub ?sv st r sv' st']
    by (auto simp: registerNew_def alone_def Let_def split: prod.splits if_splits intro!: refund_effect_refl)
  then show ?thesis by (simp add: refund_effect_def)
qed

lemma registerReclaim_limits:
  "alone env \<Longrightarrow> registerReclaim env reg pub x sv st = (r, sv', st') \<Longrightarrow> sv_ip sv' = sv_ip sv \<and> sv_refund sv' = sv_refund sv"
  by (auto simp: registerReclaim_def alone_def Let_def denied_def split: prod.splits option.splits sum.splits if_splits)

lemma registerLookup_limits:
  assumes "alone env" "registerLookup env key reg pub sv st = (r, sv', st')"
  shows "refund_effect env key sv sv'"
  using assms registerNew_limits [OF assms(1), of key reg pub sv st r sv' st']
    registerReclaim_limits [OF assms(1), of reg pub _ sv st r sv' st']
  by (auto simp: registerLookup_def alone_def Let_def denied_def split: prod.splits option.splits sum.splits if_splits store_err.splits
      intro!: refund_effect_refl)

lemma registerVerify_limits:
  assumes "alone env" "registerVerify env peer key reg sv st = (r, sv', st')"
  shows "refund_effect env key sv sv'"
proof -
  obtain ok sv3 where T: "try_refund env key sv = (ok, sv3)" by fastforce
  show ?thesis
    using assms T refund_effect_refund(2) [OF assms(1) T] registerLookup_limits [OF assms(1), of key reg _ sv st r sv' st']
    by (auto simp: registerVerify_def denied_def Let_def intro!: refund_effect_refl split: option.splits if_splits)
qed
lemma lim_ok_step:
  assumes "lim_ok K t mx l h" "0 < mx" "finite K" "int (card K) \<le> DefaultMaxKeys"
    "\<forall>k. lop_key op = Some k \<longrightarrow> k \<in> K" "lop_time op = Some now \<or> lop_time op = None \<and> now = t" "t \<le> now"
  shows "lim_ok K now mx (fst (sw_step (l, h) op)) (snd (sw_step (l, h) op))"
  using assms sw_sim_step [of K t l h op] sw_step_frame [of l h op] by (auto simp: lim_ok_def)

lemma lim_ok_advance: "lim_ok K t mx l h \<Longrightarrow> t \<le> now \<Longrightarrow> lim_ok K now mx l h"
  using sw_sim_advance by (auto simp: lim_ok_def)

lemma passes_append [simp]: "passes k (ps @ qs) = passes k ps + passes k qs"
  by (simp add: passes_def)

lemma passes_Nil [simp]: "passes k [] = {#}"
  by (simp add: passes_def)

lemma passes_one [simp]: "passes k [(j, t)] = (if j = k then {#t#} else {#})"
  by (simp add: passes_def)

lemma handleRegister_gate:
  assumes "alone env"
  shows "if valid_register env st
     then (\<exists>reg st1. handleRegister env peer addr sv st = registerAdmit env peer addr reg sv st1)
     else fst (snd (handleRegister env peer addr sv st)) = sv"
  by (auto simp: valid_register_def handleRegister_def denied_def split: prod.splits sum.splits option.splits)

lemma mayRefund_Some:
  "0 < sw_max l \<Longrightarrow> mayRefund r t (Some l) k = (fst (AllowAt r l k t), Some (snd (AllowAt r l k t)))"
  by (simp add: mayRefund_def lim_Allow_def SlidingWindow_Max_def split: prod.splits)

lemma attempt_step:
  assumes inv: "budget_inv K t a b sv ps" and "0 < a" "0 < b" "finite K" "int (card K) \<le> DefaultMaxKeys"
    and "alone env" "\<forall>p. re_now env p = now" "t \<le> now" "ip_key addr \<in> K"
  shows "budget_inv K now a b (fst (snd (handleRegister env peer addr sv st)))
     (ps @ (if gate_pass env addr sv st then [(ip_key addr, now)] else []))"
proof -
  let ?k = "ip_key addr" and ?sv' = "fst (snd (handleRegister env peer addr sv st))"
  obtain li lr hi hr where i: "sv_ip sv = Some li" "sv_refund sv = Some lr" "lim_ok K t a li hi" "lim_ok K t b lr hr"
    "\<forall>k. passes k ps \<subseteq># mset (hi k) + mset (hr k)" using inv by (auto simp: budget_inv_def)
  have yid: "re_yield env p s = s" for p s using assms(6) by (simp add: alone_def)
  obtain ok l1 where A: "AllowAt (re_rnd env P_ip) li ?k now = (ok, l1)" by fastforce
  have adv: "lim_ok K now b lr hr" "lim_ok K now a li hi" using i(3,4) assms(8) lim_ok_advance by blast+
  let ?h1 = "if ok then hi(?k := hi ?k @ [now]) else hi"
  have l1: "lim_ok K now a l1 ?h1"
    using lim_ok_step [OF i(3) assms(2,4,5), of "LAllow ?k now (re_rnd env P_ip)" now] assms(8,9) A by simp
  show ?thesis
  proof (cases "valid_register env st")
    case False
    then have "?sv' = sv" "\<not> gate_pass env addr sv st"
      using handleRegister_gate [OF assms(6), of st peer addr sv] by (auto simp: gate_pass_def)
    then show ?thesis using i adv by (auto simp: budget_inv_def)
  next
    case valid: True
    then obtain reg st1 where H: "handleRegister env peer addr sv st = registerAdmit env peer addr reg sv st1"
      using handleRegister_gate [OF assms(6), of st peer addr sv] by auto
    have g: "gate_pass env addr sv st \<longleftrightarrow> ok"
      using valid A i(1) assms(7) by (simp add: gate_pass_def lim_Allow_def)
    show ?thesis
    proof (cases ok)
      case False
      have "?sv' = sv\<lparr>sv_ip := Some (snd (RetryAfterAt l1 ?k now))\<rparr>"
        unfolding H using A i(1) assms(7) False
        by (auto simp: registerAdmit_def yid lim_Allow_def lim_RetryAfter_def Let_def split: prod.splits)
      moreover have "lim_ok K now a (snd (RetryAfterAt l1 ?k now)) hi"
        using lim_ok_step [OF l1 assms(2,4,5), of "LRetry ?k now" now] assms(9) False by simp
      ultimately show ?thesis using i g False adv(1) by (auto simp: budget_inv_def)
    next
      case True
      let ?sv1 = "sv\<lparr>sv_ip := Some l1\<rparr>"
      obtain r sv' st' where V: "registerVerify env peer ?k reg ?sv1 st1 = (r, sv', st')" using prod_cases3 by blast
      have sv': "?sv' = sv'" unfolding H using A i(1) assms(7) True V
        by (simp add: registerAdmit_def yid lim_Allow_def)
      obtain rok lr1 where B: "AllowAt (re_rnd env P_refund) lr ?k now = (rok, lr1)" by fastforce
      have "sw_max lr = b" using i(4) by (simp add: lim_ok_def)
      then have M: "mayRefund (re_rnd env P_refund) (re_now env P_refund) (sv_refund ?sv1) ?k = (rok, Some lr1)"
        using mayRefund_Some [of lr] assms(3,7) B i(2) by simp
      let ?r1 = "if rok then hr(?k := hr ?k @ [now]) else hr"
      have lr1: "lim_ok K now b lr1 ?r1"
        using lim_ok_step [OF i(4) assms(3,4,5), of "LAllow ?k now (re_rnd env P_refund)" now] assms(8,9) B by simp
      have lc: "lim_ok K now a (CancelLatest l1 ?k) hi"
        using lim_ok_step [OF l1 assms(2,4,5), of "LCancel ?k" now] assms(9) True by simp
      have e: "sv_ip sv' = Some l1 \<and> sv_refund sv' \<in> {Some lr, Some lr1}
         \<or> rok \<and> sv_ip sv' = Some (CancelLatest l1 ?k) \<and> sv_refund sv' = Some lr1"
        using registerVerify_limits [OF assms(6) V] M i(2) by (auto simp: refund_effect_def lim_Cancel_def)
      have p: "ps @ (if gate_pass env addr sv st then [(?k, now)] else []) = ps @ [(?k, now)]" using g True by simp
      have sub: "passes k (ps @ [(?k, now)]) \<subseteq># mset (?h1 k) + mset (hr k)" for k
        using i(5) [rule_format, of k] True by (cases "k = ?k") simp_all
      have subr: "passes k (ps @ [(?k, now)]) \<subseteq># mset (hi k) + mset (?r1 k)" if rok for k
        using i(5) [rule_format, of k] that by (cases "k = ?k") simp_all
      have "mset (hr k) \<subseteq># mset (?r1 k)" for k by simp
      then have subr': "passes k (ps @ [(?k, now)]) \<subseteq># mset (?h1 k) + mset (?r1 k)" for k
        using sub [of k] subset_mset.add_left_mono subset_mset.order_trans by metis
      from e show ?thesis
        unfolding sv' p budget_inv_def using l1 lr1 lc adv(1) sub subr subr' by blast
    qed
  qed
qed
lemma passes_count: "length (filter (\<lambda>(k', t). k' = k \<and> P t) ps) = size (filter_mset P (passes k ps))"
  by (induction ps) (auto simp: passes_def)

lemma lim_ok_bound:
  assumes "lim_ok K t mx l h"
  shows "int (length (filter (\<lambda>x. T - Hour < x \<and> x \<le> T) (h k))) \<le> mx"
proof -
  have "sw_sim K t (l, h)" "sw_window l = Hour" "sw_max l = mx" using assms by (simp_all add: lim_ok_def)
  then show ?thesis unfolding sw_sim_def prod.case by metis
qed

lemma run_attempts_inv:
  assumes "budget_inv K t a b sv ps" "0 < a" "0 < b" "finite K" "int (card K) \<le> DefaultMaxKeys"
    "\<forall>x\<in>set xs. alone (fst x) \<and> (\<forall>p. re_now (fst x) p = attempt_time x) \<and> attempt_key x \<in> K"
    "sorted (t # map attempt_time xs)"
  shows "budget_inv K (last (t # map attempt_time xs)) a b (fst (run_attempts sv xs)) (ps @ snd (run_attempts sv xs))"
  using assms
proof (induction xs arbitrary: t sv ps)
  case (Cons x xs)
  obtain env peer addr st where x: "x = (env, peer, addr, st)" by (cases x)
  let ?now = "attempt_time x" and ?sv1 = "fst (snd (handleRegister env peer addr sv st))"
  let ?p = "if gate_pass env addr sv st then [(ip_key addr, ?now)] else []"
  have e: "alone env" "\<forall>p. re_now env p = ?now" "t \<le> ?now" "ip_key addr \<in> K"
    using Cons.prems(6,7) by (simp_all add: x attempt_key_def)
  note attempt_step [OF Cons.prems(1-5) e, of peer st]
  from Cons.IH [OF this Cons.prems(2-5)] Cons.prems(6,7)
  have "budget_inv K (last (?now # map attempt_time xs)) a b (fst (run_attempts ?sv1 xs)) (ps @ ?p @ snd (run_attempts ?sv1 xs))"
    by simp
  moreover have "run_attempts sv (x # xs) = (fst (run_attempts ?sv1 xs), ?p @ snd (run_attempts ?sv1 xs))"
    by (simp add: x attempt_time_def case_prod_unfold Let_def)
  moreover have "last (t # map attempt_time (x # xs)) = last (?now # map attempt_time xs)" by simp
  ultimately show ?case by (simp only: fst_conv snd_conv)
qed simp



end
