(* ===== verification/Connect.thy ===== *)
theory Connect
  imports Register
begin

text \<open>
  The connection handler (\<open>connectHandler\<close> in \<open>cmd/swe-swe-tunneld/tunnel.go\<close>): the HTTP upgrade,
  the registration, the registry entry, the control loop and the deferred removal.

  Package yamux and the hijacked connection are represented by what their calls return
  (\<open>conn_env\<close>); the control stream is a \<open>stream\<close>.  \<open>envs n\<close> is the environment of the \<open>n\<close>-th round of
  the control loop.
\<close>

section \<open>The control loop\<close>

lemma handleDeregister_in:
  "(ok, sv', st') = handleDeregister env f u k sv st \<Longrightarrow> s_in st' = s_in st"
  by (auto simp: handleDeregister_def sendDeny_def Let_def split: sum.splits option.splits prod.splits if_splits)

function runControlLoop ::
  "(nat \<Rightarrow> 'c reg_env) \<Rightarrow> nat \<Rightarrow> string \<Rightarrow> bytes \<Rightarrow> 'c server \<Rightarrow> stream \<Rightarrow> bool \<times> 'c server \<times> stream" where
  "runControlLoop envs n sessUnique sessPubkey sv st =
     (case ReadFrame st of
        (Inl _, st1) \<Rightarrow> (False, sv, st1)
      | (Inr frame, st1) \<Rightarrow>
          if f_Type frame = KindDeregister then
            (case handleDeregister (envs n) frame sessUnique sessPubkey sv st1 of
               (ok, sv1, st2) \<Rightarrow>
                 if ok then (True, sv1, st2)
                 else runControlLoop envs (Suc n) sessUnique sessPubkey sv1 st2)
          else runControlLoop envs (Suc n) sessUnique sessPubkey sv
                 (sendDeny st1 (''unexpected post-register frame '' @ re_quote (envs n) (f_Type frame))))"
  by pat_completeness auto
termination
  by (relation "measure (\<lambda>(_, _, _, _, _, st). length (s_in st))")
    (auto simp: sendDeny_def dest!: ReadFrame_consumes [OF sym] handleDeregister_in)

declare runControlLoop.simps [simp del]

section \<open>The connection handler\<close>

datatype peer_key = Ed25519 bytes | OtherKey

record http_req =
  q_Method :: string
  q_Connection :: string
  q_Upgrade :: string
  q_PeerCerts :: "peer_key list option"

record conn_env =
  ce_hijacker :: bool
  ce_hijack :: bool
  ce_deadline :: bool
  ce_write101 :: bool
  ce_flush :: bool
  ce_yamux :: bool
  ce_accept :: bool
  ce_clear :: bool
  ce_readDeadline :: bool
  ce_remote :: string

datatype conn_out = HttpError nat string | Dropped | Refused | Served bool

definition peerCertPub :: "http_req \<Rightarrow> bytes option" where
  "peerCertPub r =
     (case q_PeerCerts r of
        Some (Ed25519 ed # _) \<Rightarrow> Some ed
      | _ \<Rightarrow> None)"

text \<open>Lines 323-335: the registry entry and the reply; success means that the session is live.\<close>

definition admitSession ::
  "'c reg_env \<Rightarrow> string \<Rightarrow> session \<Rightarrow> registerResult \<Rightarrow> 'c server \<Rightarrow> stream \<Rightarrow> bool option \<times> 'c server \<times> stream" where
  "admitSession env apex ts res sv st =
     (let sv1 = re_yield env P_add sv in
      case reg_add (re_quote env) (sv_reg sv1) (rr_label res) (rr_pubkey res) ts of
        Inl e \<Rightarrow> (None, sv1, sendDeny st e)
      | Inr r \<Rightarrow>
          (let sv2 = sv1\<lparr>sv_reg := r\<rparr>;
               (e, st1) = WriteMessage st KindRegisterOK (MRegisterOK \<lparr>rok_Hostname = rr_label res @ ''.'' @ apex\<rparr>)
           in (Some (e = None), sv2, st1)))"

text \<open>The deferred \<open>reg.remove\<close>, after the session has closed.\<close>

definition dropSession :: "'c reg_env \<Rightarrow> session \<Rightarrow> registerResult \<Rightarrow> 'c server \<Rightarrow> 'c server" where
  "dropSession env ts res sv =
     (let sv1 = re_yield env P_remove sv
      in sv1\<lparr>sv_reg := reg_remove (sv_reg sv1) (rr_label res) (rr_pubkey res) ts\<rparr>)"

definition serveSession ::
  "'c reg_env \<Rightarrow> (nat \<Rightarrow> 'c reg_env) \<Rightarrow> string \<Rightarrow> session \<Rightarrow> registerResult \<Rightarrow> 'c server \<Rightarrow> stream
     \<Rightarrow> conn_out \<times> 'c server \<times> stream" where
  "serveSession env envs apex ts res sv st =
     (case admitSession env apex ts res sv st of
        (None, sv1, st1) \<Rightarrow> (Refused, sv1, st1)
      | (Some False, sv1, st1) \<Rightarrow> (Dropped, dropSession env ts res sv1, st1)
      | (Some True, sv1, st1) \<Rightarrow>
          (let (deregistered, sv2, st2) = runControlLoop envs 0 (rr_unique res) (rr_pubkey res) sv1 st1
           in (Served deregistered, dropSession env ts res sv2, st2)))"

definition connectHandler ::
  "'c reg_env \<Rightarrow> (nat \<Rightarrow> 'c reg_env) \<Rightarrow> conn_env \<Rightarrow> string \<Rightarrow> session \<Rightarrow> http_req \<Rightarrow> 'c server \<Rightarrow> stream
     \<Rightarrow> conn_out \<times> 'c server \<times> stream" where
  "connectHandler env envs ce apex ts r sv st =
     (if q_Method r \<noteq> ''POST'' then (HttpError 405 ''POST required'', sv, st)
      else if \<not> EqualFold (q_Connection r) ''upgrade'' then (HttpError 400 ''Connection: Upgrade required'', sv, st)
      else if \<not> EqualFold (q_Upgrade r) UpgradeProtocol
      then (HttpError 400 (''Upgrade: '' @ UpgradeProtocol @ '' required''), sv, st)
      else if \<not> ce_hijacker ce then (HttpError 500 ''hijack not supported'', sv, st)
      else if \<not> (ce_hijack ce \<and> ce_deadline ce \<and> ce_write101 ce \<and> ce_flush ce \<and> ce_yamux ce \<and> ce_accept ce
                 \<and> ce_clear ce \<and> ce_readDeadline ce) then (Dropped, sv, st)
      else
        (case handleRegister env (peerCertPub r) (ce_remote ce) sv st of
           (None, sv1, st1) \<Rightarrow> (Refused, sv1, st1)
         | (Some res, sv1, st1) \<Rightarrow> serveSession env envs apex ts res sv1 st1))"

section \<open>Specification\<close>

definition dereg_signed :: "'c reg_env \<Rightarrow> string \<Rightarrow> bytes \<Rightarrow> bool" where
  "dereg_signed env u k \<longleftrightarrow>
     (\<exists>ts sig. \<not> clockSkewed (re_now env P_now) ts \<and> length sig = SignatureSize
        \<and> re_verify env k (DeregisterSigningPayload u ts) sig)"

definition only_at :: "session \<Rightarrow> (string \<times> bytes) set \<Rightarrow> registry \<Rightarrow> bool" where
  "only_at ts L r \<longleftrightarrow> (\<forall>l. map_of (reg_sessions r) l = Some ts \<longrightarrow> l \<in> fst ` L) \<and> (\<forall>k l. by_key r k l = Some ts \<longrightarrow> (l, k) \<in> L)"

definition others_leave :: "session \<Rightarrow> 'c reg_env \<Rightarrow> bool" where
  "others_leave ts env \<longleftrightarrow>
     (\<forall>p s. (\<forall>l. map_of (reg_sessions (sv_reg (re_yield env p s))) l = Some ts \<longrightarrow> map_of (reg_sessions (sv_reg s)) l = Some ts)
          \<and> (\<forall>k l. by_key (sv_reg (re_yield env p s)) k l = Some ts \<longrightarrow> by_key (sv_reg s) k l = Some ts))"

definition keeps :: "'c reg_env \<Rightarrow> (registry \<Rightarrow> bool) \<Rightarrow> bool" where
  "keeps env Q \<longleftrightarrow> (\<forall>p s. Q (sv_reg s) \<longrightarrow> Q (sv_reg (re_yield env p s)))"

section \<open>Sample runs\<close>

text \<open>The operator empties the allowlist while the handler is obtaining the certificate.\<close>

definition revoke_env :: "nat reg_env" where
  "revoke_env = (demo_env_reg (1700000000 * Second))\<lparr>re_yield := (\<lambda>p s.
     if p = P_put then s\<lparr>sv_allow := Some \<lparr>as_keys = [], as_files = 0, as_dir = ''/etc/allow''\<rparr>\<rparr> else s)\<rparr>"

definition revoke_server :: "nat server" where
  "revoke_server = demo_server\<lparr>sv_allow := Some \<lparr>as_keys = [(demo_pub, ())], as_files = 1, as_dir = ''/etc/allow''\<rparr>\<rparr>"

definition demo_dereg :: Deregister where
  "demo_dereg = \<lparr>dr_Unique = ''app'', dr_Timestamp = 1700000000, dr_Sig = EncodeToString demo_sig\<rparr>"

definition demo_req :: http_req where
  "demo_req = \<lparr>q_Method = ''POST'', q_Connection = ''Upgrade'', q_Upgrade = UpgradeProtocol, q_PeerCerts = None\<rparr>"

definition demo_conn :: conn_env where
  "demo_conn = \<lparr>ce_hijacker = True, ce_hijack = True, ce_deadline = True, ce_write101 = True, ce_flush = True, ce_yamux = True,
     ce_accept = True, ce_clear = True, ce_readDeadline = True, ce_remote = ''10.0.0.1:5555''\<rparr>"

lemma handleDeregister_cases:
  assumes "handleDeregister env f u k sv st = (ok, sv', st')"
  shows "if ok then dereg_signed env u k
           \<and> (\<exists>s. Store_Delete (re_fault env P_delete) (sv_store (re_yield env P_delete sv)) u = (None, s)
                \<and> sv' = (re_yield env P_delete sv)\<lparr>sv_store := s\<rparr>)
         else sv' = sv \<or> sv' = re_yield env P_delete sv"
  using assms
  by (auto simp: handleDeregister_def dereg_signed_def Let_def split: sum.splits option.splits if_splits prod.splits
      dest: ids.del_err)

lemma handleDeregister_owner:
  assumes "others_keep env v" "handleDeregister env f u k sv st = (ok, sv', st')"
  shows "owner_of (sv_store sv') v = (if ok \<and> u = v then None else owner_of (sv_store sv) v)"
proof -
  have y: "owner_of (sv_store (re_yield env P_delete sv)) v = owner_of (sv_store sv) v"
    using assms(1) by (rule others_keepD)
  show ?thesis
  proof (cases ok)
    case True
    then obtain s where "Store_Delete (re_fault env P_delete) (sv_store (re_yield env P_delete sv)) u = (None, s)"
      "sv_store sv' = s" using handleDeregister_cases [OF assms(2)] by auto
    then show ?thesis using ids.del_ok y True by fastforce
  next
    case False
    then show ?thesis using handleDeregister_cases [OF assms(2)] y by auto
  qed
qed

lemma runControlLoop_safe:
  assumes "\<forall>n. others_keep (envs n) v" "runControlLoop envs n u k sv st = (d, sv', st')"
  shows "owner_of (sv_store sv') v = (if d \<and> u = v then None else owner_of (sv_store sv) v)
    \<and> (d \<longrightarrow> (\<exists>m. dereg_signed (envs m) u k)) \<and> (\<not> d \<longrightarrow> (\<exists>w e. ReadFrame w = (Inl e, st')))"
  using assms
proof (induction envs n u k sv st rule: runControlLoop.induct)
  case (1 envs n u k sv st)
  note r = runControlLoop.simps [of envs n u k sv st]
  show ?case
  proof (cases "ReadFrame st")
    case (Pair res st1)
    show ?thesis
    proof (cases res)
      case (Inl e)
      then show ?thesis using "1.prems" Pair r by auto
    next
      case (Inr f)
      show ?thesis
      proof (cases "f_Type f = KindDeregister")
        case False
        then show ?thesis using "1.prems" "1.IH"(2) [OF Pair [symmetric] Inr False "1.prems"(1)] Pair Inr r by simp
      next
        case True
        obtain ok sv1 st2 where H: "handleDeregister (envs n) f u k sv st1 = (ok, sv1, st2)" using prod_cases3 by blast
        have o: "owner_of (sv_store sv1) v = (if ok \<and> u = v then None else owner_of (sv_store sv) v)"
          using handleDeregister_owner [OF _ H] "1.prems"(1) by blast
        show ?thesis
        proof (cases ok)
          case True
          then have "d" "sv' = sv1" using "1.prems"(2) Pair Inr \<open>f_Type f = KindDeregister\<close> H r by auto
          then show ?thesis using o True handleDeregister_cases [OF H] by auto
        next
          case F: False
          then have "runControlLoop envs (Suc n) u k sv1 st2 = (d, sv', st')"
            using "1.prems"(2) Pair Inr True H r by simp
          from "1.IH"(1) [OF Pair [symmetric] Inr True H [symmetric] refl F "1.prems"(1) this] o F show ?thesis by auto
        qed
      qed
    qed
  qed
qed
lemma others_leave_keeps: "others_leave ts env \<Longrightarrow> keeps env (only_at ts L)"
  by (auto simp: others_leave_def keeps_def only_at_def)

lemma keepsD: "keeps env Q \<Longrightarrow> Q (sv_reg s) \<Longrightarrow> Q (sv_reg (re_yield env p s))"
  by (simp add: keeps_def)

lemma refundRegister_reg [simp]: "sv_reg (refundRegister k p sv) = sv_reg sv"
  by (simp add: refundRegister_def)

lemma try_refund_reg: "try_refund env k sv = (ok, sv') \<Longrightarrow> sv_reg sv' = sv_reg (re_yield env P_refund sv)"
  by (auto simp: try_refund_def Let_def split: prod.splits)

lemma claimName_keeps:
  assumes "keeps env Q"
  shows "claimName env reg pub sv st = (r, sv', st') \<Longrightarrow> Q (sv_reg sv) \<Longrightarrow> Q (sv_reg sv')"
  using keepsD [OF assms]
  by (auto simp: claimName_def Let_def denied_def split: prod.splits option.splits store_err.splits sum.splits if_splits)

lemma issueName_keeps:
  assumes "keeps env Q"
  shows "issueName env key reg pub sv st = (r, sv', st') \<Longrightarrow> Q (sv_reg sv) \<Longrightarrow> Q (sv_reg sv')"
  by (auto simp: issueName_def Let_def denied_def keepsD [OF assms] split: prod.splits option.splits if_splits
      dest!: try_refund_reg intro: claimName_keeps [OF assms])

lemma registerNew_keeps:
  assumes "keeps env Q"
  shows "registerNew env key reg pub sv st = (r, sv', st') \<Longrightarrow> Q (sv_reg sv) \<Longrightarrow> Q (sv_reg sv')"
  by (auto simp: registerNew_def Let_def keepsD [OF assms] split: prod.splits if_splits
      dest!: try_refund_reg intro: issueName_keeps [OF assms])

lemma registerReclaim_keeps:
  assumes "keeps env Q"
  shows "registerReclaim env reg pub x sv st = (r, sv', st') \<Longrightarrow> Q (sv_reg sv) \<Longrightarrow> Q (sv_reg sv')"
  by (auto simp: registerReclaim_def Let_def denied_def keepsD [OF assms]
      split: prod.splits option.splits sum.splits if_splits)

lemma registerLookup_keeps:
  assumes "keeps env Q"
  shows "registerLookup env key reg pub sv st = (r, sv', st') \<Longrightarrow> Q (sv_reg sv) \<Longrightarrow> Q (sv_reg sv')"
  by (auto simp: registerLookup_def Let_def denied_def keepsD [OF assms]
      split: prod.splits option.splits sum.splits if_splits store_err.splits
      intro: registerNew_keeps [OF assms] registerReclaim_keeps [OF assms])

lemma handleRegister_keeps:
  assumes "keeps env Q"
  shows "handleRegister env peer addr sv st = (r, sv', st') \<Longrightarrow> Q (sv_reg sv) \<Longrightarrow> Q (sv_reg sv')"
  by (auto simp: handleRegister_def registerAdmit_def registerVerify_def Let_def denied_def keepsD [OF assms]
      split: prod.splits option.splits sum.splits if_splits
      dest!: try_refund_reg intro: registerLookup_keeps [OF assms])

lemma handleDeregister_keeps:
  assumes "keeps env Q"
  shows "handleDeregister env f u k sv st = (ok, sv', st') \<Longrightarrow> Q (sv_reg sv) \<Longrightarrow> Q (sv_reg sv')"
  by (auto simp: handleDeregister_def Let_def keepsD [OF assms] split: prod.splits option.splits sum.splits if_splits)

lemma runControlLoop_keeps:
  assumes "\<forall>n. keeps (envs n) Q"
  shows "runControlLoop envs n u k sv st = (d, sv', st') \<Longrightarrow> Q (sv_reg sv) \<Longrightarrow> Q (sv_reg sv')"
  using assms
proof (induction envs n u k sv st rule: runControlLoop.induct)
  case (1 envs n u k sv st)
  note r = runControlLoop.simps [of envs n u k sv st]
  have K: "keeps (envs n) Q" using "1.prems" by blast
  show ?case
  proof (cases "ReadFrame st")
    case (Pair res st1)
    show ?thesis
    proof (cases res)
      case (Inl e)
      then show ?thesis using "1.prems" Pair r by simp
    next
      case (Inr f)
      obtain ok sv1 st2 where H: "handleDeregister (envs n) f u k sv st1 = (ok, sv1, st2)" using prod_cases3 by blast
      show ?thesis
        using "1.prems" "1.IH"(2) [OF Pair [symmetric] Inr] "1.IH"(1) [OF Pair [symmetric] Inr _ H [symmetric] refl]
          handleDeregister_keeps [OF K H] Pair Inr H r
        by (auto split: if_splits)
    qed
  qed
qed

lemma handleRegister_keylen: "handleRegister env peer addr sv st = (Some res, sv', st') \<Longrightarrow> length (rr_pubkey res) = 32"
  by (erule handleRegister_accepts) (auto dest!: registerLookup_accepts simp: PublicKeySize_def)

lemma only_at_add:
  assumes "reg_add quote r label pub ts = Inr r'" "length pub = 32" "only_at ts {} r"
  shows "only_at ts {(label, pub)} r'"
  using assms(3) reg_add_sessions [OF assms(1)] reg_add_by_key [OF assms(1,2)]
  by (auto simp: only_at_def split: if_splits)

lemma only_at_remove:
  assumes "only_at ts {(label, pub)} r" "length pub = 32"
  shows "only_at ts {} (reg_remove r label pub ts)"
  using assms by (auto simp: only_at_def reg_remove_sessions reg_remove_by_key split: if_splits)

lemma frame_bytes_Deregister_small:
  assumes "length (dr_Unique d) \<le> 200" "length (dr_Sig d) \<le> 200" "int64 (dr_Timestamp d)"
  shows "length (frame_bytes (MDeregister d)) \<le> MaxFrameBytes + 4"
  using assms(1,2) length_json_string [of "dr_Unique d"] length_json_string [of "dr_Sig d"] length_Itoa [OF assms(3)]
  by (simp add: frame_bytes_def json_object_def json_member_def KindDeregister_def MaxFrameBytes_def
      json_string_def json_esc_ascii json_esc_Nil json_ascii_def)


text \<open>
  C9: a connection leaves nothing behind.  Let \<open>ts\<close> be the handler's session, and let the other goroutines do
  anything to the shared state except registering \<open>ts\<close> (the address is the handler's own).  However the
  connection ends (HTTP error, failed upgrade, denied registration, label already connected, failed
  reply, hang-up, deregistration), neither map of the registry holds \<open>ts\<close> when the handler returns.
\<close>

theorem connect_cleans_up:
  assumes "others_leave ts env" "\<forall>n. others_leave ts (envs n)"
    "\<forall>l. map_of (reg_sessions (sv_reg sv)) l \<noteq> Some ts" "\<forall>k l. by_key (sv_reg sv) k l \<noteq> Some ts"
    "connectHandler env envs ce apex ts r sv st = (out, sv', st')"
  shows "(\<forall>l. reg_get (sv_reg sv') l \<noteq> Some ts) \<and> (\<forall>k l. by_key (sv_reg sv') k l \<noteq> Some ts)"
proof -
  note K = others_leave_keeps [OF assms(1)]
  have Ks: "\<forall>n. keeps (envs n) (only_at ts L)" for L using assms(2) others_leave_keeps by blast
  have 0: "only_at ts {} (sv_reg sv)" using assms(3,4) by (simp add: only_at_def)
  have "only_at ts {} (sv_reg sv')"
  proof (cases "\<exists>res sv1 st1. handleRegister env (peerCertPub r) (ce_remote ce) sv st = (Some res, sv1, st1)
      \<and> serveSession env envs apex ts res sv1 st1 = (out, sv', st')")
    case False
    then show ?thesis
      using assms(5) 0 handleRegister_keeps [OF K]
      by (auto simp: connectHandler_def split: if_splits option.splits prod.splits)
  next
    case True
    then obtain res sv1 st1 where H: "handleRegister env (peerCertPub r) (ce_remote ce) sv st = (Some res, sv1, st1)"
      and S: "serveSession env envs apex ts res sv1 st1 = (out, sv', st')" by blast
    have 1: "only_at ts {} (sv_reg (re_yield env P_add sv1))"
      using handleRegister_keeps [OF K H 0] keepsD [OF K] by blast
    note len = handleRegister_keylen [OF H]
    let ?L = "{(rr_label res, rr_pubkey res)}"
    have drop: "only_at ts {} (sv_reg (dropSession env ts res s))" if "only_at ts ?L (sv_reg s)" for s
      using only_at_remove [OF keepsD [OF K that] len] by (simp add: dropSession_def Let_def)
    show ?thesis
    proof (cases "reg_add (re_quote env) (sv_reg (re_yield env P_add sv1)) (rr_label res) (rr_pubkey res) ts")
      case (Inl e)
      then show ?thesis using S 1 by (simp add: serveSession_def admitSession_def)
    next
      case (Inr r')
      obtain e st2 where W: "WriteMessage st1 KindRegisterOK (MRegisterOK \<lparr>rok_Hostname = rr_label res @ ''.'' @ apex\<rparr>) = (e, st2)" by fastforce
      let ?sv2 = "(re_yield env P_add sv1)\<lparr>sv_reg := r'\<rparr>"
      obtain d sv3 st3 where R: "runControlLoop envs 0 (rr_unique res) (rr_pubkey res) ?sv2 st2 = (d, sv3, st3)" using prod_cases3 by blast
      have 2: "only_at ts ?L (sv_reg ?sv2)" using only_at_add [OF Inr len 1] by simp
      have "only_at ts ?L (sv_reg sv3)" using runControlLoop_keeps [OF Ks R 2] .
      with 2 drop S Inr W R show ?thesis by (cases "e = None") (auto simp: serveSession_def admitSession_def)
    qed
  qed
  then show ?thesis by (simp add: only_at_def reg_get_def)
qed

theorem connect_cleans_up_witness:
  "\<exists>out sv' st'. connectHandler (demo_env_reg (1700000000 * Second)) (\<lambda>_. demo_env_reg (1700000000 * Second)) demo_conn ''ex.com'' 7
       demo_req demo_server demo_stream = (out, sv', st') \<and> reg_get (sv_reg sv') ''app-tunnel'' \<noteq> Some 7"
proof -
  let ?env = "demo_env_reg (1700000000 * Second)"
  obtain out sv' st' where C: "connectHandler ?env (\<lambda>_. ?env) demo_conn ''ex.com'' 7 demo_req demo_server demo_stream = (out, sv', st')"
    using prod_cases3 by blast
  have o: "others_leave 7 ?env" by (simp add: others_leave_def demo_env_reg_def)
  from connect_cleans_up [OF o _ _ _ C] o C show ?thesis by (simp add: demo_server_def newRegistry_def by_key_def)
qed

text \<open>
  C28: a revocation can miss a session.  The allowlist is consulted before the grace window and the issuance
  of the certificate, the session is entered into the registry after them.  If a reload drops the key in
  between, the \<open>RevokeMissing\<close> of that reload cannot see the session, and it becomes live under a
  key the current allowlist refuses; only a further reload would close it.
\<close>

theorem revoked_key_connects:
  assumes "handleRegister env peer addr sv st = (Some res, sv1, st1)"
    "sv_allow (re_yield env P_add sv1) = Some a" "\<not> Allow_Contains a (rr_pubkey res)"
    "reg_get (sv_reg (re_yield env P_add sv1)) (rr_label res) = None" "maps_wf (sv_reg (re_yield env P_add sv1))"
    "\<forall>k. by_key (sv_reg (re_yield env P_add sv1)) k (rr_label res) = None"
  shows "(\<forall>fp t. (rr_label res, fp, t) \<notin> set (RevokeMissing sha (Some a) (sv_reg (re_yield env P_add sv1))))
    \<and> (\<exists>ok sv2 st2. admitSession env apex ts res sv1 st1 = (Some ok, sv2, st2) \<and> sv_allow sv2 = Some a
         \<and> reg_get (sv_reg sv2) (rr_label res) = Some ts
         \<and> (rr_label res, fingerprint sha (rr_pubkey res), ts) \<in> set (RevokeMissing sha (sv_allow sv2) (sv_reg sv2)))"
proof
  let ?r = "sv_reg (re_yield env P_add sv1)"
  note len = handleRegister_keylen [OF assms(1)]
  show "\<forall>fp t. (rr_label res, fp, t) \<notin> set (RevokeMissing sha (Some a) ?r)"
    using RevokeMissing_mem [OF assms(5)] assms(6) by simp
  obtain r' where A: "reg_add (re_quote env) ?r (rr_label res) (rr_pubkey res) ts = Inr r'"
    using assms(4) by (auto simp: reg_add_def reg_get_def Let_def)
  obtain e st2 where W: "WriteMessage st1 KindRegisterOK (MRegisterOK \<lparr>rok_Hostname = rr_label res @ ''.'' @ apex\<rparr>) = (e, st2)" by fastforce
  show "\<exists>ok sv2 st2. admitSession env apex ts res sv1 st1 = (Some ok, sv2, st2) \<and> sv_allow sv2 = Some a
         \<and> reg_get (sv_reg sv2) (rr_label res) = Some ts
         \<and> (rr_label res, fingerprint sha (rr_pubkey res), ts) \<in> set (RevokeMissing sha (sv_allow sv2) (sv_reg sv2))"
    using A W assms(2,3) reg_add_sessions [OF A] reg_add_by_key [OF A len, of "rr_pubkey res" "rr_label res"]
      RevokeMissing_mem [OF reg_add_wf [OF A assms(5)], of "rr_label res" "fingerprint sha (rr_pubkey res)" ts sha a]
    by (auto simp: admitSession_def reg_get_def)
qed


lemma revoke_run:
  "\<exists>res sv' st'. handleRegister revoke_env None ''10.0.0.1:5555'' revoke_server demo_stream = (Some res, sv', st')
      \<and> rr_label res = ''app-tunnel'' \<and> rr_pubkey res = demo_pub
      \<and> sv_allow sv' = Some \<lparr>as_keys = [], as_files = 0, as_dir = ''/etc/allow''\<rparr> \<and> sv_reg sv' = newRegistry"
proof -
  have i: "int64 1700000000" by simp
  have e: "re_quote revoke_env = id" "re_now revoke_env p = 1700000000 * Second" "re_verify revoke_env k m demo_sig"
    "re_rnd revoke_env p = 0" "re_yield revoke_env P_ip s = s" "re_yield revoke_env P_allow s = s"
    "re_yield revoke_env P_get s = s" "re_yield revoke_env P_pub s = s" "re_yield revoke_env P_ensure s = s"
    "re_fault revoke_env p = None" "re_gone revoke_env = False" "re_ensure revoke_env c l = (None, Suc c)"
    "re_yield revoke_env P_put s = s\<lparr>sv_allow := Some \<lparr>as_keys = [], as_files = 0, as_dir = ''/etc/allow''\<rparr>\<rparr>"
    for p k m s c l by (simp_all add: revoke_env_def demo_env_reg_def demo_sig_def)
  have s: "sv_ip revoke_server = sv_ip demo_server" "sv_pub revoke_server = sv_pub demo_server" "sv_store revoke_server = []"
    "sv_reg revoke_server = newRegistry"
    "sv_allow revoke_server = Some \<lparr>as_keys = [(demo_pub, ())], as_files = 1, as_dir = ''/etc/allow''\<rparr>"
    by (simp_all add: revoke_server_def demo_server_def)
  obtain l where l: "lim_Allow 0 (1700000000 * Second) (sv_ip demo_server) (ip_key ''10.0.0.1:5555'') = (True, l)"
    using demo_facts(9) [of 0 "1700000000 * Second" "ip_key ''10.0.0.1:5555''"] by (metis prod.collapse)
  obtain l' where l': "lim_Allow 0 (1700000000 * Second) (sv_pub demo_server) demo_pub = (True, l')"
    using demo_facts(10) [of 0 "1700000000 * Second" demo_pub] by (metis prod.collapse)
  have u: "ValidateUnique (re_quote revoke_env) ''app'' = None" using demo_facts(2) [of 0] e(1) by (simp add: demo_env_reg_def)
  have c: "\<not> clockSkewed (re_now revoke_env P_now) 1700000000" using demo_facts(5) e(2) by (simp add: demo_env_reg_def)
  have k: "Allow_Contains \<lparr>as_keys = [(demo_pub, ())], as_files = 1, as_dir = ''/etc/allow''\<rparr> demo_pub"
    by (simp add: Allow_Contains_def demo_pub_def key32_def)
  note h = handleRegister_honest [OF demo_facts(8) u demo_facts(3,4) i c e(3)]
  show ?thesis
    using h [of None revoke_server "''10.0.0.1:5555''" l] l l' k demo_facts(3)
    by (simp add: e s registerLookup_def registerNew_def issueName_def claimName_def Store_Get_def Store_Put_def
        register_msg_def result_of_def TunnelLabel_def PublicKeySize_def)
qed

theorem revoked_key_connects_witness:
  "\<exists>res sv1 st1 sv2 st2 ok. handleRegister revoke_env None ''10.0.0.1:5555'' revoke_server demo_stream = (Some res, sv1, st1)
     \<and> admitSession revoke_env ''ex.com'' 7 res sv1 st1 = (Some ok, sv2, st2)
     \<and> reg_get (sv_reg sv2) ''app-tunnel'' = Some 7 \<and> (\<exists>a. sv_allow sv2 = Some a \<and> \<not> Allow_Contains a demo_pub)"
proof -
  let ?a = "\<lparr>as_keys = [], as_files = 0, as_dir = ''/etc/allow''\<rparr>"
  obtain res sv1 st1 where R: "handleRegister revoke_env None ''10.0.0.1:5555'' revoke_server demo_stream = (Some res, sv1, st1)"
    and r: "rr_label res = ''app-tunnel''" "rr_pubkey res = demo_pub" "sv_allow sv1 = Some ?a" "sv_reg sv1 = newRegistry"
    using revoke_run by blast
  have y: "re_yield revoke_env P_add sv1 = sv1" by (simp add: revoke_env_def demo_env_reg_def)
  have n: "\<not> Allow_Contains ?a demo_pub" by (simp add: Allow_Contains_def)
  have m: "maps_wf newRegistry" "reg_get newRegistry l = None" "by_key newRegistry k l = None" for k l
    by (simp_all add: newRegistry_def maps_wf_def reg_get_def by_key_def)
  from revoked_key_connects [OF R, unfolded y r, OF refl n, where sha = id and ts = 7 and apex = "''ex.com''"] m n R show ?thesis by metis
qed

end
