(* ===== verification/Cert_Ensurer.thy ===== *)
theory Cert_Ensurer
  imports Register
begin

text \<open>
  The interface \<open>certEnsurer\<close> through which \<open>handleRegister\<close> obtains certificates, as a locale, and its
  two implementations: the ACME manager (\<open>internal/cert/manager.go\<close>) and the pre-provisioned
  loader (\<open>internal/cert/static.go\<close>).
\<close>

section \<open>The interface\<close>

text \<open>
  \<open>ready c label\<close>: the table holds a certificate that was found or obtained for the label.  A call that
  succeeds makes the label ready, a call that fails changes nothing that is served.
\<close>

locale cert_ensurer =
  fixes ensure :: "'c \<Rightarrow> string \<Rightarrow> goerr option \<times> 'c"
    and ready :: "'c \<Rightarrow> string \<Rightarrow> bool"
    and table :: "'c \<Rightarrow> certStore"
  assumes ensure_ok: "ensure c label = (None, c') \<Longrightarrow> ready c' label"
    and ensure_fail: "ensure c label = (Some e, c') \<Longrightarrow> table c' = table c"
begin

lemma claimName_cert: "alone env \<Longrightarrow> claimName env reg pub sv st = (r, sv', st') \<Longrightarrow> sv_cert sv' = sv_cert sv"
  by (auto simp: claimName_def alone_def Let_def denied_def split: prod.splits option.splits store_err.splits sum.splits if_splits)

lemma try_refund_cert: "alone env \<Longrightarrow> try_refund env k sv = (ok, sv') \<Longrightarrow> sv_cert sv' = sv_cert sv"
  by (auto simp: try_refund_def alone_def split: prod.splits)

lemma refundRegister_cert: "sv_cert (refundRegister k p sv) = sv_cert sv"
  by (simp add: refundRegister_def)

lemma issueName_cert:
  assumes "alone env" "re_ensure env = ensure" "issueName env key reg pub sv st = (r, sv', st')"
  shows "(r \<noteq> None \<longrightarrow> ready (sv_cert sv') (TunnelLabel (r_Unique reg))) \<and> (table (sv_cert sv') = table (sv_cert sv) \<or> ready (sv_cert sv') (TunnelLabel (r_Unique reg)))"
proof -
  obtain e c where E: "ensure (sv_cert sv) (TunnelLabel (r_Unique reg)) = (e, c)" by fastforce
  show ?thesis
    using assms E ensure_ok [of "sv_cert sv" "TunnelLabel (r_Unique reg)" c] ensure_fail [of "sv_cert sv" "TunnelLabel (r_Unique reg)" _ c]
    by (auto simp: issueName_def alone_def Let_def denied_def refundRegister_cert split: prod.splits option.splits if_splits
        dest!: claimName_cert [OF assms(1)] try_refund_cert [OF assms(1)])
qed

lemma registerNew_cert:
  assumes "alone env" "re_ensure env = ensure" "registerNew env key reg pub sv st = (r, sv', st')"
  shows "(r \<noteq> None \<longrightarrow> ready (sv_cert sv') (TunnelLabel (r_Unique reg))) \<and> (table (sv_cert sv') = table (sv_cert sv) \<or> ready (sv_cert sv') (TunnelLabel (r_Unique reg)))"
  using assms(1,3) issueName_cert [OF assms(1,2), of key reg pub _ st r sv' st']
  by (fastforce simp: registerNew_def alone_def Let_def refundRegister_cert split: prod.splits if_splits
      dest!: try_refund_cert [OF assms(1)])

lemma registerLookup_cert:
  assumes "alone env" "re_ensure env = ensure" "registerLookup env key reg pub sv st = (r, sv', st')"
  shows "(\<forall>res. r = Some res \<longrightarrow> rr_newRegistration res \<longrightarrow> ready (sv_cert sv') (rr_label res))
    \<and> (table (sv_cert sv') = table (sv_cert sv) \<or> ready (sv_cert sv') (TunnelLabel (r_Unique reg)))"
proof -
  have y: "re_yield env p s = s" for p s using assms(1) by (simp add: alone_def)
  have rc: "registerReclaim env reg pub x sv st = (r, sv', st') \<Longrightarrow> sv_cert sv' = sv_cert sv
      \<and> (\<forall>res. r = Some res \<longrightarrow> \<not> rr_newRegistration res)" for x
    by (auto simp: registerReclaim_def y Let_def denied_def result_of_def split: prod.splits option.splits sum.splits if_splits)
  have nw: "(\<forall>res. r = Some res \<longrightarrow> rr_newRegistration res \<longrightarrow> ready (sv_cert sv') (rr_label res))
      \<and> (table (sv_cert sv') = table (sv_cert sv) \<or> ready (sv_cert sv') (TunnelLabel (r_Unique reg)))"
    if "registerNew env key reg pub sv st = (r, sv', st')"
    using registerNew_cert [OF assms(1,2) that] registerNew_accepts [of env key reg pub sv st _ sv' st'] that by auto
  show ?thesis
    using assms(3)
    by (auto simp: registerLookup_def y Let_def denied_def result_of_def
        split: prod.splits option.splits sum.splits if_splits store_err.splits dest!: rc nw)
qed

text \<open>A newly registered name has its certificate; the table changes only for a name made ready.\<close>

lemma register_new_ready:
  assumes "alone env" "re_ensure env = ensure" "handleRegister env peer addr sv st = (r, sv', st')"
  shows "(\<forall>res. r = Some res \<longrightarrow> rr_newRegistration res \<longrightarrow> ready (sv_cert sv') (rr_label res))
    \<and> (table (sv_cert sv') = table (sv_cert sv) \<or> (\<exists>u. ready (sv_cert sv') (TunnelLabel u)))"
proof -
  have y: "re_yield env p s = s" for p s using assms(1) by (simp add: alone_def)
  have *: "(\<forall>res. r = Some res \<longrightarrow> rr_newRegistration res \<longrightarrow> ready (sv_cert sv') (rr_label res))
      \<and> (table (sv_cert sv') = table (sv_cert sv) \<or> (\<exists>u. ready (sv_cert sv') (TunnelLabel u)))"
    if "registerLookup env key reg pub (sv\<lparr>sv_ip := l\<rparr>) st1 = (r, sv', st')" for key reg pub l st1
    using registerLookup_cert [OF assms(1,2) that] by auto
  have t: "try_refund env k s = (ok, s') \<Longrightarrow> sv_cert s' = sv_cert s" for k s ok s'
    using try_refund_cert [OF assms(1)] .
  show ?thesis
    using assms(3)
    by (auto simp: handleRegister_def registerAdmit_def registerVerify_def y Let_def denied_def
        split: prod.splits sum.splits option.splits if_splits dest!: t *)
qed

end

section \<open>The ACME manager\<close>

text \<open>
  The base name under which both implementations keep the certificate of a label, and
  \<open>EnsureName\<close> of a call that leads its singleflight group.
\<close>

definition cert_base :: "certStore \<Rightarrow> string \<Rightarrow> string" where
  "cert_base s label = ''_.'' @ label @ ''.'' @ cs_apex s"

definition acme_ready :: "Manager \<Rightarrow> string \<Rightarrow> bool" where
  "acme_ready m label \<longleftrightarrow> map_of (cs_entries (m_store m)) (''_.'' @ label @ ''.'' @ m_Apex m) \<noteq> None"

definition acme_ensure :: "(string \<Rightarrow> string) \<Rightarrow> x509 \<Rightarrow> acme_env \<Rightarrow> Manager \<Rightarrow> string \<Rightarrow> goerr option \<times> Manager" where
  "acme_ensure uni x env m label =
     (case Manager_EnsureName uni x (env\<lparr>ae_joined := None\<rparr>) m label of (e, m', _) \<Rightarrow> (e, m'))"

definition static_ready :: "(string \<Rightarrow> string) \<Rightarrow> certStore \<Rightarrow> string \<Rightarrow> bool" where
  "static_ready uni s label \<longleftrightarrow> cs_has uni s (label @ ''.'' @ cs_apex s) \<or> map_of (cs_entries s) (cert_base s label) \<noteq> None"

definition static_ensure :: "(string \<Rightarrow> string) \<Rightarrow> x509 \<Rightarrow> (string \<Rightarrow> read_result) \<Rightarrow> certStore \<Rightarrow> string \<Rightarrow> goerr option \<times> certStore" where
  "static_ensure uni x rd s label =
     (case Static_EnsureName uni x rd s label of (e, s') \<Rightarrow> (map_option plain_err e, s'))"

definition static_server :: "certStore server" where
  "static_server = \<lparr>sv_reg = newRegistry, sv_store = [],
     sv_cert = addEntry id (newCertStore ''ex.com'') (mk_cert [''ex.com'', ''*.ex.com'']) [] ''_.ex.com'',
     sv_ip = None, sv_pub = None, sv_refund = None, sv_allow = None\<rparr>"

definition static_env :: "certStore reg_env" where
  "static_env = \<lparr>re_verify = (\<lambda>k m s. s = demo_sig), re_quote = id, re_now = (\<lambda>_. 1700000000 * Second),
     re_rnd = (\<lambda>_. 0), re_fault = (\<lambda>_. None), re_yield = (\<lambda>_ s. s), re_nonce = None,
     re_grace = 5 * Second, re_gone = False, re_ensure = static_ensure id demo_x509 (\<lambda>_. NotExist)\<rparr>"

lemma issue_ok_ready:
  "issue uni x env m sans b = (None, m', os) \<Longrightarrow> map_of (cs_entries (m_store m')) b \<noteq> None \<and> m_Apex m' = m_Apex m"
  by (auto simp: issue_def addEntry_entries Let_def split: sum.splits if_splits option.splits prod.splits)

lemma issue_fail_store: "issue uni x env m sans b = (Some e, m', os) \<Longrightarrow> m_store m' = m_store m"
  by (auto simp: issue_def Let_def split: sum.splits if_splits option.splits prod.splits)

interpretation acme: cert_ensurer "acme_ensure uni x env" acme_ready m_store for uni x env
proof
  fix m m' label
  assume "acme_ensure uni x env m label = (None, m')"
  then show "acme_ready m' label"
    by (auto simp: acme_ensure_def acme_ready_def Manager_EnsureName_def ensureSANs_def addEntry_entries Let_def
        split: if_splits sum.splits prod.splits dest!: issue_ok_ready)
next
  fix m m' label e
  assume "acme_ensure uni x env m label = (Some e, m')"
  then show "m_store m' = m_store m"
    by (auto simp: acme_ensure_def Manager_EnsureName_def ensureSANs_def Let_def
        split: if_splits sum.splits prod.splits dest!: issue_fail_store)
qed

interpretation static: cert_ensurer "static_ensure uni x rd" "static_ready uni" id for uni x rd
proof
  fix s s' label
  assume "static_ensure uni x rd s label = (None, s')"
  then show "static_ready uni s' label"
    by (auto simp: static_ensure_def static_ready_def Static_EnsureName_def cert_base_def addEntry_entries Let_def
        split: if_splits sum.splits option.splits prod.splits)
next
  fix s s' label e
  assume "static_ensure uni x rd s label = (Some e, s')"
  then show "id s' = id s"
    by (auto simp: static_ensure_def Static_EnsureName_def Let_def split: if_splits sum.splits option.splits prod.splits)
qed

section \<open>Properties\<close>

text \<open>
  No name without a certificate.  With either implementation behind the interface, a name that
  \<open>handleRegister\<close> newly registers has its certificate in the table: under the name's conventional base
  name with the ACME manager; there, or by another loaded certificate that covers it, with the
  pre-provisioned loader.
\<close>

theorem register_new_has_cert:
  "(\<forall>env peer addr sv st res sv' st'.
      alone env \<longrightarrow> re_ensure env = acme_ensure uni x ae \<longrightarrow>
      handleRegister env peer addr sv st = (Some res, sv', st') \<longrightarrow> rr_newRegistration res \<longrightarrow>
      map_of (cs_entries (m_store (sv_cert sv'))) (''_.'' @ rr_label res @ ''.'' @ m_Apex (sv_cert sv')) \<noteq> None)
 \<and> (\<forall>env peer addr sv st res sv' st'.
      alone env \<longrightarrow> re_ensure env = static_ensure uni x rd \<longrightarrow>
      handleRegister env peer addr sv st = (Some res, sv', st') \<longrightarrow> rr_newRegistration res \<longrightarrow>
      cs_has uni (sv_cert sv') (rr_label res @ ''.'' @ cs_apex (sv_cert sv'))
        \<or> map_of (cs_entries (sv_cert sv')) (''_.'' @ rr_label res @ ''.'' @ cs_apex (sv_cert sv')) \<noteq> None)"
proof (intro conjI allI impI, goal_cases)
  case (1 env peer addr sv st res sv' st')
  then show ?case using acme.register_new_ready [of env uni x ae peer addr sv st] by (auto simp: acme_ready_def)
next
  case (2 env peer addr sv st res sv' st')
  then show ?case
    using static.register_new_ready [of env uni x rd peer addr sv st] by (auto simp: static_ready_def cert_base_def)
qed

theorem register_new_has_cert_witness:
  "\<exists>res sv' st'. handleRegister static_env None ''10.0.0.1:5555'' static_server demo_stream = (Some res, sv', st') \<and> rr_newRegistration res
     \<and> (cs_has id (sv_cert sv') (rr_label res @ ''.'' @ cs_apex (sv_cert sv'))
        \<or> map_of (cs_entries (sv_cert sv')) (''_.'' @ rr_label res @ ''.'' @ cs_apex (sv_cert sv')) \<noteq> None)"
proof -
  have i: "int64 1700000000" by simp
  have q: "quiet static_env" "alone static_env" "re_ensure static_env = static_ensure id demo_x509 (\<lambda>_. NotExist)"
    by (simp_all add: quiet_def alone_def static_env_def)
  have u: "ValidateUnique (re_quote static_env) ''app'' = None" using demo_facts(2) [of 0] by (simp add: static_env_def demo_env_reg_def)
  have c: "\<not> clockSkewed (re_now static_env P_now) 1700000000" using demo_facts(5) by (simp add: static_env_def demo_env_reg_def)
  have v: "re_verify static_env demo_pub m demo_sig" for m by (simp add: static_env_def)
  have h: "fst (static_ensure id demo_x509 (\<lambda>_. NotExist) (sv_cert static_server) ''app-tunnel'') = None" by code_simp
  have "\<exists>sv'. handleRegister static_env None ''10.0.0.1:5555'' static_server demo_stream
      = (Some (result_of (register_msg demo_pub demo_sig ''app'' 1700000000) True demo_pub), sv', demo_stream\<lparr>s_in := []\<rparr>)
      \<and> owner_of (sv_store sv') = (owner_of (sv_store static_server))(''app'' \<mapsto> demo_pub)"
    by (rule register_free [OF q(1) demo_facts(8) u demo_facts(3,4) i c v])
      (use h in \<open>simp_all add: static_server_def lim_Allow_def owner_of_def static_env_def TunnelLabel_def\<close>)
  then obtain sv' st' where R: "handleRegister static_env None ''10.0.0.1:5555'' static_server demo_stream
      = (Some (result_of (register_msg demo_pub demo_sig ''app'' 1700000000) True demo_pub), sv', st')" by blast
  have n: "rr_newRegistration (result_of (register_msg demo_pub demo_sig ''app'' 1700000000) True demo_pub)" by (simp add: result_of_def)
  from register_new_has_cert [THEN conjunct2, rule_format, OF q(2,3) R n] R n show ?thesis by blast
qed

end
