(* ===== verification/Router.thy ===== *)
theory Router
  imports Port_Policy Registry Control Cert_Store Register
begin

text \<open>
  The public side of the server (\<open>route\<close>, \<open>injectClientIdentityHeaders\<close>, \<open>tunnelOffline\<close>,
  \<open>normalizeHost\<close> and the \<open>Rewrite\<close> of \<open>newSessionProxy\<close> in \<open>cmd/swe-swe-tunneld/tunnel.go\<close>) and the
  other end of the tunnel (\<open>PortDispatchHandler\<close> and \<open>portFromHost\<close> in
  \<open>internal/tunnelclient/client.go\<close>).

  A request is its host, its headers and what TLS says about the peer.  Of the reverse proxies
  (\<open>httputil.ReverseProxy\<close> with \<open>Rewrite\<close>) the model has what they do to the request headers: the headers
  named by \<open>Connection\<close> and the fixed hop-by-hop headers are removed, \<open>Te: trailers\<close> and an upgrade are put back, the forwarding headers are
  removed, and \<open>Rewrite\<close> runs.  Of the transport into the tunnel it has that each request has a connection of its own.
\<close>

section \<open>Headers\<close>

type_synonym headers = "(string, string list) gomap"

text \<open>\<open>textproto.CanonicalMIMEHeaderKey\<close> of a token: upper case at the start and after a hyphen.\<close>

definition ascii_upper :: "char \<Rightarrow> char" where
  "ascii_upper c =
     (if 97 \<le> (of_char c :: nat) \<and> (of_char c :: nat) \<le> 122
      then char_of (of_char c - 32 :: nat) else c)"

fun canon_from :: "bool \<Rightarrow> string \<Rightarrow> string" where
  "canon_from up [] = []"
| "canon_from up (c # cs) = (if up then ascii_upper c else ascii_lower c) # canon_from (c = CHR ''-'') cs"

definition header_token :: "char \<Rightarrow> bool" where
  "header_token c \<longleftrightarrow>
     (let n = of_char c :: nat in 48 \<le> n \<and> n \<le> 57 \<or> 65 \<le> n \<and> n \<le> 90 \<or> 97 \<le> n \<and> n \<le> 122)
     \<or> c \<in> set [CHR 0x21, CHR 0x23, CHR 0x24, CHR 0x25, CHR 0x26, CHR 0x27, CHR 0x2A, CHR 0x2B, CHR 0x2D, CHR 0x2E,
                CHR 0x5E, CHR 0x5F, CHR 0x60, CHR 0x7C, CHR 0x7E]"

definition CanonicalKey :: "string \<Rightarrow> string" where
  "CanonicalKey k = (if list_all header_token k then canon_from True k else k)"

definition Header_Del :: "headers \<Rightarrow> string \<Rightarrow> headers" where
  "Header_Del h k = AList.delete (CanonicalKey k) h"

definition Header_Set :: "headers \<Rightarrow> string \<Rightarrow> string \<Rightarrow> headers" where
  "Header_Set h k v = AList.update (CanonicalKey k) [v] h"

definition Header_Get :: "headers \<Rightarrow> string \<Rightarrow> string" where
  "Header_Get h k = (case map_of h (CanonicalKey k) of Some (v # _) \<Rightarrow> v | _ \<Rightarrow> [])"

section \<open>Requests\<close>

text \<open>\<open>rq_TLS\<close>: \<open>None\<close> without TLS; otherwise the verified peer chain as subject name and raw bytes.\<close>

record request =
  rq_Host :: string
  rq_Header :: headers
  rq_TLS :: "(string \<times> bytes) list option"
  rq_RemoteAddr :: string

definition injectClientIdentityHeaders :: "(bytes \<Rightarrow> bytes) \<Rightarrow> request \<Rightarrow> request" where
  "injectClientIdentityHeaders sha r =
     (let h = Header_Del (Header_Del (rq_Header r) ''X-Client-CN'') ''X-Client-Cert-Fingerprint''
      in case rq_TLS r of
           Some ((cn, raw) # _) \<Rightarrow>
             r\<lparr>rq_Header := Header_Set (Header_Set h ''X-Client-CN'' cn) ''X-Client-Cert-Fingerprint''
                              (''sha256:'' @ hex_EncodeToString (sha raw))\<rparr>
         | _ \<Rightarrow> r\<lparr>rq_Header := h\<rparr>)"

definition normalizeHost :: "(string \<Rightarrow> string) \<Rightarrow> string \<Rightarrow> string" where
  "normalizeHost uni s =
     (let s1 = TrimSuffix (ToLower uni s) ''.''
      in case IndexByte s1 (CHR '':'') of None \<Rightarrow> s1 | Some i \<Rightarrow> take i s1)"

section \<open>Routing\<close>

datatype route_out =
    Fallback request
  | Error nat string
  | Offline nat string
  | Proxied session request

definition offline_page :: "string \<Rightarrow> string" where
  "offline_page label =
     ''<!doctype html>\<newline><html><body style='' @ [CHR 0x22] @ ''font-family:sans-serif;padding:2em'' @ [CHR 0x22]
       @ ''>\<newline><h1>Tunnel offline</h1>\<newline><p>The tunnel <code>'' @ label
       @ ''</code> is registered but no client is currently connected.</p>\<newline></body></html>''"

definition tunnelOffline :: "string \<Rightarrow> route_out" where
  "tunnelOffline label = Offline 502 (offline_page label)"

definition route ::
  "(string \<Rightarrow> string) \<Rightarrow> (bytes \<Rightarrow> bytes) \<Rightarrow> registry \<Rightarrow> string \<Rightarrow> PortSet option \<Rightarrow> request \<Rightarrow> route_out" where
  "route uni sha reg apex ports r0 =
     (let r = injectClientIdentityHeaders sha r0;
          host = normalizeHost uni (rq_Host r)
      in case CutSuffix host (''.'' @ ToLower uni apex) of
           None \<Rightarrow> Fallback r
         | Some rest \<Rightarrow>
             if rest = [] then Fallback r
             else
               (case IndexByte rest (CHR ''.'') of
                  None \<Rightarrow> Fallback r
                | Some dot \<Rightarrow>
                    (let portLabel = take dot rest; sessionLabel = drop (dot + 1) rest
                     in if \<not> HasSuffix sessionLabel ''-tunnel'' then Fallback r
                        else if ports \<noteq> None
                          \<and> (case Atoi portLabel of None \<Rightarrow> True | Some n \<Rightarrow> n < 1 \<or> n > 65535 \<or> \<not> Set_Permits ports n)
                        then Error 404 ''port not allowed''
                        else (case reg_get reg sessionLabel of
                                None \<Rightarrow> tunnelOffline sessionLabel
                              | Some ts \<Rightarrow> Proxied ts r))))"

section \<open>The two reverse proxies\<close>

definition hopHeaders :: "string list" where
  "hopHeaders = [''Connection'', ''Proxy-Connection'', ''Keep-Alive'', ''Proxy-Authenticate'', ''Proxy-Authorization'',
     ''Te'', ''Trailer'', ''Transfer-Encoding'', ''Upgrade'']"

definition trim_ows :: "string \<Rightarrow> string" where
  "trim_ows s = (let sp = (\<lambda>c. c = CHR '' '' \<or> c = CHR 0x09 \<or> c = CHR 0x0A \<or> c = CHR 0x0D)
                 in rev (dropWhile sp (rev (dropWhile sp s))))"

definition connection_named :: "headers \<Rightarrow> string list" where
  "connection_named h =
     filter (\<lambda>s. s \<noteq> []) (map trim_ows (concat (map (\<lambda>f. Split f (CHR '','')) (case map_of h ''Connection'' of None \<Rightarrow> [] | Some vs \<Rightarrow> vs))))"

definition removeHopByHopHeaders :: "headers \<Rightarrow> headers" where
  "removeHopByHopHeaders h = foldl Header_Del (foldl Header_Del h (connection_named h)) hopHeaders"

definition forwarding :: "string list" where
  "forwarding = [''Forwarded'', ''X-Forwarded-For'', ''X-Forwarded-Host'', ''X-Forwarded-Proto'']"

text \<open>\<open>httpguts.HeaderValuesContainsToken\<close>: comma-separated tokens, compared without regard to ASCII case.\<close>

definition trimOWS :: "string \<Rightarrow> string" where
  "trimOWS s = (let sp = (\<lambda>c. c = CHR '' '' \<or> c = CHR 0x09) in rev (dropWhile sp (rev (dropWhile sp s))))"

definition ContainsToken :: "string list \<Rightarrow> string \<Rightarrow> bool" where
  "ContainsToken vs token \<longleftrightarrow>
     list_ex (\<lambda>v. list_ex (\<lambda>t. map ascii_lower (trimOWS t) = map ascii_lower token) (Split v (CHR '',''))) vs"

definition header_values :: "headers \<Rightarrow> string \<Rightarrow> string list" where
  "header_values h k = (case map_of h k of None \<Rightarrow> [] | Some vs \<Rightarrow> vs)"

definition upgradeType :: "headers \<Rightarrow> string" where
  "upgradeType h = (if ContainsToken (header_values h ''Connection'') ''Upgrade'' then Header_Get h ''Upgrade'' else [])"

definition is_print :: "string \<Rightarrow> bool" where
  "is_print s \<longleftrightarrow> list_all (\<lambda>c. 32 \<le> (of_char c :: nat) \<and> (of_char c :: nat) \<le> 126) s"

text \<open>The hop-by-hop headers that a proxy puts back.\<close>

definition restoreHopHeaders :: "headers \<Rightarrow> headers \<Rightarrow> headers" where
  "restoreHopHeaders h0 h =
     (let h1 = (if ContainsToken (header_values h0 ''Te'') ''trailers'' then Header_Set h ''Te'' ''trailers'' else h)
      in if upgradeType h0 \<noteq> [] then Header_Set (Header_Set h1 ''Connection'' ''Upgrade'') ''Upgrade'' (upgradeType h0) else h1)"

text \<open>The outbound headers before \<open>Rewrite\<close> runs.\<close>

definition proxy_outbound :: "request \<Rightarrow> headers" where
  "proxy_outbound r = foldl Header_Del (restoreHopHeaders (rq_Header r) (removeHopByHopHeaders (rq_Header r))) forwarding"

text \<open>
  \<open>SetXForwarded\<close>; the outbound request has no \<open>X-Forwarded-For\<close> at that point, so there is no
  prior value to append to.
\<close>

definition SetXForwarded :: "request \<Rightarrow> headers \<Rightarrow> headers" where
  "SetXForwarded r h =
     (let h1 = (case SplitHostPort (rq_RemoteAddr r) of
                  None \<Rightarrow> Header_Del h ''X-Forwarded-For''
                | Some (ip, _) \<Rightarrow> Header_Set h ''X-Forwarded-For'' ip);
          h2 = Header_Set h1 ''X-Forwarded-Host'' (rq_Host r)
      in Header_Set h2 ''X-Forwarded-Proto'' (if rq_TLS r = None then ''http'' else ''https''))"

definition newSessionProxy_Rewrite :: "request \<Rightarrow> request" where
  "newSessionProxy_Rewrite r = r\<lparr>rq_Header := SetXForwarded r (proxy_outbound r)\<rparr>"

text \<open>
  The transport into the tunnel (\<open>DisableKeepAlives\<close>): every request that is not an upgrade carries \<open>Connection: close\<close>.  The
  result is the request that the client side receives.
\<close>

definition tunnel_send :: "request \<Rightarrow> request" where
  "tunnel_send r =
     (let h = rq_Header r in
      \<lparr>rq_Host = rq_Host r,
       rq_Header = (if Header_Get h ''Upgrade'' \<noteq> [] \<and> ContainsToken (header_values h ''Connection'') ''Upgrade'' then h
                    else Header_Set h ''Connection'' ''close''),
       rq_TLS = None, rq_RemoteAddr = ''yamux''\<rparr>)"

definition tunnel_ErrorHandler :: "bool \<Rightarrow> string \<Rightarrow> (nat \<times> string) option" where
  "tunnel_ErrorHandler canceled err = (if canceled then None else Some (502, ''tunnel error: '' @ err))"

text \<open>
  The server's proxy into the tunnel: the error response, if any, or the request on the other side.  \<open>rt\<close> is how the round trip fails, if it does:
  whether because the caller went away, and the text of the error.
\<close>

definition newSessionProxy :: "(string \<Rightarrow> string) \<Rightarrow> (bool \<times> string) option \<Rightarrow> request \<Rightarrow> (nat \<times> string) option + request" where
  "newSessionProxy quote rt r =
     (if \<not> is_print (upgradeType (rq_Header r))
      then Inl (tunnel_ErrorHandler False (''client tried to switch to invalid protocol '' @ quote (upgradeType (rq_Header r))))
      else (case rt of
              Some (canceled, err) \<Rightarrow> Inl (tunnel_ErrorHandler canceled err)
            | None \<Rightarrow> Inr (tunnel_send (newSessionProxy_Rewrite r))))"

section \<open>The client side\<close>

definition portFromHost :: "(string \<Rightarrow> string) \<Rightarrow> string \<Rightarrow> string" where
  "portFromHost uni s =
     (let h = TrimSuffix (ToLower uni s) ''.'';
          h1 = (case IndexByte h (CHR '':'') of None \<Rightarrow> h | Some i \<Rightarrow> take i h)
      in case IndexByte h1 (CHR ''.'') of None \<Rightarrow> [] | Some dot \<Rightarrow> take dot h1)"

definition JoinHostPort :: "string \<Rightarrow> string \<Rightarrow> string" where
  "JoinHostPort host port =
     (if IndexByte host (CHR '':'') \<noteq> None then ''['' @ host @ '']:'' @ port else host @ '':'' @ port)"

definition upstream_ErrorHandler :: "bool \<Rightarrow> (nat \<times> string) option" where
  "upstream_ErrorHandler canceled = (if canceled then None else Some (502, ''upstream error''))"

datatype dispatch_out = BadRequest string | UpstreamError "(nat \<times> string) option" | Forward string request

text \<open>\<open>rt\<close>: the round trip to the local service fails, because the caller went away or not.\<close>

definition PortDispatchHandler :: "(string \<Rightarrow> string) \<Rightarrow> string \<Rightarrow> bool option \<Rightarrow> request \<Rightarrow> dispatch_out" where
  "PortDispatchHandler uni target rt r =
     (let port = portFromHost uni (rq_Host r) in
      if port = [] then BadRequest ''missing port label in Host''
      else if Atoi port = None then BadRequest ''non-numeric port label''
      else if \<not> is_print (upgradeType (rq_Header r)) then UpstreamError (upstream_ErrorHandler False)
      else (case rt of
              Some canceled \<Rightarrow> UpstreamError (upstream_ErrorHandler canceled)
            | None \<Rightarrow>
                Forward (JoinHostPort target port)
                  (r\<lparr>rq_Header := foldl (\<lambda>h k. if Header_Get (rq_Header r) k \<noteq> [] then Header_Set h k (Header_Get (rq_Header r) k) else h)
                                    (proxy_outbound r) [''X-Forwarded-For'', ''X-Forwarded-Host'', ''X-Forwarded-Proto'']\<rparr>)))"

section \<open>Sample values and specification\<close>

text \<open>A host that normalising leaves alone.\<close>

definition plain_host :: "string \<Rightarrow> bool" where
  "plain_host s \<longleftrightarrow> list_all (\<lambda>c. re_az09_dash c \<or> c = CHR ''.'') s \<and> s \<noteq> [] \<and> last s \<noteq> CHR ''.''"

text \<open>What a proxy makes of each header: the restored ones, the removed ones, the others.\<close>

definition hop_value :: "headers \<Rightarrow> string \<Rightarrow> string list option" where
  "hop_value h j =
     (if j = ''Upgrade'' \<and> upgradeType h \<noteq> [] then Some [upgradeType h]
      else if j = ''Connection'' \<and> upgradeType h \<noteq> [] then Some [''Upgrade'']
      else if j = ''Te'' \<and> ContainsToken (header_values h ''Te'') ''trailers'' then Some [''trailers'']
      else None)"

text \<open>The headers on the other side of the tunnel.\<close>

definition sent_value :: "request \<Rightarrow> string \<Rightarrow> string list option" where
  "sent_value r j =
     (if j = ''X-Forwarded-Proto'' then Some [if rq_TLS r = None then ''http'' else ''https'']
      else if j = ''X-Forwarded-Host'' then Some [rq_Host r]
      else if j = ''X-Forwarded-For'' then map_option (\<lambda>p. [fst p]) (SplitHostPort (rq_RemoteAddr r))
      else if j = ''Connection'' \<and> upgradeType (rq_Header r) = [] then Some [''close'']
      else if j \<in> set hopHeaders then hop_value (rq_Header r) j
      else if j \<in> set forwarding \<union> CanonicalKey ` set (connection_named (rq_Header r)) then None else map_of (rq_Header r) j)"

definition demo_registry :: registry where
  "demo_registry = \<lparr>reg_sessions = [(''app-tunnel'', 7)], reg_byPubkey = []\<rparr>"

definition demo_request :: "string \<Rightarrow> headers \<Rightarrow> request" where
  "demo_request host h = \<lparr>rq_Host = host, rq_Header = h, rq_TLS = Some [(''alice'', ''raw'')], rq_RemoteAddr = ''1.2.3.4:99''\<rparr>"

definition demo_ports :: "PortSet option" where
  "demo_ports = Some \<lparr>ps_policy = Some AllowAll, ps_source = ''test'', ps_spec = Some ''all'', ps_file = []\<rparr>"

section \<open>Headers\<close>

lemma map_of_Header_Del [simp]: "map_of (Header_Del h k) j = (if j = CanonicalKey k then None else map_of h j)"
  by (simp add: Header_Del_def delete_conv')

lemma map_of_Header_Set [simp]: "map_of (Header_Set h k v) j = (if j = CanonicalKey k then Some [v] else map_of h j)"
  by (simp add: Header_Set_def update_conv')

lemma map_of_Dels: "map_of (foldl Header_Del h ks) j = (if j \<in> CanonicalKey ` set ks then None else map_of h j)"
  by (induction ks arbitrary: h) auto

lemma canon_consts:
  "CanonicalKey ''X-Client-CN'' = ''X-Client-Cn''" "CanonicalKey ''X-Client-Cert-Fingerprint'' = ''X-Client-Cert-Fingerprint''"
  "CanonicalKey ''X-Forwarded-For'' = ''X-Forwarded-For''" "CanonicalKey ''X-Forwarded-Host'' = ''X-Forwarded-Host''"
  "CanonicalKey ''X-Forwarded-Proto'' = ''X-Forwarded-Proto''"
  "map CanonicalKey hopHeaders = hopHeaders" "map CanonicalKey forwarding = forwarding"
  by code_simp+

lemma hop_set: "CanonicalKey ` set hopHeaders = set hopHeaders" "CanonicalKey ` set forwarding = set forwarding"
  using canon_consts(6,7) by (metis image_set)+

lemma hop_consts:
  "CanonicalKey ''Te'' = ''Te''" "CanonicalKey ''Connection'' = ''Connection''" "CanonicalKey ''Upgrade'' = ''Upgrade''"
  "''Te'' \<in> set hopHeaders" "''Connection'' \<in> set hopHeaders" "''Upgrade'' \<in> set hopHeaders"
  "set forwarding \<inter> set hopHeaders = {}"
  by code_simp+

lemma map_of_proxy_outbound:
  "map_of (proxy_outbound r) j =
     (if j \<in> set hopHeaders then hop_value (rq_Header r) j
      else if j \<in> set forwarding \<union> CanonicalKey ` set (connection_named (rq_Header r)) then None else map_of (rq_Header r) j)"
proof -
  have "map_of (removeHopByHopHeaders h) j
      = (if j \<in> set hopHeaders \<union> CanonicalKey ` set (connection_named h) then None else map_of h j)" for h
    by (auto simp: removeHopByHopHeaders_def map_of_Dels hop_set)
  then show ?thesis using hop_consts
    by (auto simp: proxy_outbound_def restoreHopHeaders_def hop_value_def map_of_Dels hop_set Let_def)
qed

lemma map_of_SetXForwarded:
  "map_of (SetXForwarded r h) j =
     (if j = ''X-Forwarded-Proto'' then Some [if rq_TLS r = None then ''http'' else ''https'']
      else if j = ''X-Forwarded-Host'' then Some [rq_Host r]
      else if j = ''X-Forwarded-For'' then map_option (\<lambda>p. [fst p]) (SplitHostPort (rq_RemoteAddr r))
      else map_of h j)"
  by (auto simp: SetXForwarded_def Let_def canon_consts split: option.splits)

lemma connection_named_cong: "map_of h ''Connection'' = map_of h' ''Connection'' \<Longrightarrow> connection_named h = connection_named h'"
  by (simp add: connection_named_def)

lemma inject_headers:
  "map_of (rq_Header (injectClientIdentityHeaders sha r)) j =
     (if j = ''X-Client-Cert-Fingerprint'' then
        (case rq_TLS r of Some ((cn, raw) # _) \<Rightarrow> Some [''sha256:'' @ hex_EncodeToString (sha raw)] | _ \<Rightarrow> None)
      else if j = ''X-Client-Cn'' then (case rq_TLS r of Some ((cn, raw) # _) \<Rightarrow> Some [cn] | _ \<Rightarrow> None)
      else map_of (rq_Header r) j)"
  by (auto simp: injectClientIdentityHeaders_def Let_def canon_consts split: option.splits list.splits)

lemma inject_other [simp]:
  "rq_Host (injectClientIdentityHeaders sha r) = rq_Host r" "rq_TLS (injectClientIdentityHeaders sha r) = rq_TLS r"
  "rq_RemoteAddr (injectClientIdentityHeaders sha r) = rq_RemoteAddr r"
  by (auto simp: injectClientIdentityHeaders_def Let_def split: option.splits list.splits)

section \<open>The tunnel\<close>

lemma token_consts:
  "ContainsToken [''Upgrade''] ''Upgrade''" "\<not> ContainsToken [''close''] ''Upgrade''" "ContainsToken [''trailers''] ''trailers''"
  "connection_named [(''Connection'', [''Upgrade''])] = [''Upgrade'']" "connection_named [(''Connection'', [''close''])] = [''close'']"
  "CanonicalKey ''close'' = ''Close''" "\<not> ContainsToken [] t"
  by code_simp+

lemma upgradeType_cong:
  "map_of h ''Connection'' = map_of h' ''Connection'' \<Longrightarrow> map_of h ''Upgrade'' = map_of h' ''Upgrade'' \<Longrightarrow> upgradeType h = upgradeType h'"
  by (simp add: upgradeType_def header_values_def Header_Get_def hop_consts)

lemma Rewrite_headers:
  "map_of (rq_Header (newSessionProxy_Rewrite r)) j = (if j = ''Connection'' \<and> upgradeType (rq_Header r) = [] then None else sent_value r j)"
proof (cases "j = ''Connection''")
  case True
  then show ?thesis
    using hop_consts(5) by (simp add: newSessionProxy_Rewrite_def map_of_SetXForwarded map_of_proxy_outbound sent_value_def hop_value_def)
next
  case False
  then show ?thesis by (simp add: newSessionProxy_Rewrite_def map_of_SetXForwarded map_of_proxy_outbound sent_value_def)
qed

lemma sent_upgrade:
  "sent_value r ''Connection'' = Some [if upgradeType (rq_Header r) = [] then ''close'' else ''Upgrade'']"
  "sent_value r ''Upgrade'' = (if upgradeType (rq_Header r) = [] then None else Some [upgradeType (rq_Header r)])"
  "sent_value r ''Te'' = (if ContainsToken (header_values (rq_Header r) ''Te'') ''trailers'' then Some [''trailers''] else None)"
  using hop_consts(4-6) by (simp_all add: sent_value_def hop_value_def)

lemma tunnel_send_headers: "map_of (rq_Header (tunnel_send (newSessionProxy_Rewrite r))) j = sent_value r j"
proof -
  let ?h = "rq_Header (newSessionProxy_Rewrite r)" and ?u = "upgradeType (rq_Header r)"
  have v: "map_of ?h ''Connection'' = (if ?u = [] then None else Some [''Upgrade''])" "map_of ?h ''Upgrade'' = (if ?u = [] then None else Some [?u])"
    by (simp_all add: Rewrite_headers sent_upgrade)
  have c: "(Header_Get ?h ''Upgrade'' \<noteq> [] \<and> ContainsToken (header_values ?h ''Connection'') ''Upgrade'') \<longleftrightarrow> ?u \<noteq> []"
    using token_consts(1,7) by (simp add: Header_Get_def header_values_def hop_consts(3) v)
  show ?thesis
  proof (cases "j = ''Connection''")
    case True
    then show ?thesis using v(1) unfolding tunnel_send_def Let_def request.select_convs c by (simp add: hop_consts(2) sent_upgrade)
  next
    case False
    then show ?thesis unfolding tunnel_send_def Let_def request.select_convs c by (simp add: hop_consts(2) Rewrite_headers)
  qed
qed

lemma newSessionProxy_Inr:
  assumes "newSessionProxy quote rt r = Inr t"
  shows "map_of (rq_Header t) = sent_value r" "rq_Host t = rq_Host r" "is_print (upgradeType (rq_Header t))"
    "upgradeType (rq_Header t) = upgradeType (rq_Header r)"
    "connection_named (rq_Header t) = [if upgradeType (rq_Header r) = [] then ''close'' else ''Upgrade'']"
    "header_values (rq_Header t) ''Te'' = (if ContainsToken (header_values (rq_Header r) ''Te'') ''trailers'' then [''trailers''] else [])"
proof -
  have t: "t = tunnel_send (newSessionProxy_Rewrite r)" "is_print (upgradeType (rq_Header r))"
    using assms by (auto simp: newSessionProxy_def split: if_splits option.splits)
  show h: "map_of (rq_Header t) = sent_value r" using t(1) tunnel_send_headers by blast
  show "rq_Host t = rq_Host r" by (simp add: t(1) tunnel_send_def newSessionProxy_Rewrite_def Let_def)
  have c: "map_of (rq_Header t) ''Connection'' = Some [if upgradeType (rq_Header r) = [] then ''close'' else ''Upgrade'']"
    "map_of (rq_Header t) ''Upgrade'' = (if upgradeType (rq_Header r) = [] then None else Some [upgradeType (rq_Header r)])"
    by (simp_all add: h sent_upgrade)
  then show u: "upgradeType (rq_Header t) = upgradeType (rq_Header r)"
    using token_consts(1,2) by (cases "upgradeType (rq_Header r) = []") (simp_all add: upgradeType_def [of "rq_Header t"] header_values_def Header_Get_def hop_consts(3))
  then show "is_print (upgradeType (rq_Header t))" using t(2) by simp
  show "connection_named (rq_Header t) = [if upgradeType (rq_Header r) = [] then ''close'' else ''Upgrade'']"
    using token_consts(4,5) by (simp add: connection_named_def c)
  show "header_values (rq_Header t) ''Te'' = (if ContainsToken (header_values (rq_Header r) ''Te'') ''trailers'' then [''trailers''] else [])"
    by (simp add: header_values_def [of "rq_Header t"] h sent_upgrade)
qed

section \<open>Hosts\<close>

lemma route_Proxied:
  assumes "route uni sha reg apex ports r = Proxied ts r1"
  shows "\<exists>p l. normalizeHost uni (rq_Host r) = p @ ''.'' @ l @ ''.'' @ ToLower uni apex \<and> CHR ''.'' \<notin> set p
     \<and> HasSuffix l ''-tunnel'' \<and> reg_get reg l = Some ts \<and> r1 = injectClientIdentityHeaders sha r
     \<and> (ports \<noteq> None \<longrightarrow> (\<exists>n. Atoi p = Some n \<and> 1 \<le> n \<and> n \<le> 65535 \<and> Set_Permits ports n))"
proof -
  obtain rest where c: "CutSuffix (normalizeHost uni (rq_Host r)) (''.'' @ ToLower uni apex) = Some rest"
    using assms by (auto simp: route_def Let_def split: option.splits)
  obtain dot where d: "IndexByte rest (CHR ''.'') = Some dot"
    using assms c by (auto simp: route_def Let_def split: option.splits if_splits)
  have s: "rest = take dot rest @ ''.'' @ drop (dot + 1) rest" "CHR ''.'' \<notin> set (take dot rest)"
    using IndexByte_SomeD [OF d] by auto
  have "normalizeHost uni (rq_Host r) = take dot rest @ ''.'' @ drop (dot + 1) rest @ ''.'' @ ToLower uni apex"
    using c [unfolded CutSuffix_Some_iff] s(1) by (metis append.assoc)
  moreover have "HasSuffix (drop (dot + 1) rest) ''-tunnel'' \<and> reg_get reg (drop (dot + 1) rest) = Some ts
     \<and> r1 = injectClientIdentityHeaders sha r
     \<and> (ports \<noteq> None \<longrightarrow> (\<exists>n. Atoi (take dot rest) = Some n \<and> 1 \<le> n \<and> n \<le> 65535 \<and> Set_Permits ports n))"
    using assms c d by (auto simp: route_def Let_def tunnelOffline_def split: option.splits if_splits)
  ultimately show ?thesis using s(2) by blast
qed

lemma route_injected:
  assumes "route uni sha reg apex ports r = Proxied ts r1"
  shows "r1 = injectClientIdentityHeaders sha r" "connection_named (rq_Header r1) = connection_named (rq_Header r)"
    "upgradeType (rq_Header r1) = upgradeType (rq_Header r)" "header_values (rq_Header r1) ''Te'' = header_values (rq_Header r) ''Te''"
proof -
  show r1: "r1 = injectClientIdentityHeaders sha r" using route_Proxied [OF assms] by blast
  show "connection_named (rq_Header r1) = connection_named (rq_Header r)"
    unfolding r1 by (rule connection_named_cong) (simp add: inject_headers)
  show "upgradeType (rq_Header r1) = upgradeType (rq_Header r)"
    unfolding r1 by (rule upgradeType_cong) (simp_all add: inject_headers)
  show "header_values (rq_Header r1) ''Te'' = header_values (rq_Header r) ''Te''"
    unfolding r1 by (simp add: header_values_def inject_headers)
qed

lemma portFromHost_normal:
  assumes "normalizeHost uni h = p @ ''.'' @ q" "CHR ''.'' \<notin> set p"
  shows "portFromHost uni h = p"
  using assms IndexByte_append [of "CHR ''.''" p q] by (auto simp: portFromHost_def normalizeHost_def Let_def)

lemma re_az09_dash_lower: "re_az09_dash c \<or> c = CHR ''.'' \<Longrightarrow> ascii_lower c = c \<and> (of_char c :: nat) < 128 \<and> c \<noteq> CHR '':''"
  by (auto simp: re_az09_dash_def re_az09_def re_az_def is_digit_def ascii_lower_def)

lemma plain_host_normal:
  assumes "plain_host s"
  shows "ToLower uni s = s" "normalizeHost uni s = s"
proof -
  have c: "\<forall>c\<in>set s. ascii_lower c = c \<and> (of_char c :: nat) < 128 \<and> c \<noteq> CHR '':''"
    using assms re_az09_dash_lower by (auto simp: plain_host_def list_all_iff)
  then show l: "ToLower uni s = s" by (auto simp: ToLower_def is_ascii_def list_all_iff map_idI)
  have "\<not> HasSuffix s ''.''"
    using assms by (auto simp: plain_host_def HasSuffix_iff)
  then have "TrimSuffix s ''.'' = s" by (simp add: TrimSuffix_def)
  moreover have "IndexByte s (CHR '':'') = None" using c by (auto simp: IndexByte_None_iff)
  ultimately show "normalizeHost uni s = s" using l by (simp add: normalizeHost_def)
qed
section \<open>Properties\<close>

lemma plain_host_append:
  "list_all (\<lambda>c. re_az09_dash c \<or> c = CHR ''.'') p \<Longrightarrow> plain_host q \<Longrightarrow> plain_host (p @ q)"
  by (auto simp: plain_host_def)

lemma Itoa_plain: "0 \<le> n \<Longrightarrow> list_all (\<lambda>c. re_az09_dash c \<or> c = CHR ''.'') (Itoa n)"
  using Itoa_digits [of n] by (auto simp: list_all_iff re_az09_dash_def re_az09_def)

lemma TunnelLabel_plain:
  assumes "ValidateUnique quote u = None"
  shows "list_all (\<lambda>c. re_az09_dash c \<or> c = CHR ''.'') (TunnelLabel u)"
proof -
  have "list_all re_az09_dash ''-tunnel''" by code_simp
  then show ?thesis using ValidateUnique_shape(2) [OF assms] by (auto simp: TunnelLabel_def list_all_iff)
qed

lemma route_delivers:
  assumes "ValidateUnique quote u = None" "plain_host apex" "1 \<le> n" "n \<le> 65535" "ports = None \<or> Set_Permits ports n"
    "reg_get reg (TunnelLabel u) = Some ts" "rq_Host r = Itoa n @ ''.'' @ TunnelLabel u @ ''.'' @ apex"
  shows "route uni sha reg apex ports r = Proxied ts (injectClientIdentityHeaders sha r)"
proof -
  let ?rest = "Itoa n @ ''.'' @ TunnelLabel u"
  have p: "plain_host (?rest @ ''.'' @ apex)"
    using assms(2) Itoa_plain [of n] TunnelLabel_plain [OF assms(1)] assms(3) by (intro plain_host_append) auto
  have h: "normalizeHost uni (rq_Host r) = ?rest @ ''.'' @ apex"
    using plain_host_normal(2) [OF p, of uni] assms(7) by simp
  have c: "CutSuffix (normalizeHost uni (rq_Host r)) (''.'' @ ToLower uni apex) = Some ?rest"
    unfolding h plain_host_normal(1) [OF assms(2)] by (rule CutSuffix_append)
  have d: "IndexByte ?rest (CHR ''.'') = Some (length (Itoa n))"
    using IndexByte_append [of "CHR ''.''" "Itoa n" "TunnelLabel u"] Itoa_no_sign [of n "CHR ''.''"] assms(3) by simp
  have s: "HasSuffix (TunnelLabel u) ''-tunnel''" unfolding TunnelLabel_def by (rule HasSuffix_append)
  have a: "Atoi (Itoa n) = Some n" using assms(3,4) by (intro Atoi_Itoa) auto
  show ?thesis
    unfolding route_def Let_def inject_other c option.case d using s a assms(3-6) by auto
qed


lemma demo_route:
  "route id id demo_registry ''ex.com'' demo_ports (demo_request ''8080.app-tunnel.ex.com'' h)
     = Proxied 7 (injectClientIdentityHeaders id (demo_request ''8080.app-tunnel.ex.com'' h))"
proof -
  have v: "ValidateUnique id ''app'' = None" "plain_host ''ex.com''" by code_simp+
  have i: "Itoa 8080 @ ''.'' @ TunnelLabel ''app'' @ ''.'' @ ''ex.com'' = ''8080.app-tunnel.ex.com''"
    by (simp add: Itoa_def nat_digits.simps digit_char_def TunnelLabel_def)
  show ?thesis
    by (rule route_delivers [OF v, of 8080]) (simp_all add: demo_ports_def Set_Permits_def Permits_def AllowAll_def
        demo_registry_def reg_get_def TunnelLabel_def demo_request_def i [unfolded TunnelLabel_def, simplified])
qed


lemma copied_headers:
  "\<forall>k\<in>set ks. CanonicalKey k = k \<Longrightarrow>
   map_of (foldl (\<lambda>g k. if G k \<noteq> [] then Header_Set g k (G k) else g) g ks) j
     = (if j \<in> set ks \<and> G j \<noteq> [] then Some [G j] else map_of g j)"
  by (induction ks arbitrary: g) auto

text \<open>The headers that the local service receives, from those that the router passed on.\<close>

lemma delivered_headers:
  assumes "newSessionProxy quote rt r1 = Inr t" "PortDispatchHandler uni target rt' t = Forward dst r2"
  shows "map_of (rq_Header r2) j =
      (let fwd = (case sent_value r1 j of Some (v # _) \<Rightarrow> v | _ \<Rightarrow> []) in
       if j \<in> {''X-Forwarded-For'', ''X-Forwarded-Host'', ''X-Forwarded-Proto''} then (if fwd \<noteq> [] then Some [fwd] else None)
       else if j \<in> set hopHeaders then hop_value (rq_Header r1) j
       else if j \<in> set forwarding \<union> CanonicalKey ` set (connection_named (rq_Header r1))
            \<or> j = ''Close'' \<and> upgradeType (rq_Header r1) = [] then None
       else map_of (rq_Header r1) j)"
    "rq_Host r2 = rq_Host r1" "dst = JoinHostPort target (portFromHost uni (rq_Host r1))"
proof -
  note t = newSessionProxy_Inr [OF assms(1)]
  let ?keys = "[''X-Forwarded-For'', ''X-Forwarded-Host'', ''X-Forwarded-Proto'']"
  let ?f = "\<lambda>g k. if Header_Get (rq_Header t) k \<noteq> [] then Header_Set g k (Header_Get (rq_Header t) k) else g"
  have r2: "rq_Header r2 = foldl ?f (proxy_outbound t) ?keys" and host: "rq_Host r2 = rq_Host t"
    and d: "dst = JoinHostPort target (portFromHost uni (rq_Host t))"
    using assms(2) by (auto simp: PortDispatchHandler_def Let_def split: if_splits option.splits)
  show "rq_Host r2 = rq_Host r1" "dst = JoinHostPort target (portFromHost uni (rq_Host r1))" using host d t(2) by simp_all
  have hop: "hop_value (rq_Header t) j = hop_value (rq_Header r1) j" for j
    using token_consts by (auto simp: hop_value_def t(4,6))
  have close: "CanonicalKey ` set (connection_named (rq_Header t)) = {if upgradeType (rq_Header r1) = [] then ''Close'' else ''Upgrade''}"
    using token_consts(6) hop_consts(3) by (simp add: t(5))
  have G: "Header_Get (rq_Header t) j = (case sent_value r1 j of Some (v # _) \<Rightarrow> v | _ \<Rightarrow> [])" if "j \<in> set ?keys" for j
    using that by (auto simp: Header_Get_def t(1) canon_consts)
  have fw: "set ?keys \<subseteq> set forwarding" "set ?keys \<inter> set hopHeaders = {}" by code_simp+
  have m: "map_of (rq_Header r2) j =
     (if j \<in> set ?keys \<and> Header_Get (rq_Header t) j \<noteq> [] then Some [Header_Get (rq_Header t) j] else map_of (proxy_outbound t) j)"
    unfolding r2 by (subst copied_headers) (simp_all add: canon_consts)
  have o: "map_of (proxy_outbound t) j =
     (if j \<in> set hopHeaders then hop_value (rq_Header r1) j
      else if j \<in> set forwarding \<or> j = (if upgradeType (rq_Header r1) = [] then ''Close'' else ''Upgrade'') then None else sent_value r1 j)"
    unfolding map_of_proxy_outbound hop close t(1) by simp
  have s: "sent_value r1 j = (if j \<in> CanonicalKey ` set (connection_named (rq_Header r1)) then None else map_of (rq_Header r1) j)"
    if "j \<notin> set hopHeaders" "j \<notin> set forwarding" for j
    using that fw hop_consts(5) by (auto simp: sent_value_def)
  show "map_of (rq_Header r2) j =
      (let fwd = (case sent_value r1 j of Some (v # _) \<Rightarrow> v | _ \<Rightarrow> []) in
       if j \<in> {''X-Forwarded-For'', ''X-Forwarded-Host'', ''X-Forwarded-Proto''} then (if fwd \<noteq> [] then Some [fwd] else None)
       else if j \<in> set hopHeaders then hop_value (rq_Header r1) j
       else if j \<in> set forwarding \<union> CanonicalKey ` set (connection_named (rq_Header r1))
            \<or> j = ''Close'' \<and> upgradeType (rq_Header r1) = [] then None
       else map_of (rq_Header r1) j)"
  proof (cases "j \<in> set ?keys")
    case True
    then show ?thesis using m o G [OF True] fw by (auto simp: Let_def)
  next
    case False
    then show ?thesis using m o s [of j] hop_consts(6) by (auto simp: Let_def)
  qed
qed

text \<open>
  C12: what the local application learns about the caller.  For a request that went through the router, the tunnel and the
  client's dispatcher, whatever headers the caller sent: \<open>X-Client-CN\<close> and
  \<open>X-Client-Cert-Fingerprint\<close> are those of the verified peer certificate, or absent, never the caller's
  own; \<open>X-Forwarded-For\<close> is the address of the caller's connection, \<open>X-Forwarded-Proto\<close> its scheme; the
  host is unchanged.  The identity headers are absent although the peer has a certificate exactly when the
  caller names them in its \<open>Connection\<close> header.
\<close>

theorem identity_end_to_end:
  assumes "route uni sha reg apex ports r = Proxied ts r1" "newSessionProxy quote rt r1 = Inr t"
    "PortDispatchHandler uni target rt' t = Forward dst r2"
  shows "map_of (rq_Header r2) ''X-Client-Cn'' =
      (case rq_TLS r of
         Some ((cn, raw) # _) \<Rightarrow> if ''X-Client-Cn'' \<in> CanonicalKey ` set (connection_named (rq_Header r)) then None else Some [cn]
       | _ \<Rightarrow> None)
    \<and> map_of (rq_Header r2) ''X-Client-Cert-Fingerprint'' =
      (case rq_TLS r of
         Some ((cn, raw) # _) \<Rightarrow>
           if ''X-Client-Cert-Fingerprint'' \<in> CanonicalKey ` set (connection_named (rq_Header r)) then None
           else Some [''sha256:'' @ hex_EncodeToString (sha raw)]
       | _ \<Rightarrow> None)
    \<and> Header_Get (rq_Header r2) ''X-Forwarded-For'' = (case SplitHostPort (rq_RemoteAddr r) of None \<Rightarrow> [] | Some (ip, _) \<Rightarrow> ip)
    \<and> Header_Get (rq_Header r2) ''X-Forwarded-Proto'' = (if rq_TLS r = None then ''http'' else ''https'')
    \<and> rq_Host r2 = rq_Host r"
proof -
  note d = delivered_headers [OF assms(2,3)] and i = route_injected [OF assms(1)]
  have n: "''X-Client-Cn'' \<notin> set hopHeaders" "''X-Client-Cn'' \<notin> set forwarding" "''X-Client-Cert-Fingerprint'' \<notin> set hopHeaders"
    "''X-Client-Cert-Fingerprint'' \<notin> set forwarding" by code_simp+
  have x: "map_of (rq_Header r2) j = (if j \<in> CanonicalKey ` set (connection_named (rq_Header r)) then None else map_of (rq_Header r1) j)"
    if "j \<in> {''X-Client-Cn'', ''X-Client-Cert-Fingerprint''}" for j
  proof -
    have "j \<notin> {''X-Forwarded-For'', ''X-Forwarded-Host'', ''X-Forwarded-Proto''}" "j \<notin> set hopHeaders" "j \<notin> set forwarding" "j \<noteq> ''Close''"
      using that n by auto
    then show ?thesis unfolding d(1) i(2) by (simp add: Let_def)
  qed
  have f: "Header_Get (rq_Header r2) ''X-Forwarded-For'' = (case SplitHostPort (rq_RemoteAddr r) of None \<Rightarrow> [] | Some (ip, _) \<Rightarrow> ip)"
    "Header_Get (rq_Header r2) ''X-Forwarded-Proto'' = (if rq_TLS r = None then ''http'' else ''https'')"
    unfolding Header_Get_def d(1) canon_consts by (auto simp: Let_def sent_value_def i(1) split: option.splits)
  show ?thesis
    using x f d(2) by (auto simp: i(1) inject_headers split: option.splits list.splits)
qed


lemma demo_forward:
  assumes "is_print (upgradeType h)"
  shows "\<exists>r1 t r2. route id id demo_registry ''ex.com'' demo_ports (demo_request ''8080.app-tunnel.ex.com'' h) = Proxied 7 r1
     \<and> newSessionProxy id None r1 = Inr t \<and> PortDispatchHandler id ''localhost'' None t = Forward ''localhost:8080'' r2"
proof -
  let ?r1 = "injectClientIdentityHeaders id (demo_request ''8080.app-tunnel.ex.com'' h)"
  have "upgradeType (rq_Header ?r1) = upgradeType h"
    by (rule upgradeType_cong) (simp_all add: inject_headers demo_request_def)
  then obtain t where t: "newSessionProxy id None ?r1 = Inr t" using assms by (simp add: newSessionProxy_def)
  have c: "portFromHost id ''8080.app-tunnel.ex.com'' = ''8080''" "JoinHostPort ''localhost'' ''8080'' = ''localhost:8080''" "Atoi ''8080'' \<noteq> None"
    by code_simp+
  have "rq_Host t = ''8080.app-tunnel.ex.com''" using newSessionProxy_Inr(2) [OF t] by (simp add: demo_request_def)
  then have "\<exists>r2. PortDispatchHandler id ''localhost'' None t = Forward ''localhost:8080'' r2"
    using c newSessionProxy_Inr(3) [OF t] by (simp add: PortDispatchHandler_def Let_def)
  then show ?thesis using t demo_route by blast
qed

theorem identity_end_to_end_witness:
  "\<exists>r1 t r2. route id id demo_registry ''ex.com'' demo_ports
       (demo_request ''8080.app-tunnel.ex.com'' [(''X-Client-Cn'', [''mallory'']), (''X-Forwarded-For'', [''6.6.6.6''])]) = Proxied 7 r1
     \<and> newSessionProxy id None r1 = Inr t \<and> PortDispatchHandler id ''localhost'' None t = Forward ''localhost:8080'' r2
     \<and> map_of (rq_Header r2) ''X-Client-Cn'' = Some [''alice''] \<and> Header_Get (rq_Header r2) ''X-Forwarded-For'' = ''1.2.3.4''"
proof -
  let ?h = "[(''X-Client-Cn'', [''mallory'']), (''X-Forwarded-For'', [''6.6.6.6''])]"
  have "is_print (upgradeType ?h)" by code_simp
  then obtain r1 t r2 where R: "route id id demo_registry ''ex.com'' demo_ports (demo_request ''8080.app-tunnel.ex.com'' ?h) = Proxied 7 r1"
    "newSessionProxy id None r1 = Inr t" "PortDispatchHandler id ''localhost'' None t = Forward ''localhost:8080'' r2"
    using demo_forward by blast
  have c: "connection_named ?h = []" by (simp add: connection_named_def)
  have "SplitHostPort ''1.2.3.4:99'' = Some (''1.2.3.4'', ''99'')" by code_simp
  with identity_end_to_end [OF R] R c show ?thesis by (auto simp: demo_request_def)
qed


end
