(* ===== verification/Client.thy ===== *)
theory Client
  imports Register
begin

text \<open>
  The client side of the protocol (\<open>internal/tunnelclient\<close>): registering, answering the challenge,
  deregistering, the classification of failures, and the reconnect loop \<open>Run\<close> with the events it
  reports to a supervisor.

  \<open>err_text\<close> has the texts of errors of other packages.
  \<open>ed25519.Sign\<close> with the client's private key is the argument \<open>sign\<close>, its public key the argument \<open>pub\<close>.
  Dialling, TLS, HTTP and yamux are represented by the results of their calls (\<open>dial_env\<close>); the rounds
  of \<open>Run\<close> by what \<open>Connect\<close>, the session and the sleeps return (\<open>round_env\<close>).
\<close>

section \<open>Failures\<close>

record DenyError =
  de_Reason :: string
  de_Op :: string
  de_RetryAfter :: duration

definition DenyError_Error :: "DenyError \<Rightarrow> string" where
  "DenyError_Error e =
     (if de_Op e \<noteq> [] then ''server denied '' @ de_Op e @ '': '' @ de_Reason e
      else ''server denied: '' @ de_Reason e)"

definition IsRateLimit :: "DenyError \<Rightarrow> bool" where
  "IsRateLimit e = HasPrefix (de_Reason e) ''rate_limited:''"

definition DenyError_IsPermanent :: "DenyError \<Rightarrow> bool" where
  "DenyError_IsPermanent e =
     (if de_Reason e \<in> set [''bad pubkey'', ''bad sig'', ''key_mismatch'', ''unique mismatch'',
           ''bad register payload'', ''bad deregister payload'', ''bad proof payload'', ''bad proof sig'',
           ''signature invalid''] then True
      else if HasPrefix (de_Reason e) ''unsupported protocol version''
           \<or> HasPrefix (de_Reason e) ''invalid unique'' \<or> HasPrefix (de_Reason e) ''expected '' then True
      else if HasPrefix (de_Reason e) ''cert not provisioned'' then True
      else False)"

text \<open>An error value: its message and the \<open>DenyError\<close> in its chain, if any.\<close>

record cerr =
  ce_msg :: string
  ce_deny :: "DenyError option"

definition cerr_wrap :: "string \<Rightarrow> cerr \<Rightarrow> cerr" where
  "cerr_wrap p e = e\<lparr>ce_msg := p @ ce_msg e\<rparr>"

definition cerr_plain :: "string \<Rightarrow> cerr" where
  "cerr_plain m = \<lparr>ce_msg = m, ce_deny = None\<rparr>"

definition cerr_of_deny :: "DenyError \<Rightarrow> cerr" where
  "cerr_of_deny d = \<lparr>ce_msg = DenyError_Error d, ce_deny = Some d\<rparr>"

definition isPermanentTLSError :: "cerr option \<Rightarrow> bool" where
  "isPermanentTLSError err =
     (case err of
        None \<Rightarrow> False
      | Some e \<Rightarrow>
          if ce_msg e = [] then False
          else if list_ex (Contains (ce_msg e))
              [''tls: bad certificate'', ''tls: certificate required'', ''tls: unknown certificate authority'',
               ''tls: unknown certificate'', ''tls: certificate revoked'', ''tls: certificate expired''] then True
          else list_ex (Contains (ce_msg e))
              [''x509: certificate signed by unknown authority'', ''x509: certificate has expired'',
               ''failed to find any PEM data'', ''private key does not match public key''])"

section \<open>The register dance\<close>

text \<open>The text of errors that other packages make: \<open>%q\<close>, a failed frame operation, a failed base64 decoding.\<close>

record err_text =
  et_quote :: "string \<Rightarrow> string"
  et_frame :: "frame_err \<Rightarrow> string"
  et_base64 :: "string \<Rightarrow> string"

text \<open>\<open>time.Duration(sec) * time.Second\<close> wraps.\<close>

definition deny_error :: "string \<Rightarrow> Frame \<Rightarrow> DenyError" where
  "deny_error op f =
     (let d = (case DecodePayload Unmarshal_Deny f of Inl _ \<Rightarrow> \<lparr>d_Reason = [], d_RetryAfterSec = 0\<rparr> | Inr d \<Rightarrow> d)
      in \<lparr>de_Reason = d_Reason d, de_Op = op, de_RetryAfter = wrap64 (d_RetryAfterSec d * Second)\<rparr>)"

definition finishRegister :: "err_text \<Rightarrow> Frame \<Rightarrow> stream \<Rightarrow> (cerr + string) \<times> stream" where
  "finishRegister tx frame st =
     (if f_Type frame = KindRegisterOK then
        (case DecodePayload Unmarshal_RegisterOK frame of
           Inl e \<Rightarrow> (Inl (cerr_plain (''decode RegisterOK: '' @ et_frame tx e)), st)
         | Inr ok \<Rightarrow> (Inr (rok_Hostname ok), st))
      else if f_Type frame = KindDeny then (Inl (cerr_of_deny (deny_error ''register'' frame)), st)
      else (Inl (cerr_plain (''unexpected frame type '' @ et_quote tx (f_Type frame))), st))"

definition answerChallenge ::
  "err_text \<Rightarrow> (bytes \<Rightarrow> bytes) \<Rightarrow> Frame \<Rightarrow> stream \<Rightarrow> (cerr + string) \<times> stream" where
  "answerChallenge tx sign frame st =
     (case DecodePayload Unmarshal_Challenge frame of
        Inl e \<Rightarrow> (Inl (cerr_plain (''decode Challenge: '' @ et_frame tx e)), st)
      | Inr ch \<Rightarrow>
          (case DecodeString (c_Nonce ch) of
             None \<Rightarrow> (Inl (cerr_plain (''decode nonce: '' @ et_base64 tx (c_Nonce ch))), st)
           | Some nonce \<Rightarrow>
               (case WriteMessage st KindProof (MProof \<lparr>p_Sig = EncodeToString (sign (ProofSigningPayload nonce))\<rparr>) of
                  (Some e, st1) \<Rightarrow> (Inl (cerr_plain (''write Proof: '' @ et_frame tx e)), st1)
                | (None, st1) \<Rightarrow>
                    (case ReadFrame st1 of
                       (Inl e, st2) \<Rightarrow> (Inl (cerr_plain (''read post-Proof response: '' @ et_frame tx e)), st2)
                     | (Inr f, st2) \<Rightarrow> finishRegister tx f st2))))"

definition registerWithServer ::
  "err_text \<Rightarrow> (bytes \<Rightarrow> bytes) \<Rightarrow> bytes \<Rightarrow> int \<Rightarrow> string \<Rightarrow> stream \<Rightarrow> (cerr + string) \<times> stream" where
  "registerWithServer tx sign pub now unique st =
     (case WriteMessage st KindRegister
             (MRegister \<lparr>r_Version = ProtoVersion, r_Unique = unique, r_Pubkey = EncodeToString pub, r_Timestamp = now,
                         r_Sig = EncodeToString (sign (RegisterSigningPayload pub unique now))\<rparr>) of
        (Some e, st1) \<Rightarrow> (Inl (cerr_plain (''write Register: '' @ et_frame tx e)), st1)
      | (None, st1) \<Rightarrow>
          (case ReadFrame st1 of
             (Inl e, st2) \<Rightarrow> (Inl (cerr_plain (''read response: '' @ et_frame tx e)), st2)
           | (Inr frame, st2) \<Rightarrow>
               if f_Type frame = KindChallenge then answerChallenge tx sign frame st2
               else finishRegister tx frame st2))"

section \<open>Sessions\<close>

text \<open>A session: of its connection only the control stream is modelled.\<close>

record Session =
  ses_hostname :: string
  ses_unique :: string
  ses_registeredAt :: gotime
  ses_priv :: "(bytes \<Rightarrow> bytes) option"
  ses_ctrl :: "stream option"

text \<open>\<open>Session.Deregister\<close> at the Unix time \<open>ts\<close>; \<open>cancelled\<close> is \<open>ctx.Err()\<close> after a failed read.\<close>

definition Session_Deregister :: "err_text \<Rightarrow> int \<Rightarrow> string option \<Rightarrow> Session \<Rightarrow> cerr option \<times> Session" where
  "Session_Deregister tx ts cancelled s =
     (case (ses_priv s, ses_ctrl s) of
        (Some sign, Some st) \<Rightarrow>
          (case WriteMessage st KindDeregister
                  (MDeregister \<lparr>dr_Unique = ses_unique s, dr_Timestamp = ts,
                                dr_Sig = EncodeToString (sign (DeregisterSigningPayload (ses_unique s) ts))\<rparr>) of
             (Some e, st1) \<Rightarrow> (Some (cerr_plain (''write Deregister: '' @ et_frame tx e)), s\<lparr>ses_ctrl := Some st1\<rparr>)
           | (None, st1) \<Rightarrow>
               (case ReadFrame st1 of
                  (Inl e, st2) \<Rightarrow>
                    (Some (cerr_plain (''read Deregister response: '' @ (case cancelled of None \<Rightarrow> et_frame tx e | Some c \<Rightarrow> c))), s\<lparr>ses_ctrl := Some st2\<rparr>)
                | (Inr f, st2) \<Rightarrow>
                    (if f_Type f = KindDeregisterOK then None
                     else if f_Type f = KindDeny then Some (cerr_of_deny (deny_error ''deregister'' f))
                     else Some (cerr_plain (''unexpected frame '' @ et_quote tx (f_Type f) @ '' in Deregister response'')),
                     s\<lparr>ses_ctrl := Some st2\<rparr>)))
      | _ \<Rightarrow> (Some (cerr_plain ''tunnelclient: session is not Deregister-capable (was it built outside Connect?)''), s))"

text \<open>
  \<open>Serve\<close> by what ends it first: the context, the session, or the HTTP server with an error, if any, and whether that error only says
  that the server or the session was shut down.
\<close>

datatype serve_end = ServeCtx | ServeClosed | ServeReturned "(string \<times> bool) option"

fun Serve :: "serve_end \<Rightarrow> string option" where
  "Serve (ServeReturned (Some (err, shutdown))) = (if \<not> shutdown then Some (''http serve: '' @ err) else None)"
| "Serve _ = None"

section \<open>Connect\<close>

text \<open>
  The options of one connection, the parts of the parsed server URL, and what the network calls return in the order of the code, given what they are
  called with: the address and the timeout, the server name, the path.  In \<open>cp_ServerName\<close>, \<open>None\<close> is a nil TLS configuration.
\<close>

record connect_opts =
  cp_Unique :: string
  cp_PrivateKey :: "(bytes \<Rightarrow> bytes) option"
  cp_ServerName :: "string option"
  cp_DialTimeout :: duration

record server_url =
  su_Scheme :: string
  su_Host :: string
  su_Hostname :: string
  su_Path :: string

record dial_env =
  de_url :: "server_url result"
  de_dial :: "string \<Rightarrow> duration \<Rightarrow> string option"
  de_handshake :: "string \<Rightarrow> string option"
  de_build :: "string \<Rightarrow> string option"
  de_write :: "string option"
  de_read :: "string option"
  de_status :: int
  de_statusText :: string
  de_body :: string
  de_upgrade :: string
  de_yamux :: "string option"
  de_open :: "string option"
  de_now :: gotime

definition dial_addr :: "server_url \<Rightarrow> string" where
  "dial_addr u = (if Contains (su_Host u) '':'' then su_Host u else su_Host u @ '':443'')"

definition TrimRight_slash :: "string \<Rightarrow> string" where
  "TrimRight_slash s = rev (dropWhile (\<lambda>c. c = CHR ''/'') (rev s))"

definition connect_path :: "server_url \<Rightarrow> string" where
  "connect_path u = TrimRight_slash (su_Path u) @ ''/v1/connect''"

definition dial_name :: "connect_opts \<Rightarrow> server_url \<Rightarrow> string" where
  "dial_name opts u = (case cp_ServerName opts of None \<Rightarrow> su_Hostname u | Some n \<Rightarrow> if n = [] then su_Hostname u else n)"

definition dial_timeout :: "connect_opts \<Rightarrow> duration" where
  "dial_timeout opts = (if cp_DialTimeout opts = 0 then 30 * Second else cp_DialTimeout opts)"

text \<open>\<open>pub\<close> is the public half of the key, \<open>now\<close> the Unix time of the Register, \<open>st\<close> the control stream.\<close>

definition Connect ::
  "err_text \<Rightarrow> connect_opts \<Rightarrow> bytes \<Rightarrow> int \<Rightarrow> dial_env \<Rightarrow> stream \<Rightarrow> (cerr + Session) \<times> stream" where
  "Connect tx opts pub now de st =
     (case cp_PrivateKey opts of
        None \<Rightarrow> (Inl (cerr_plain ''tunnelclient: PrivateKey required''), st)
      | Some sign \<Rightarrow>
          (case ValidateUnique (et_quote tx) (cp_Unique opts) of
             Some e \<Rightarrow> (Inl (cerr_plain e), st)
           | None \<Rightarrow>
               (case de_url de of
                  Inl e \<Rightarrow> (Inl (cerr_plain (''parse ServerURL: '' @ e)), st)
                | Inr u \<Rightarrow>
                    let dial = de_dial de (dial_addr u) (dial_timeout opts);
                        handshake = de_handshake de (dial_name opts u);
                        build = de_build de (connect_path u)
                    in
                    if su_Scheme u \<noteq> ''https''
                    then (Inl (cerr_plain (''ServerURL must use https:// (got '' @ et_quote tx (su_Scheme u) @ '')'')), st)
                    else if dial \<noteq> None then (Inl (cerr_plain (''dial: '' @ the dial)), st)
                    else if handshake \<noteq> None then (Inl (cerr_plain (''tls handshake: '' @ the handshake)), st)
                    else if build \<noteq> None then (Inl (cerr_plain (''build request: '' @ the build)), st)
                    else if de_write de \<noteq> None then (Inl (cerr_plain (''write request: '' @ the (de_write de))), st)
                    else if de_read de \<noteq> None then (Inl (cerr_plain (''read response: '' @ the (de_read de))), st)
                    else if de_status de \<noteq> 101
                    then (Inl (cerr_plain (''expected 101, got '' @ de_statusText de @ '': '' @ take 4096 (de_body de))), st)
                    else if \<not> EqualFold (de_upgrade de) UpgradeProtocol
                    then (Inl (cerr_plain (''server upgraded to '' @ et_quote tx (de_upgrade de) @ '', expected '' @ et_quote tx UpgradeProtocol)), st)
                    else if de_yamux de \<noteq> None then (Inl (cerr_plain (''yamux client: '' @ the (de_yamux de))), st)
                    else if de_open de \<noteq> None then (Inl (cerr_plain (''open control stream: '' @ the (de_open de))), st)
                    else
                      (case registerWithServer tx sign pub now (cp_Unique opts) st of
                         (Inl e, st1) \<Rightarrow> (Inl (cerr_wrap ''register: '' e), st1)
                       | (Inr h, st1) \<Rightarrow>
                           (Inr \<lparr>ses_hostname = h, ses_unique = cp_Unique opts, ses_registeredAt = de_now de, ses_priv = Some sign, ses_ctrl = Some st1\<rparr>,
                            st1)))))"

section \<open>The reconnect loop\<close>

text \<open>\<open>backoffDuration\<close>: \<open>n\<close> iterations of the loop are left; the product wraps like Go's \<open>int64\<close>.\<close>

fun backoff_from :: "nat \<Rightarrow> duration \<Rightarrow> duration \<Rightarrow> duration" where
  "backoff_from 0 mx d = d"
| "backoff_from (Suc n) mx d = (let d' = wrap64 (d * 2) in if d' \<ge> mx then mx else backoff_from n mx d')"

definition backoffDuration :: "int \<Rightarrow> duration \<Rightarrow> duration \<Rightarrow> duration" where
  "backoffDuration attempt mn mx = backoff_from (nat (max attempt 1 - 1)) mx mn"

text \<open>The payloads of \<open>events.go\<close>; the first argument of \<open>EvFatal\<close> is the optional reason.\<close>

datatype event =
    EvStarting string string
  | EvConnecting string int
  | EvRegisterOK string string
  | EvRelabel string string
  | EvDisconnected string
  | EvReconnecting int int
  | EvDeregisterOK string
  | EvError string bool
  | EvFatal string string int

record run_opts =
  ro_Unique :: string
  ro_ServerURL :: string
  ro_BackoffMin :: duration
  ro_BackoffMax :: duration
  ro_RateLimitFloor :: duration
  ro_MaxAttempts :: int

datatype session_end = CtxDone "cerr option" | ServeDone "string option"

text \<open>
  One round: what \<open>Connect\<close> returned, whether the context was cancelled by then, how the session
  ended, and whether the sleep ran to its end.
\<close>

record round_env =
  rd_connect :: "cerr + string"
  rd_cancelled :: bool
  rd_end :: session_end
  rd_slept :: bool

text \<open>\<open>sleepCtx\<close>: whether the context is already cancelled, and whether the timer fires before it is.\<close>

definition sleepCtx :: "duration \<Rightarrow> bool \<Rightarrow> bool \<Rightarrow> bool" where
  "sleepCtx d cancelled fired = (if d \<le> 0 then \<not> cancelled else fired)"

datatype run_result = ReturnedNil | ReturnedErr cerr | Running

definition or_default :: "duration \<Rightarrow> duration \<Rightarrow> duration" where
  "or_default d dflt = (if d \<le> 0 then dflt else d)"

definition retry_delay :: "run_opts \<Rightarrow> int \<Rightarrow> cerr \<Rightarrow> duration" where
  "retry_delay ro attempt err =
     (let delay = backoffDuration attempt (or_default (ro_BackoffMin ro) Second) (or_default (ro_BackoffMax ro) (30 * Second));
          floor = or_default (ro_RateLimitFloor ro) (5 * Minute)
      in case ce_deny err of
           None \<Rightarrow> delay
         | Some d \<Rightarrow>
             if \<not> IsRateLimit d then delay
             else if de_RetryAfter d > 0 then de_RetryAfter d
             else if delay < floor then floor else delay)"

text \<open>\<open>int(delay / time.Millisecond)\<close>: truncated division.\<close>

definition to_ms :: "duration \<Rightarrow> int" where
  "to_ms d = sgn d * (\<bar>d\<bar> div 1000000)"

definition run_permanent :: "cerr \<Rightarrow> event option" where
  "run_permanent err =
     (if (case ce_deny err of Some d \<Rightarrow> DenyError_IsPermanent d | None \<Rightarrow> False)
      then Some (EvFatal [] (''permanent server deny: '' @ ce_msg err) 1)
      else if isPermanentTLSError (Some err) then Some (EvFatal [] (''permanent TLS error: '' @ ce_msg err) 1)
      else None)"

text \<open>One iteration: the events, and how \<open>Run\<close> returns or the attempt number it goes on with.\<close>

definition run_round :: "run_opts \<Rightarrow> int \<Rightarrow> round_env \<Rightarrow> event list \<times> (run_result + int)" where
  "run_round ro attempt rd =
     (let ev0 = [EvConnecting (ro_ServerURL ro) attempt] in
      case rd_connect rd of
        Inl err \<Rightarrow>
          if rd_cancelled rd then (ev0, Inl ReturnedNil)
          else
            (case run_permanent err of
               Some ev \<Rightarrow> (ev0 @ [ev], Inl (ReturnedErr err))
             | None \<Rightarrow>
                 (let ev1 = ev0 @ [EvError (ce_msg err) True] in
                  if ro_MaxAttempts ro > 0 \<and> attempt \<ge> ro_MaxAttempts ro
                  then (ev1 @ [EvFatal [] (''gave up after '' @ Itoa attempt @ '' attempts: '' @ ce_msg err) 1],
                        Inl (ReturnedErr err))
                  else (ev1 @ [EvReconnecting (to_ms (retry_delay ro attempt err)) (attempt + 1)],
                        if rd_slept rd then Inr (attempt + 1) else Inl ReturnedNil)))
      | Inr host \<Rightarrow>
          (let ev1 = ev0 @ [EvRegisterOK host (ro_Unique ro)] in
           case rd_end rd of
             CtxDone der \<Rightarrow>
               (ev1 @ [case der of None \<Rightarrow> EvDeregisterOK (ro_Unique ro) | Some e \<Rightarrow> EvError (''deregister: '' @ ce_msg e) False],
                Inl ReturnedNil)
           | ServeDone reason \<Rightarrow>
               (ev1 @ [EvDisconnected (case reason of None \<Rightarrow> ''session closed'' | Some e \<Rightarrow> e),
                       EvReconnecting (to_ms (backoffDuration 1 (or_default (ro_BackoffMin ro) Second)
                                                (or_default (ro_BackoffMax ro) (30 * Second)))) 2],
                if rd_slept rd then Inr 2 else Inl ReturnedNil)))"

fun run_loop :: "run_opts \<Rightarrow> int \<Rightarrow> round_env list \<Rightarrow> event list \<times> run_result" where
  "run_loop ro attempt [] = ([], Running)"
| "run_loop ro attempt (rd # rds) =
     (case run_round ro attempt rd of
        (evs, Inl res) \<Rightarrow> (evs, res)
      | (evs, Inr attempt') \<Rightarrow> (let (evs', res) = run_loop ro attempt' rds in (evs @ evs', res)))"

definition Run :: "run_opts \<Rightarrow> round_env list \<Rightarrow> event list \<times> run_result" where
  "Run ro rds =
     (let (evs, res) = run_loop ro 1 rds in (EvStarting (ro_Unique ro) (ro_ServerURL ro) # evs, res))"

section \<open>Specification and sample run\<close>

fun is_fatal :: "event \<Rightarrow> bool" where
  "is_fatal (EvFatal _ _ _) = True"
| "is_fatal _ = False"

text \<open>The attempt numbers, and the delays.\<close>

definition attempt_ok :: "run_opts \<Rightarrow> int \<Rightarrow> bool" where
  "attempt_ok ro a \<longleftrightarrow> 1 \<le> a \<and> (0 < ro_MaxAttempts ro \<longrightarrow> a \<le> max 2 (ro_MaxAttempts ro))"

definition hinted :: "round_env \<Rightarrow> int \<Rightarrow> bool" where
  "hinted rd ms \<longleftrightarrow> (\<exists>e d. rd_connect rd = Inl e \<and> ce_deny e = Some d \<and> IsRateLimit d \<and> 0 < de_RetryAfter d \<and> ms = to_ms (de_RetryAfter d))"

definition demo_text :: err_text where
  "demo_text = \<lparr>et_quote = (\<lambda>s. [CHR 0x22] @ s @ [CHR 0x22]), et_frame = (\<lambda>_. ''control: EOF''), et_base64 = (\<lambda>_. ''illegal base64 data'')\<rparr>"

definition demo_opts :: run_opts where
  "demo_opts = \<lparr>ro_Unique = ''app'', ro_ServerURL = ''https://ex.com'', ro_BackoffMin = 0, ro_BackoffMax = 0, ro_RateLimitFloor = 0, ro_MaxAttempts = 2\<rparr>"

definition demo_rounds :: "round_env list" where
  "demo_rounds =
     [\<lparr>rd_connect = Inl (cerr_plain ''dial: refused''), rd_cancelled = False, rd_end = ServeDone None, rd_slept = True\<rparr>,
      \<lparr>rd_connect = Inl (cerr_plain ''dial: refused''), rd_cancelled = False, rd_end = ServeDone None, rd_slept = True\<rparr>]"

section \<open>Backoff\<close>

lemma backoff_from_exact:
  assumes "0 < d" "d < 2 ^ 62" "mx < 2 ^ 62"
  shows "backoff_from n mx d = (if n = 0 then d else min mx (d * 2 ^ n))"
  using assms(1,2)
proof (induction n arbitrary: d)
  case (Suc n)
  have w: "wrap64 (d * 2) = d * 2" using Suc.prems by (intro wrap64_id) auto
  show ?case
  proof (cases "d * 2 \<ge> mx")
    case True
    have "d * 2 * 1 \<le> d * 2 * 2 ^ n" using Suc.prems by (intro mult_left_mono) auto
    then show ?thesis using True w by (simp add: min_def)
  next
    case False
    then show ?thesis using Suc.IH [of "d * 2"] Suc.prems assms(3) w by (auto simp: mult.assoc Let_def)
  qed
qed simp

lemma backoffDuration_exact:
  assumes "0 < mn" "mn < 2 ^ 62" "mx < 2 ^ 62"
  shows "backoffDuration a mn mx = (if a \<le> 1 then mn else min mx (mn * 2 ^ nat (a - 1)))"
  using backoff_from_exact [OF assms] by (auto simp: backoffDuration_def max_def)

lemma backoffDuration_bounds:
  assumes "0 < mn" "mn \<le> mx" "mx < 2 ^ 62"
  shows "mn \<le> backoffDuration a mn mx" "backoffDuration a mn mx \<le> mx"
proof -
  have "mn * 1 \<le> mn * 2 ^ nat (a - 1)" using assms(1) by (intro mult_left_mono) auto
  then show "mn \<le> backoffDuration a mn mx" "backoffDuration a mn mx \<le> mx"
    using backoffDuration_exact [of mn mx a] assms by (auto simp: min_def)
qed

lemma to_ms_mono: "0 \<le> a \<Longrightarrow> a \<le> b \<Longrightarrow> to_ms a \<le> to_ms b"
  by (auto simp: to_ms_def sgn_if intro: zdiv_mono1)

lemma run_permanent_fatal: "run_permanent e = Some ev \<Longrightarrow> is_fatal ev"
  by (auto simp: run_permanent_def split: if_splits)

lemma run_permanent_only [simp]: "run_permanent e \<noteq> Some (EvConnecting u b)" "run_permanent e \<noteq> Some (EvReconnecting ms b)"
  by (auto simp: run_permanent_def)

lemma run_round_fatal:
  "run_round ro a rd = (evs, r) \<Longrightarrow>
     (if \<exists>e. r = Inl (ReturnedErr e) then is_fatal (last evs) \<and> evs \<noteq> [] \<and> (\<forall>x\<in>set (butlast evs). \<not> is_fatal x)
      else \<forall>x\<in>set evs. \<not> is_fatal x)"
  by (auto simp: run_round_def Let_def split: sum.splits option.splits if_splits session_end.splits dest: run_permanent_fatal)

lemma run_round_Running: "run_round ro a rd = (evs, r) \<Longrightarrow> r \<noteq> Inl Running"
  by (auto simp: run_round_def Let_def split: sum.splits option.splits if_splits session_end.splits)

lemma run_loop_fatal:
  "run_loop ro a rds = (evs, res) \<Longrightarrow>
     (if \<exists>e. res = ReturnedErr e then is_fatal (last evs) \<and> evs \<noteq> [] \<and> (\<forall>x\<in>set (butlast evs). \<not> is_fatal x)
      else \<forall>x\<in>set evs. \<not> is_fatal x)"
proof (induction rds arbitrary: a evs res)
  case (Cons rd rds)
  obtain ev r where R: "run_round ro a rd = (ev, r)" by fastforce
  show ?case
  proof (cases r)
    case (Inl res')
    then show ?thesis using run_round_fatal [OF R] Cons.prems R by auto
  next
    case (Inr a')
    obtain evs' res' where L: "run_loop ro a' rds = (evs', res')" by fastforce
    then have "evs = ev @ evs'" "res = res'" using Cons.prems R Inr by auto
    then show ?thesis using run_round_fatal [OF R] Cons.IH [OF L] Inr by (auto simp: butlast_append)
  qed
qed simp

lemma retry_delay_bound:
  assumes "0 < mn" "mn \<le> mx" "mx < 2 ^ 62" "mn = or_default (ro_BackoffMin ro) Second" "mx = or_default (ro_BackoffMax ro) (30 * Second)"
  shows "mn \<le> retry_delay ro a e \<or> (\<exists>d. ce_deny e = Some d \<and> IsRateLimit d \<and> 0 < de_RetryAfter d \<and> retry_delay ro a e = de_RetryAfter d)"
  using backoffDuration_bounds(1) [OF assms(1-3), of a] unfolding retry_delay_def assms(4,5)
  by (auto simp: Let_def split: option.splits)

lemma run_round_attempts:
  assumes "run_round ro a rd = (evs, r)" "attempt_ok ro a"
    and o: "0 < mn" "mn \<le> mx" "mx < 2 ^ 62" "mn = or_default (ro_BackoffMin ro) Second" "mx = or_default (ro_BackoffMax ro) (30 * Second)"
  shows "(\<forall>a'. r = Inr a' \<longrightarrow> attempt_ok ro a') \<and> (\<forall>url b. EvConnecting url b \<in> set evs \<longrightarrow> attempt_ok ro b)
    \<and> (\<forall>ms b. EvReconnecting ms b \<in> set evs \<longrightarrow> to_ms mn \<le> ms \<or> hinted rd ms)"
proof -
  have d: "to_ms mn \<le> to_ms (backoffDuration 1 mn mx)" using backoffDuration_bounds(1) [OF o(1-3)] o(1) by (intro to_ms_mono) auto
  have e: "to_ms mn \<le> to_ms (retry_delay ro a e) \<or> hinted rd (to_ms (retry_delay ro a e))" if "rd_connect rd = Inl e" for e
    using retry_delay_bound [OF o, of a e] to_ms_mono [of mn "retry_delay ro a e"] o(1) that by (auto simp: hinted_def)
  show ?thesis
    using assms(1,2) d e unfolding run_round_def Let_def o(4,5)
    by (auto simp: attempt_ok_def le_max_iff_disj split: sum.splits option.splits if_splits session_end.splits)
qed

lemma run_loop_attempts:
  assumes o: "0 < mn" "mn \<le> mx" "mx < 2 ^ 62" "mn = or_default (ro_BackoffMin ro) Second" "mx = or_default (ro_BackoffMax ro) (30 * Second)"
  shows "run_loop ro a rds = (evs, res) \<Longrightarrow> attempt_ok ro a \<Longrightarrow>
     (\<forall>url b. EvConnecting url b \<in> set evs \<longrightarrow> attempt_ok ro b)
   \<and> (\<forall>ms b. EvReconnecting ms b \<in> set evs \<longrightarrow> to_ms mn \<le> ms \<or> (\<exists>rd\<in>set rds. hinted rd ms))"
proof (induction rds arbitrary: a evs res)
  case (Cons rd rds)
  obtain ev r where R: "run_round ro a rd = (ev, r)" by fastforce
  note rr = run_round_attempts [OF R Cons.prems(2) o]
  show ?case
  proof (cases r)
    case (Inl res')
    then show ?thesis using rr Cons.prems R by auto
  next
    case (Inr a')
    obtain evs' res' where L: "run_loop ro a' rds = (evs', res')" by fastforce
    then have "evs = ev @ evs'" using Cons.prems R Inr by auto
    then show ?thesis using rr Cons.IH [OF L] Inr by auto
  qed
qed simp



end
