(* ===== verification/Client_Server.thy ===== *)
theory Client_Server
  imports Connect Client Router
begin

text \<open>
  The two ends of the control protocol run against each other: the client's \<open>registerWithServer\<close> and the
  server's \<open>handleRegister\<close> and \<open>admitSession\<close>, each reading what the other one wrote.
\<close>

section \<open>Lemmas\<close>

lemma WriteMessage_open:
  assumes "s_cap w = None" "length (frame_bytes m) \<le> MaxFrameBytes + 4"
  shows "WriteMessage w (kind_of m) m = (None, w\<lparr>s_out := s_out w @ frame_bytes m\<rparr>)"
proof -
  obtain e w' where W: "WriteMessage w (kind_of m) m = (e, w')" by fastforce
  note c = WriteMessage_cases [OF W]
  have "s_cap w' = None"
    using W assms(1) by (auto simp: WriteMessage_def WriteFrame_def stream_Write_def split: option.splits if_splits)
  then have "w' = w\<lparr>s_out := s_out w @ frame_bytes m\<rparr>" using c assms by (cases w; cases w') auto
  then show ?thesis using W c assms by auto
qed

lemma frame_bytes_RegisterOK_small:
  "length h \<le> 400 \<Longrightarrow> length (frame_bytes (MRegisterOK \<lparr>rok_Hostname = h\<rparr>)) \<le> MaxFrameBytes + 4"
  using length_json_string [of h]
  by (simp add: frame_bytes_def json_object_def json_member_def KindRegisterOK_def MaxFrameBytes_def
      json_string_def json_esc_ascii json_esc_Nil json_ascii_def)

lemma frame_bytes_Deny_small:
  "length r \<le> 400 \<Longrightarrow> length (frame_bytes (MDeny \<lparr>d_Reason = r, d_RetryAfterSec = 0\<rparr>)) \<le> MaxFrameBytes + 4"
  using length_json_string [of r]
  by (simp add: frame_bytes_def json_object_def json_member_def KindDeny_def MaxFrameBytes_def
      json_string_def json_esc_ascii json_esc_Nil json_ascii_def)

lemma finishRegister_OK:
  assumes "length h \<le> 400" "valid_utf8 h"
  shows "finishRegister tx \<lparr>f_Type = kind_of (MRegisterOK \<lparr>rok_Hostname = h\<rparr>), f_Payload = json_Marshal (MRegisterOK \<lparr>rok_Hostname = h\<rparr>)\<rparr> st
    = (Inr h, st)"
  using DecodePayload_msgs(4) [of "\<lparr>rok_Hostname = h\<rparr>"] assms(2)
  by (simp add: finishRegister_def del: json_Marshal.simps)

lemma finishRegister_Deny:
  assumes "valid_utf8 r" "int64 n"
  shows "finishRegister tx \<lparr>f_Type = kind_of (MDeny \<lparr>d_Reason = r, d_RetryAfterSec = n\<rparr>), f_Payload = json_Marshal (MDeny \<lparr>d_Reason = r, d_RetryAfterSec = n\<rparr>)\<rparr> st
    = (Inl (cerr_of_deny \<lparr>de_Reason = r, de_Op = ''register'', de_RetryAfter = wrap64 (n * Second)\<rparr>), st)"
  using DecodePayload_msgs(6) [of "\<lparr>d_Reason = r, d_RetryAfterSec = n\<rparr>" "KindDeny"] assms
  by (simp add: finishRegister_def deny_error_def KindDeny_def KindRegisterOK_def del: json_Marshal.simps)

text \<open>The client, told the outcome at once.\<close>

lemma client_told:
  assumes "length (frame_bytes (MRegister (register_msg pub (sign (RegisterSigningPayload pub u ts)) u ts))) \<le> MaxFrameBytes + 4"
    "length (frame_bytes m) \<le> MaxFrameBytes + 4" "kind_of m \<noteq> KindChallenge"
  shows "registerWithServer tx sign pub ts u \<lparr>s_in = frame_bytes m @ rest, s_out = [], s_cap = None\<rparr>
    = finishRegister tx \<lparr>f_Type = kind_of m, f_Payload = json_Marshal m\<rparr>
        \<lparr>s_in = rest, s_out = frame_bytes (MRegister (register_msg pub (sign (RegisterSigningPayload pub u ts)) u ts)), s_cap = None\<rparr>"
proof -
  let ?m = "MRegister (register_msg pub (sign (RegisterSigningPayload pub u ts)) u ts)" and ?in = "frame_bytes m @ rest"
  have W: "WriteMessage \<lparr>s_in = ?in, s_out = [], s_cap = None\<rparr> (kind_of ?m) ?m = (None, \<lparr>s_in = ?in, s_out = frame_bytes ?m, s_cap = None\<rparr>)"
    using WriteMessage_open [OF _ assms(1), of "\<lparr>s_in = ?in, s_out = [], s_cap = None\<rparr>"] by simp
  have R: "ReadFrame \<lparr>s_in = ?in, s_out = frame_bytes ?m, s_cap = None\<rparr>
      = (Inr \<lparr>f_Type = kind_of m, f_Payload = json_Marshal m\<rparr>, \<lparr>s_in = rest, s_out = frame_bytes ?m, s_cap = None\<rparr>)"
    using ReadFrame_frame_bytes [OF assms(2), of "\<lparr>s_in = ?in, s_out = frame_bytes ?m, s_cap = None\<rparr>" rest] by simp
  show ?thesis using W R assms(3) by (simp add: registerWithServer_def register_msg_def)
qed

text \<open>A proof that does not verify under the stored key: the challenge, then the refusal, and no change of state.\<close>

lemma registerReclaim_mismatch:
  assumes "re_nonce env = Some nonce" "length nonce = 32" "s_cap st = None"
    "s_in st = frame_bytes (MProof \<lparr>p_Sig = EncodeToString psig\<rparr>) @ rest" "length psig = 64"
    "\<not> re_verify env (e_Pubkey x) (ProofSigningPayload nonce) psig"
  shows "registerReclaim env reg pub x sv st =
      (None, sv, st\<lparr>s_in := rest, s_out := s_out st @ frame_bytes (MChallenge \<lparr>c_Nonce = EncodeToString nonce\<rparr>)
        @ frame_bytes (MDeny \<lparr>d_Reason = ''key_mismatch'', d_RetryAfterSec = 0\<rparr>)\<rparr>)"
proof -
  let ?c = "MChallenge \<lparr>c_Nonce = EncodeToString nonce\<rparr>" and ?p = "MProof \<lparr>p_Sig = EncodeToString psig\<rparr>"
    and ?d = "MDeny \<lparr>d_Reason = ''key_mismatch'', d_RetryAfterSec = 0\<rparr>"
  let ?st1 = "st\<lparr>s_out := s_out st @ frame_bytes ?c\<rparr>"
  have W: "WriteMessage st (kind_of ?c) ?c = (None, ?st1)"
    using frame_bytes_Challenge_small [of nonce] assms(2,3) by (intro WriteMessage_open) simp_all
  have R: "ReadFrame ?st1 = (Inr \<lparr>f_Type = kind_of ?p, f_Payload = json_Marshal ?p\<rparr>, ?st1\<lparr>s_in := rest\<rparr>)"
    using frame_bytes_Proof_small [of psig] assms(4,5) by (intro ReadFrame_frame_bytes) simp_all
  have D: "DecodePayload Unmarshal_Proof \<lparr>f_Type = kind_of ?p, f_Payload = json_Marshal ?p\<rparr> = Inr \<lparr>p_Sig = EncodeToString psig\<rparr>"
    by (rule DecodePayload_msgs) (simp add: valid_utf8_ascii EncodeToString_ascii)
  have W2: "WriteMessage (?st1\<lparr>s_in := rest\<rparr>) (kind_of ?d) ?d = (None, ?st1\<lparr>s_in := rest, s_out := s_out ?st1 @ frame_bytes ?d\<rparr>)"
    using WriteMessage_open [OF _ frame_bytes_Deny_small [of "''key_mismatch''"], of "?st1\<lparr>s_in := rest\<rparr>"] assms(3) by simp
  show ?thesis
    using W R D W2 assms
    by (simp add: registerReclaim_def SignatureSize_def denied_def sendDeny_def del: json_Marshal.simps)
qed

text \<open>The client that is challenged and then refused: it signs the nonce with its own key and reports the refusal.\<close>

lemma registerWithServer_challenged:
  assumes "length (frame_bytes (MRegister (register_msg pub (sign (RegisterSigningPayload pub u ts)) u ts))) \<le> MaxFrameBytes + 4"
    "length nonce = 32" "length (sign (ProofSigningPayload nonce)) = 64" "length r \<le> 400" "valid_utf8 r"
  shows "registerWithServer tx sign pub ts u
      \<lparr>s_in = frame_bytes (MChallenge \<lparr>c_Nonce = EncodeToString nonce\<rparr>) @ frame_bytes (MDeny \<lparr>d_Reason = r, d_RetryAfterSec = 0\<rparr>),
       s_out = [], s_cap = None\<rparr>
    = (Inl (cerr_of_deny \<lparr>de_Reason = r, de_Op = ''register'', de_RetryAfter = 0\<rparr>),
       \<lparr>s_in = [], s_out = frame_bytes (MRegister (register_msg pub (sign (RegisterSigningPayload pub u ts)) u ts))
          @ frame_bytes (MProof \<lparr>p_Sig = EncodeToString (sign (ProofSigningPayload nonce))\<rparr>), s_cap = None\<rparr>)"
proof -
  let ?m = "MRegister (register_msg pub (sign (RegisterSigningPayload pub u ts)) u ts)"
  let ?c = "MChallenge \<lparr>c_Nonce = EncodeToString nonce\<rparr>" and ?d = "MDeny \<lparr>d_Reason = r, d_RetryAfterSec = 0\<rparr>"
    and ?p = "MProof \<lparr>p_Sig = EncodeToString (sign (ProofSigningPayload nonce))\<rparr>"
  let ?s = "\<lparr>s_in = frame_bytes ?c @ frame_bytes ?d, s_out = [], s_cap = None\<rparr>"
  have W1: "WriteMessage ?s (kind_of ?m) ?m = (None, ?s\<lparr>s_out := frame_bytes ?m\<rparr>)"
    using WriteMessage_open [OF _ assms(1), of ?s] by simp
  have R1: "ReadFrame (?s\<lparr>s_out := frame_bytes ?m\<rparr>)
      = (Inr \<lparr>f_Type = kind_of ?c, f_Payload = json_Marshal ?c\<rparr>, ?s\<lparr>s_out := frame_bytes ?m, s_in := frame_bytes ?d\<rparr>)"
    using ReadFrame_frame_bytes [OF frame_bytes_Challenge_small [of nonce], of "?s\<lparr>s_out := frame_bytes ?m\<rparr>" "frame_bytes ?d"] assms(2) by simp
  have D: "DecodePayload Unmarshal_Challenge \<lparr>f_Type = kind_of ?c, f_Payload = json_Marshal ?c\<rparr> = Inr \<lparr>c_Nonce = EncodeToString nonce\<rparr>"
    by (rule DecodePayload_msgs) (simp add: valid_utf8_ascii EncodeToString_ascii)
  have W2: "WriteMessage (?s\<lparr>s_out := frame_bytes ?m, s_in := frame_bytes ?d\<rparr>) (kind_of ?p) ?p
      = (None, ?s\<lparr>s_out := frame_bytes ?m @ frame_bytes ?p, s_in := frame_bytes ?d\<rparr>)"
    using WriteMessage_open [OF _ frame_bytes_Proof_small [of "sign (ProofSigningPayload nonce)"],
        of "?s\<lparr>s_out := frame_bytes ?m, s_in := frame_bytes ?d\<rparr>"] assms(3) by simp
  have R2: "ReadFrame (?s\<lparr>s_out := frame_bytes ?m @ frame_bytes ?p, s_in := frame_bytes ?d\<rparr>)
      = (Inr \<lparr>f_Type = kind_of ?d, f_Payload = json_Marshal ?d\<rparr>, ?s\<lparr>s_out := frame_bytes ?m @ frame_bytes ?p, s_in := []\<rparr>)"
    using ReadFrame_frame_bytes [OF frame_bytes_Deny_small [OF assms(4)],
        of "?s\<lparr>s_out := frame_bytes ?m @ frame_bytes ?p, s_in := frame_bytes ?d\<rparr>" "[]"] by simp
  have F: "finishRegister tx \<lparr>f_Type = kind_of ?d, f_Payload = json_Marshal ?d\<rparr> st
      = (Inl (cerr_of_deny \<lparr>de_Reason = r, de_Op = ''register'', de_RetryAfter = 0\<rparr>), st)" for st
    using finishRegister_Deny [OF assms(5), of 0 tx st] by (simp add: wrap64_def del: json_Marshal.simps)
  show ?thesis
    using W1 R1 D W2 R2 F
    by (simp add: registerWithServer_def answerChallenge_def register_msg_def del: json_Marshal.simps)
qed

section \<open>Properties\<close>

text \<open>
  A client registers a new name end to end.  Let the client's signatures be correct (64 bytes, verifying
  under its key), the name well shaped, free and not connected, the clocks in step, the key allowed, the
  limits not exhausted and the certificate obtainable.  Then the exchange succeeds on both sides:
  fed with exactly the bytes the client writes, the server claims the name for the key, enters the
  session and replies; fed with exactly the bytes the server writes, the client returns the host
  name \<open>{unique}-tunnel.{apex}\<close>.
\<close>

theorem client_registers:
  assumes "quiet env" "ValidateUnique (re_quote env) u = None" "length pub = 32" "\<forall>m. length (sign m) = 64"
    "\<forall>m. re_verify env pub m (sign m)" "int64 ts" "\<not> clockSkewed (re_now env P_now) ts"
    "peer = None \<or> peer = Some pub" "\<forall>a. sv_allow sv = Some a \<longrightarrow> Allow_Contains a pub"
    "fst (lim_Allow (re_rnd env P_ip) (re_now env P_ip) (sv_ip sv) (ip_key addr))"
    "owner_of (sv_store sv) u = None" "fst (lim_Allow (re_rnd env P_pub) (re_now env P_pub) (sv_pub sv) pub)"
    "\<not> re_gone env" "fst (re_ensure env (sv_cert sv) (TunnelLabel u)) = None"
    "reg_get (sv_reg sv) (TunnelLabel u) = None" "length apex \<le> 300" "is_ascii apex"
  shows "\<exists>c2s s2c res sv1 st1 sv2 st2.
      handleRegister env peer addr sv \<lparr>s_in = c2s, s_out = [], s_cap = None\<rparr> = (Some res, sv1, st1)
    \<and> admitSession env apex sess res sv1 st1 = (Some True, sv2, st2) \<and> s_out st2 = s2c \<and> s_in st2 = []
    \<and> owner_of (sv_store sv2) u = Some pub \<and> reg_get (sv_reg sv2) (TunnelLabel u) = Some sess
    \<and> registerWithServer tx sign pub ts u \<lparr>s_in = s2c, s_out = [], s_cap = None\<rparr>
        = (Inr (TunnelLabel u @ ''.'' @ apex), \<lparr>s_in = [], s_out = c2s, s_cap = None\<rparr>)"
proof -
  let ?sig = "sign (RegisterSigningPayload pub u ts)"
  let ?m = "register_msg pub ?sig u ts" and ?h = "TunnelLabel u @ ''.'' @ apex"
  let ?c2s = "frame_bytes (MRegister ?m)" and ?s2c = "frame_bytes (MRegisterOK \<lparr>rok_Hostname = ?h\<rparr>)"
  let ?st = "\<lparr>s_in = ?c2s, s_out = [], s_cap = None\<rparr>"
  have sl: "length ?sig = 64" using assms(4) by blast
  note wf = register_msg_wf [OF assms(2,3) sl assms(6)]
  from register_free [OF assms(1) _ assms(2,3) sl assms(6,7) assms(5) [rule_format] assms(8-14), of ?st "[]"]
  obtain sv1 where H: "handleRegister env peer addr sv ?st = (Some (result_of ?m True pub), sv1, ?st\<lparr>s_in := []\<rparr>)"
    and o: "owner_of (sv_store sv1) u = Some pub" by auto
  have k: "keeps env (\<lambda>r. r = sv_reg sv)" using assms(1) by (simp add: keeps_def quiet_def)
  have r: "sv_reg sv1 = sv_reg sv" using handleRegister_keeps [OF k H] by simp
  have y: "re_yield env p s = s" for p s using assms(1) by (simp add: quiet_def)
  let ?res = "result_of ?m True pub"
  have lab: "rr_label ?res = TunnelLabel u" "rr_pubkey ?res = pub" by (simp_all add: result_of_def register_msg_def)
  obtain r' where A: "reg_add (re_quote env) (sv_reg sv1) (TunnelLabel u) pub sess = Inr r'"
    using assms(15) r by (auto simp: reg_add_def reg_get_def Let_def)
  have u: "length u \<le> 54" "is_ascii u" using ValidateUnique_shape(1) [OF assms(2)] ValidateUnique_ascii [OF assms(2)] by auto
  have hl: "length ?h \<le> 400" "valid_utf8 ?h"
    using u assms(16,17) by (auto simp: TunnelLabel_def is_ascii_def intro!: valid_utf8_ascii)
  have W: "WriteMessage (?st\<lparr>s_in := []\<rparr>) KindRegisterOK (MRegisterOK \<lparr>rok_Hostname = ?h\<rparr>) = (None, \<lparr>s_in = [], s_out = ?s2c, s_cap = None\<rparr>)"
    using WriteMessage_open [OF _ frame_bytes_RegisterOK_small [OF hl(1)], of "?st\<lparr>s_in := []\<rparr>"] by simp
  have D: "admitSession env apex sess ?res sv1 (?st\<lparr>s_in := []\<rparr>) = (Some True, sv1\<lparr>sv_reg := r'\<rparr>, \<lparr>s_in = [], s_out = ?s2c, s_cap = None\<rparr>)"
    using A W by (simp add: admitSession_def y lab)
  have g: "reg_get r' (TunnelLabel u) = Some sess" using reg_add_sessions [OF A] by (simp add: reg_get_def)
  have W1: "WriteMessage \<lparr>s_in = ?s2c, s_out = [], s_cap = None\<rparr> KindRegister (MRegister ?m) = (None, \<lparr>s_in = ?s2c, s_out = ?c2s, s_cap = None\<rparr>)"
    using WriteMessage_open [OF _ wf(2), of "\<lparr>s_in = ?s2c, s_out = [], s_cap = None\<rparr>"] by simp
  have R1: "ReadFrame \<lparr>s_in = ?s2c, s_out = ?c2s, s_cap = None\<rparr>
      = (Inr \<lparr>f_Type = kind_of (MRegisterOK \<lparr>rok_Hostname = ?h\<rparr>), f_Payload = json_Marshal (MRegisterOK \<lparr>rok_Hostname = ?h\<rparr>)\<rparr>, \<lparr>s_in = [], s_out = ?c2s, s_cap = None\<rparr>)"
    using ReadFrame_frame_bytes [OF frame_bytes_RegisterOK_small [OF hl(1)], of "\<lparr>s_in = ?s2c, s_out = ?c2s, s_cap = None\<rparr>" "[]"] by simp
  have C: "registerWithServer tx sign pub ts u \<lparr>s_in = ?s2c, s_out = [], s_cap = None\<rparr> = (Inr ?h, \<lparr>s_in = [], s_out = ?c2s, s_cap = None\<rparr>)"
    using W1 R1 finishRegister_OK [OF hl, of tx]
    by (simp add: registerWithServer_def register_msg_def KindRegisterOK_def KindChallenge_def del: json_Marshal.simps)
  show ?thesis using H D o g C by (intro exI conjI) (assumption | simp)+
qed

theorem client_registers_witness:
  "\<exists>c2s s2c res sv1 st1 sv2 st2.
      handleRegister (demo_env_reg (1700000000 * Second)) None ''10.0.0.1:5555'' demo_server \<lparr>s_in = c2s, s_out = [], s_cap = None\<rparr> = (Some res, sv1, st1)
    \<and> admitSession (demo_env_reg (1700000000 * Second)) ''ex.com'' 7 res sv1 st1 = (Some True, sv2, st2) \<and> s_out st2 = s2c \<and> s_in st2 = []
    \<and> owner_of (sv_store sv2) ''app'' = Some demo_pub \<and> reg_get (sv_reg sv2) (TunnelLabel ''app'') = Some 7
    \<and> registerWithServer demo_text (\<lambda>_. demo_sig) demo_pub 1700000000 ''app'' \<lparr>s_in = s2c, s_out = [], s_cap = None\<rparr>
        = (Inr (TunnelLabel ''app'' @ ''.'' @ ''ex.com''), \<lparr>s_in = [], s_out = c2s, s_cap = None\<rparr>)"
proof -
  let ?env = "demo_env_reg (1700000000 * Second)"
  have "owner_of (sv_store demo_server) ''app'' = None" "\<not> re_gone ?env" "int64 1700000000"
    "fst (re_ensure ?env (sv_cert demo_server) (TunnelLabel ''app'')) = None"
    "reg_get (sv_reg demo_server) (TunnelLabel ''app'') = None" "is_ascii ''ex.com''"
    by (simp_all add: demo_server_def demo_env_reg_def owner_of_def reg_get_def newRegistry_def is_ascii_def)
  then show ?thesis using demo_facts(1,5) by (intro client_registers) (simp_all add: demo_facts)
qed

text \<open>
  C29: the shipped client cannot take over a name held by another key.  Let signatures by the client's
  key verify under that key only.  When the name belongs to another key, the two ends run into each
  other as follows: the server challenges, the client signs the nonce with the key it registers
  with, the server refuses with \<open>key_mismatch\<close> and keeps the owner, and the client reports a refusal
  that its retry loop treats as permanent.  So the accepting branch of the challenge is never
  reached by this client, whatever nonce is drawn.
\<close>

theorem client_cannot_reclaim:
  fixes env :: "'c reg_env"
  assumes "quiet env" "ValidateUnique (re_quote env) u = None" "length pub = 32" "\<forall>m. length (sign m) = 64"
    "re_verify env pub (RegisterSigningPayload pub u ts) (sign (RegisterSigningPayload pub u ts))"
    "\<forall>k m. re_verify env k m (sign m) \<longrightarrow> k = pub" "int64 ts" "\<not> clockSkewed (re_now env P_now) ts"
    "peer = None \<or> peer = Some pub" "\<forall>a. sv_allow sv = Some a \<longrightarrow> Allow_Contains a pub"
    "fst (lim_Allow (re_rnd env P_ip) (re_now env P_ip) (sv_ip sv) (ip_key addr))"
    "owner_of (sv_store sv) u = Some owner" "owner \<noteq> pub" "re_nonce env = Some nonce" "length nonce = 32"
  shows "\<exists>c2s s2c sv' d.
      handleRegister env peer addr sv \<lparr>s_in = c2s, s_out = [], s_cap = None\<rparr> = (None, sv', \<lparr>s_in = [], s_out = s2c, s_cap = None\<rparr>)
    \<and> registerWithServer tx sign pub ts u \<lparr>s_in = s2c, s_out = [], s_cap = None\<rparr>
        = (Inl (cerr_of_deny d), \<lparr>s_in = [], s_out = c2s, s_cap = None\<rparr>)
    \<and> sv_store sv' = sv_store sv \<and> sv_reg sv' = sv_reg sv
    \<and> de_Reason d = ''key_mismatch'' \<and> DenyError_IsPermanent d"
proof -
  let ?sig = "sign (RegisterSigningPayload pub u ts)" and ?psig = "sign (ProofSigningPayload nonce)"
  let ?m = "register_msg pub ?sig u ts" and ?p = "frame_bytes (MProof \<lparr>p_Sig = EncodeToString ?psig\<rparr>)"
    and ?d = "\<lparr>de_Reason = ''key_mismatch'', de_Op = ''register'', de_RetryAfter = 0\<rparr>"
  let ?c2s = "frame_bytes (MRegister ?m) @ ?p" and ?s2c = "frame_bytes (MChallenge \<lparr>c_Nonce = EncodeToString nonce\<rparr>)
        @ frame_bytes (MDeny \<lparr>d_Reason = ''key_mismatch'', d_RetryAfterSec = 0\<rparr>)"
  let ?st = "\<lparr>s_in = ?c2s, s_out = [], s_cap = None\<rparr>"
  have sl: "length ?sig = 64" "length ?psig = 64" using assms(4) by blast+
  note wf = register_msg_wf [OF assms(2,3) sl(1) assms(7)]
  have y: "re_yield env p s = s" "re_fault env p = None" for p s using assms(1) by (auto simp: quiet_def)
  obtain l where l: "lim_Allow (re_rnd env P_ip) (re_now env P_ip) (sv_ip sv) (ip_key addr) = (True, l)"
    using assms(11) by (metis prod.collapse)
  have H: "handleRegister env peer addr sv ?st = registerLookup env (ip_key addr) ?m pub (sv\<lparr>sv_ip := l\<rparr>) (?st\<lparr>s_in := ?p\<rparr>)"
    using handleRegister_honest [OF _ assms(2,3) sl(1) assms(7,8,5,9), of ?st ?p] l y by simp
  obtain r where r: "map_of (sv_store sv) u = Some r" "row_pubkey r = owner" using assms(12) by (auto simp: owner_of_def)
  have nv: "\<not> re_verify env (e_Pubkey (to_entry u r)) (ProofSigningPayload nonce) ?psig"
    using assms(6,13) r by (auto simp: to_entry_def)
  have R: "registerReclaim env ?m pub (to_entry u r) (sv\<lparr>sv_ip := l\<rparr>) (?st\<lparr>s_in := ?p\<rparr>)
      = (None, sv\<lparr>sv_ip := l\<rparr>, \<lparr>s_in = [], s_out = ?s2c, s_cap = None\<rparr>)"
    using registerReclaim_mismatch [OF assms(14,15) _ _ sl(2) nv, of "?st\<lparr>s_in := ?p\<rparr>" "[]"] by simp
  have "\<not> (case sv_allow sv of None \<Rightarrow> False | Some a \<Rightarrow> \<not> Allow_Contains a pub)"
    using assms(10) by (auto split: option.splits)
  then have L: "registerLookup env (ip_key addr) ?m pub (sv\<lparr>sv_ip := l\<rparr>) (?st\<lparr>s_in := ?p\<rparr>)
      = (None, sv\<lparr>sv_ip := l\<rparr>, \<lparr>s_in = [], s_out = ?s2c, s_cap = None\<rparr>)"
    using R r assms(13) y by (simp add: registerLookup_def Store_Get_def register_msg_def to_entry_def)
  have u: "valid_utf8 ''key_mismatch''" by (intro valid_utf8_ascii) (simp add: is_ascii_def)
  have C: "registerWithServer tx sign pub ts u \<lparr>s_in = ?s2c, s_out = [], s_cap = None\<rparr>
        = (Inl (cerr_of_deny ?d), \<lparr>s_in = [], s_out = ?c2s, s_cap = None\<rparr>)"
    by (rule registerWithServer_challenged [OF wf(2) assms(15) sl(2) _ u]) simp
  show ?thesis
    using H L C
    by (intro exI [of _ ?c2s] exI [of _ ?s2c] exI [of _ "sv\<lparr>sv_ip := l\<rparr>"] exI [of _ ?d])
      (simp add: DenyError_IsPermanent_def)
qed

theorem client_cannot_reclaim_witness:
  "\<exists>c2s s2c sv' d.
      handleRegister ((demo_env_reg (1700000000 * Second))\<lparr>re_verify := (\<lambda>k _ s. k = demo_pub \<and> s = demo_sig)\<rparr>) None ''10.0.0.1:5555''
        (demo_server\<lparr>sv_store := [(''app'', \<lparr>row_pubkey = demo_old, row_created = 0, row_last = 0\<rparr>)]\<rparr>)
        \<lparr>s_in = c2s, s_out = [], s_cap = None\<rparr> = (None, sv', \<lparr>s_in = [], s_out = s2c, s_cap = None\<rparr>)
    \<and> registerWithServer demo_text (\<lambda>_. demo_sig) demo_pub 1700000000 ''app'' \<lparr>s_in = s2c, s_out = [], s_cap = None\<rparr>
        = (Inl (cerr_of_deny d), \<lparr>s_in = [], s_out = c2s, s_cap = None\<rparr>)
    \<and> de_Reason d = ''key_mismatch'' \<and> DenyError_IsPermanent d"
proof -
  let ?e = "demo_env_reg (1700000000 * Second)"
  let ?env = "?e\<lparr>re_verify := (\<lambda>k _ s. k = demo_pub \<and> s = demo_sig)\<rparr>"
    and ?sv = "demo_server\<lparr>sv_store := [(''app'', \<lparr>row_pubkey = demo_old, row_created = 0, row_last = 0\<rparr>)]\<rparr>"
  have e: "quiet ?env" "ValidateUnique (re_quote ?env) ''app'' = None" "\<not> clockSkewed (re_now ?env P_now) 1700000000"
    "fst (lim_Allow (re_rnd ?env P_ip) (re_now ?env P_ip) (sv_ip ?sv) (ip_key ''10.0.0.1:5555''))"
    "re_nonce ?env = Some (replicate 32 CHR ''n'')"
    using demo_facts(1,5,9) demo_facts(2) [of "1700000000 * Second"] by (simp_all add: quiet_def demo_env_reg_def)
  have "owner_of (sv_store ?sv) ''app'' = Some demo_old" "demo_old \<noteq> demo_pub" "int64 1700000000" "sv_allow ?sv = None"
    by (simp_all add: owner_of_def demo_old_def demo_pub_def demo_server_def)
  then show ?thesis
    using client_cannot_reclaim [of ?env "''app''" demo_pub "\<lambda>_. demo_sig" 1700000000 None ?sv "''10.0.0.1:5555''" demo_old
        "replicate 32 CHR ''n''" demo_text] e demo_facts(3,4) by fastforce
qed

end
