(* ===== verification/Go_OS.thy ===== *)
theory Go_OS
  imports Prelude Go_Encoding "HOL-Library.Word"
begin

unbundle bit_operations_syntax

text \<open>
  The part of the packages \<open>os\<close>, \<open>path/filepath\<close>, \<open>encoding/base64\<close> and \<open>encoding/pem\<close> that the
  key files of the client and the certificate authority of the server use.  A disk is a map
  from paths to files; what can go wrong in a call is an argument of that call.
\<close>

section \<open>Files\<close>

type_synonym fmode = "9 word"

text \<open>The octal modes 0600 and 0644.\<close>

definition mode600 :: fmode where "mode600 = 0x180"
definition mode644 :: fmode where "mode644 = 0x1A4"

record dfile =
  fl_data :: bytes
  fl_mode :: fmode

type_synonym disk = "(string, dfile) gomap"

datatype os_err = ErrNotExist | OSError string

primrec os_msg :: "os_err \<Rightarrow> string" where
  "os_msg ErrNotExist = ''file does not exist''"
| "os_msg (OSError e) = e"

definition ReadFile :: "string option \<Rightarrow> disk \<Rightarrow> string \<Rightarrow> os_err + bytes" where
  "ReadFile flt d p =
     (case flt of
        Some e \<Rightarrow> Inl (OSError e)
      | None \<Rightarrow> (case map_of d p of None \<Rightarrow> Inl ErrNotExist | Some f \<Rightarrow> Inr (fl_data f)))"

text \<open>\<open>os.Stat(p)\<close> returned without an error.\<close>

definition Stat_ok :: "string option \<Rightarrow> disk \<Rightarrow> string \<Rightarrow> bool" where
  "Stat_ok flt d p \<longleftrightarrow> flt = None \<and> map_of d p \<noteq> None"

text \<open>
  \<open>os.WriteFile\<close>: an existing file keeps its mode, a new one gets \<open>perm\<close> less the umask.  A
  fault before the file is opened changes nothing, a fault while writing leaves a prefix.
\<close>

datatype wfault = NotOpened string | Interrupted string nat

definition WriteFile :: "fmode \<Rightarrow> wfault option \<Rightarrow> disk \<Rightarrow> string \<Rightarrow> bytes \<Rightarrow> fmode \<Rightarrow> string option \<times> disk" where
  "WriteFile umask flt d p data perm =
     (let m = (case map_of d p of None \<Rightarrow> perm AND NOT umask | Some f \<Rightarrow> fl_mode f)
      in case flt of
           None \<Rightarrow> (None, AList.update p \<lparr>fl_data = data, fl_mode = m\<rparr> d)
         | Some (NotOpened e) \<Rightarrow> (Some e, d)
         | Some (Interrupted e n) \<Rightarrow> (Some e, AList.update p \<lparr>fl_data = take n data, fl_mode = m\<rparr> d))"

definition Chmod :: "string option \<Rightarrow> disk \<Rightarrow> string \<Rightarrow> fmode \<Rightarrow> string option \<times> disk" where
  "Chmod flt d p m =
     (case flt of
        Some e \<Rightarrow> (Some e, d)
      | None \<Rightarrow> (case map_of d p of
                   None \<Rightarrow> (Some (os_msg ErrNotExist), d)
                 | Some f \<Rightarrow> (None, AList.update p (f\<lparr>fl_mode := m\<rparr>) d)))"

definition Remove :: "string option \<Rightarrow> disk \<Rightarrow> string \<Rightarrow> os_err option \<times> disk" where
  "Remove flt d p =
     (case flt of
        Some e \<Rightarrow> (Some (OSError e), d)
      | None \<Rightarrow> (case map_of d p of None \<Rightarrow> (Some ErrNotExist, d) | Some _ \<Rightarrow> (None, AList.delete p d)))"

text \<open>\<open>os.Rename\<close> replaces the target as a whole.\<close>

definition Rename :: "string option \<Rightarrow> disk \<Rightarrow> string \<Rightarrow> string \<Rightarrow> string option \<times> disk" where
  "Rename flt d p q =
     (case flt of
        Some e \<Rightarrow> (Some e, d)
      | None \<Rightarrow> (case map_of d p of
                   None \<Rightarrow> (Some (os_msg ErrNotExist), d)
                 | Some f \<Rightarrow> (None, AList.update q f (AList.delete p d))))"

section \<open>Paths\<close>

text \<open>\<open>filepath.Clean\<close> on Unix, over the components of the path; the accumulator is reversed.\<close>

fun clean_step :: "bool \<Rightarrow> string list \<Rightarrow> string \<Rightarrow> string list" where
  "clean_step rooted st c =
     (if c = [] \<or> c = ''.'' then st
      else if c = ''..'' then
        (case st of
           [] \<Rightarrow> if rooted then [] else [''..'']
         | x # xs \<Rightarrow> if x = ''..'' then ''..'' # st else xs)
      else c # st)"

definition Clean :: "string \<Rightarrow> string" where
  "Clean p =
     (if p = [] then ''.''
      else
        (let rooted = HasPrefix p ''/'';
             body = Join (rev (foldl (clean_step rooted) [] (Split p (CHR ''/'')))) ''/''
         in if rooted then ''/'' @ body else if body = [] then ''.'' else body))"

text \<open>\<open>filepath.Join\<close>: empty elements are ignored; nothing but empty elements gives the empty path.\<close>

definition filepath_Join :: "string list \<Rightarrow> string" where
  "filepath_Join elems =
     (let es = filter (\<lambda>e. e \<noteq> []) elems in if es = [] then [] else Clean (Join es ''/''))"

text \<open>A file name: one component that is neither empty nor a relative step.\<close>

definition plain_name :: "string \<Rightarrow> bool" where
  "plain_name x \<longleftrightarrow> CHR ''/'' \<notin> set x \<and> x \<notin> {[], ''.'', ''..''}"

text \<open>
  For the proofs: the components of a path (reversed), which are a stack on which \<open>clean_step\<close> has nothing more to
  do, and what stands before a file name in a directory.
\<close>

definition components :: "string \<Rightarrow> string list" where
  "components p = foldl (clean_step (HasPrefix p ''/'')) [] (Split p (CHR ''/''))"

definition clean_stack :: "bool \<Rightarrow> string list \<Rightarrow> bool" where
  "clean_stack r st \<longleftrightarrow> (\<forall>c\<in>set st. c \<noteq> [] \<and> c \<noteq> ''.'' \<and> CHR ''/'' \<notin> set c) \<and> foldl (clean_step r) [] (rev st) = st"

definition dir_prefix :: "string \<Rightarrow> string" where
  "dir_prefix dir =
     (if dir = [] then []
      else (if HasPrefix dir ''/'' then ''/'' else [])
           @ (if components dir = [] then [] else Join (rev (components dir)) ''/'' @ ''/''))"

section \<open>Padded base64\<close>

definition StdEncodeToString :: "bytes \<Rightarrow> string" where
  "StdEncodeToString b = (let s = EncodeToString b in s @ replicate ((4 - length s mod 4) mod 4) (CHR ''=''))"

text \<open>
  \<open>StdEncoding.DecodeString\<close>: carriage returns and newlines are skipped everywhere; the last group
  has to be filled up to four characters, and nothing but skipped characters may follow.
\<close>

definition StdDecodeString :: "string \<Rightarrow> bytes option" where
  "StdDecodeString s =
     (let t = filter (\<lambda>c. c \<noteq> CHR 0x0A \<and> c \<noteq> CHR 0x0D) s;
          u = takeWhile (\<lambda>c. c \<noteq> CHR ''='') t
      in if dropWhile (\<lambda>c. c \<noteq> CHR ''='') t = replicate ((4 - length u mod 4) mod 4) (CHR ''='')
         then DecodeString u else None)"

section \<open>Keys and PEM\<close>

text \<open>
  What \<open>x509.ParsePKCS8PrivateKey\<close> returns: a key of one of the types the sources ask for, or a key of
  another type, with its name and whether it is a \<open>crypto.Signer\<close>.
\<close>

datatype 'k anykey = Ed25519Key 'k | EcdsaKey 'k | OtherKey string bool

primrec type_name :: "'k anykey \<Rightarrow> string" where
  "type_name (Ed25519Key _) = ''ed25519.PrivateKey''"
| "type_name (EcdsaKey _) = ''*ecdsa.PrivateKey''"
| "type_name (OtherKey t _) = t"

primrec is_signer :: "'k anykey \<Rightarrow> bool" where
  "is_signer (Ed25519Key _) = True"
| "is_signer (EcdsaKey _) = True"
| "is_signer (OtherKey _ s) = s"

text \<open>
  The codecs of \<open>encoding/pem\<close> and \<open>crypto/x509\<close>, as far as they are called here.  \<open>kk_pem_Decode\<close> gives the
  type and the bytes of the first block and what follows it.
\<close>

record 'k keykit =
  kk_pem_Decode :: "bytes \<Rightarrow> (string \<times> bytes \<times> bytes) option"
  kk_pem_Encode :: "string \<Rightarrow> bytes \<Rightarrow> bytes"
  kk_Parse8 :: "bytes \<Rightarrow> 'k anykey result"
  kk_Marshal8 :: "'k anykey \<Rightarrow> bytes result"

text \<open>What the two packages document: an encoded block decodes to itself, a marshalled key parses back.\<close>

definition pem_roundtrip :: "('k, 'z) keykit_scheme \<Rightarrow> bool" where
  "pem_roundtrip kk \<longleftrightarrow> (\<forall>t b. kk_pem_Decode kk (kk_pem_Encode kk t b) = Some (t, b, []))"

definition key_roundtrip :: "('k, 'z) keykit_scheme \<Rightarrow> bool" where
  "key_roundtrip kk \<longleftrightarrow> (\<forall>k der. kk_Marshal8 kk k = Inr der \<longrightarrow> kk_Parse8 kk der = Inr k)"

text \<open>A codec with these properties: type and bytes are framed by their lengths, a key by a tag.\<close>

definition frame :: "bytes \<Rightarrow> bytes" where
  "frame t = replicate (length t) (CHR ''x'') @ ''y'' @ t"

definition unframe :: "bytes \<Rightarrow> (bytes \<times> bytes) option" where
  "unframe b =
     (let n = length (takeWhile (\<lambda>c. c = CHR ''x'') b)
      in if drop n b = [] then None else Some (take n (drop (n + 1) b), drop n (drop (n + 1) b)))"

definition demo_kit :: "bytes keykit" where
  "demo_kit =
     \<lparr>kk_pem_Decode = (\<lambda>b. case unframe b of None \<Rightarrow> None
                              | Some (t, b1) \<Rightarrow> (case unframe b1 of None \<Rightarrow> None | Some (c, b2) \<Rightarrow> Some (t, c, b2))),
      kk_pem_Encode = (\<lambda>t b. frame t @ frame b),
      kk_Parse8 = (\<lambda>b. case b of c # cs \<Rightarrow> if c = CHR ''e'' then Inr (Ed25519Key cs) else if c = CHR ''c'' then Inr (EcdsaKey cs)
                                    else Inl ''unknown'' | [] \<Rightarrow> Inl ''empty''),
      kk_Marshal8 = (\<lambda>k. case k of Ed25519Key cs \<Rightarrow> Inr (CHR ''e'' # cs) | EcdsaKey cs \<Rightarrow> Inr (CHR ''c'' # cs) | OtherKey t s \<Rightarrow> Inl t)\<rparr>"

section \<open>Lemmas\<close>

lemma unframe_frame [simp]: "unframe (frame t @ r) = Some (t, r)"
proof -
  have "length (takeWhile (\<lambda>c. c = CHR ''x'') (replicate (length t) (CHR ''x'') @ CHR ''y'' # t @ r)) = length t"
    by (subst takeWhile_append2) auto
  then show ?thesis by (simp add: unframe_def frame_def Let_def)
qed

lemma unframe_shorter: "unframe b = Some (t, r) \<Longrightarrow> length r < length b"
  by (auto simp: unframe_def Let_def split: if_splits)

lemma demo_kit_decode [simp]: "kk_pem_Decode demo_kit (frame t @ frame b @ r) = Some (t, b, r)"
  by (simp add: demo_kit_def)

lemma demo_kit_ok: "pem_roundtrip demo_kit" "key_roundtrip demo_kit"
proof -
  have "kk_pem_Decode demo_kit (kk_pem_Encode demo_kit t b) = Some (t, b, [])" for t b
    using demo_kit_decode [of t b "[]"] by (simp add: demo_kit_def)
  then show "pem_roundtrip demo_kit" by (simp add: pem_roundtrip_def)
  show "key_roundtrip demo_kit" by (auto simp: key_roundtrip_def demo_kit_def split: anykey.splits)
qed

lemma WriteFile_other: "WriteFile u flt d p data perm = (e, d') \<Longrightarrow> q \<noteq> p \<Longrightarrow> map_of d' q = map_of d q"
  by (auto simp: WriteFile_def Let_def split: option.splits wfault.splits)

lemma WriteFile_ok:
  "WriteFile u flt d p data perm = (None, d') \<Longrightarrow>
     map_of d' p = Some \<lparr>fl_data = data, fl_mode = (case map_of d p of None \<Rightarrow> perm AND NOT u | Some f \<Rightarrow> fl_mode f)\<rparr>"
  by (auto simp: WriteFile_def Let_def split: option.splits wfault.splits)

lemma Chmod_other: "Chmod flt d p m = (e, d') \<Longrightarrow> q \<noteq> p \<Longrightarrow> map_of d' q = map_of d q"
  by (auto simp: Chmod_def split: option.splits)

lemma Remove_other: "Remove flt d p = (e, d') \<Longrightarrow> q \<noteq> p \<Longrightarrow> map_of d' q = map_of d q"
  by (auto simp: Remove_def split: option.splits)

lemma Rename_other: "Rename flt d p q = (e, d') \<Longrightarrow> r \<noteq> p \<Longrightarrow> r \<noteq> q \<Longrightarrow> map_of d' r = map_of d r"
  by (auto simp: Rename_def split: option.splits)

lemma EncodeToString_plain: "c \<in> set (EncodeToString b) \<Longrightarrow> c \<noteq> CHR ''='' \<and> c \<noteq> CHR 0x0A \<and> c \<noteq> CHR 0x0D"
proof -
  have "list_all (\<lambda>c. c \<noteq> CHR ''='' \<and> c \<noteq> CHR 0x0A \<and> c \<noteq> CHR 0x0D) b64_alphabet" by code_simp
  then show "c \<in> set (EncodeToString b) \<Longrightarrow> c \<noteq> CHR ''='' \<and> c \<noteq> CHR 0x0A \<and> c \<noteq> CHR 0x0D"
    using EncodeToString_chars [of b] by (auto simp: list_all_iff)
qed

lemma StdDecode_StdEncode [simp]: "StdDecodeString (StdEncodeToString b) = Some b"
proof -
  let ?s = "EncodeToString b" and ?p = "replicate ((4 - length (EncodeToString b) mod 4) mod 4) (CHR ''='')"
  have f: "filter (\<lambda>c. c \<noteq> CHR 0x0A \<and> c \<noteq> CHR 0x0D) (?s @ ?p) = ?s @ ?p"
    using EncodeToString_plain [of _ b] by (auto simp: filter_id_conv)
  have t: "takeWhile (\<lambda>c. c \<noteq> CHR ''='') (?s @ ?p) = ?s" "dropWhile (\<lambda>c. c \<noteq> CHR ''='') (?s @ ?p) = ?p"
    using EncodeToString_plain [of _ b] by (auto simp: takeWhile_append2 dropWhile_append2 takeWhile_eq_Nil_iff dropWhile_eq_self_iff)
  show ?thesis unfolding StdDecodeString_def StdEncodeToString_def Let_def f t by simp
qed

lemma StdEncode_graph: "list_all graph_char (StdEncodeToString b)"
proof -
  have p: "list_all graph_char (replicate n (CHR ''=''))" for n by (induction n) (simp_all add: graph_char_def)
  have "list_all graph_char (EncodeToString b)" using EncodeToString_graph [of b] by (rule list.pred_mono_strong) blast
  then show ?thesis unfolding StdEncodeToString_def Let_def list_all_append using p by blast
qed

lemma Split_append_sep: "Split (a @ c # b) c = Split a c @ Split b c"
  by (induction a) (auto split: list.splits)

lemma Join_snoc: "xs \<noteq> [] \<Longrightarrow> Join (xs @ [x]) s = Join xs s @ s @ x"
  by (induction xs s rule: Join.induct) auto

text \<open>
  A plain file name survives \<open>Clean\<close> as the end of the path, and what stands before it depends on the
  directory only.
\<close>

lemma Clean_dir:
  assumes "dir \<noteq> []" "plain_name x"
  shows "Clean (dir @ ''/'' @ x) = dir_prefix dir @ x"
proof -
  let ?r = "HasPrefix dir ''/''" and ?st = "rev (components dir)"
  have x: "Split x (CHR ''/'') = [x]" "clean_step b s x = x # s" for b s
    using assms(2) by (auto simp: plain_name_def intro: Split_free)
  have h: "HasPrefix (dir @ ''/'' @ x) ''/'' \<longleftrightarrow> ?r" using assms(1) by (cases dir) (auto simp: HasPrefix_def)
  have f: "rev (foldl (clean_step ?r) [] (Split (dir @ ''/'' @ x) (CHR ''/''))) = ?st @ [x]"
    using Split_append_sep [of dir "CHR ''/''" x] x by (simp add: components_def del: clean_step.simps)
  have J: "Join (?st @ [x]) ''/'' = (if components dir = [] then [] else Join ?st ''/'' @ ''/'') @ x"
    using Join_snoc [of ?st x "''/''"] by simp
  have "Join (?st @ [x]) ''/'' \<noteq> []" using assms(2) unfolding J by (auto simp: plain_name_def)
  then show ?thesis using assms(1) unfolding Clean_def Let_def h f by (simp add: J dir_prefix_def)
qed

lemma filepath_Join_dir: "plain_name x \<Longrightarrow> filepath_Join [dir, x] = dir_prefix dir @ x"
proof (cases "dir = []")
  case True
  assume x: "plain_name x"
  then have "Split x (CHR ''/'') = [x]" "\<not> HasPrefix x ''/''" by (auto simp: plain_name_def HasPrefix_iff intro: Split_free)
  then show ?thesis using True x by (simp add: filepath_Join_def Clean_def dir_prefix_def plain_name_def)
qed (use Clean_dir [of dir x] in \<open>simp add: filepath_Join_def plain_name_def\<close>)

lemma dir_prefix_end: "dir_prefix dir = [] \<or> last (dir_prefix dir) = CHR ''/''"
  by (simp add: dir_prefix_def)

text \<open>So files of one directory differ when their names do, and files with different names differ in any directories.\<close>

lemma filepath_Join_name:
  assumes "plain_name x" "plain_name y" "filepath_Join [dir, x] = filepath_Join [dir', y]"
  shows "x = y"
proof -
  define p q where "p = dir_prefix dir" and "q = dir_prefix dir'"
  have e: "p = [] \<or> last p = CHR ''/''" "q = [] \<or> last q = CHR ''/''" using dir_prefix_end by (simp_all add: p_def q_def)
  have "p @ x = q @ y" using assms by (simp add: filepath_Join_dir p_def q_def)
  moreover have "CHR ''/'' \<notin> set x" "CHR ''/'' \<notin> set y" using assms(1,2) by (simp_all add: plain_name_def)
  ultimately show ?thesis
  proof (induction x arbitrary: y rule: rev_induct)
    case Nil
    then show ?case using e(1) by (cases y rule: rev_cases) auto
  next
    case (snoc c x)
    then show ?case using e(2) by (cases y rule: rev_cases) auto
  qed
qed

lemma filepath_Join_ext:
  assumes "plain_name x" "plain_name (x @ e)"
  shows "filepath_Join [dir, x] @ e = filepath_Join [dir, x @ e]"
  using assms by (simp add: filepath_Join_dir)

lemma clean_stack_step:
  assumes "clean_stack r st" "CHR ''/'' \<notin> set c"
  shows "clean_stack r (clean_step r st c)"
proof -
  have f: "foldl (clean_step r) [] (rev st) = st" using assms(1) by (simp add: clean_stack_def)
  consider "c = [] \<or> c = ''.''" | "c = ''..''" "st = []" | xs where "c = ''..''" "st = ''..'' # xs"
    | x xs where "c = ''..''" "st = x # xs" "x \<noteq> ''..''" | "c \<notin> {[], ''.'', ''..''}"
    by (cases st) blast+
  then show ?thesis
  proof cases
    case (3 xs)
    have "foldl (clean_step r) [] (rev st @ [c]) = clean_step r st c" by (simp add: f del: clean_step.simps)
    then show ?thesis using 3 assms(1) by (simp add: clean_stack_def)
  next
    case (4 x xs)
    have x: "x \<noteq> []" "x \<noteq> ''.''" using assms(1) 4 by (auto simp: clean_stack_def)
    have "clean_step r (foldl (clean_step r) [] (rev xs)) x = x # xs" using f 4(2) by (simp del: clean_step.simps)
    then have "foldl (clean_step r) [] (rev xs) = xs" using x 4(3) by simp
    then show ?thesis using 4 assms(1) x by (simp add: clean_stack_def)
  next
    case 5
    then show ?thesis using f assms by (simp add: clean_stack_def)
  qed (use assms in \<open>auto simp: clean_stack_def\<close>)
qed

lemma clean_stack_fold: "(\<forall>c\<in>set cs. CHR ''/'' \<notin> set c) \<Longrightarrow> clean_stack r st \<Longrightarrow> clean_stack r (foldl (clean_step r) st cs)"
  by (induction cs arbitrary: st) (auto simp: clean_stack_step simp del: clean_step.simps)

lemma components_Clean:
  assumes "p \<noteq> []"
  shows "HasPrefix (Clean p) ''/'' \<longleftrightarrow> HasPrefix p ''/''" "components (Clean p) = components p"
proof -
  define r st where "r = HasPrefix p ''/''" and "st = components p"
  have "clean_stack r st" unfolding st_def components_def r_def
    by (rule clean_stack_fold) (auto simp: clean_stack_def dest: Split_parts_free)
  then have st: "\<forall>c\<in>set st. c \<noteq> [] \<and> c \<noteq> ''.'' \<and> CHR ''/'' \<notin> set c" "foldl (clean_step r) [] (rev st) = st"
    by (simp_all add: clean_stack_def)
  have C: "Clean p = (if r then ''/'' @ Join (rev st) ''/'' else if Join (rev st) ''/'' = [] then ''.'' else Join (rev st) ''/'')"
    using assms by (simp add: Clean_def r_def st_def components_def)
  have S: "Split (Join (rev st) ''/'') (CHR ''/'') = rev st" if "st \<noteq> []" using that st(1) by (intro Split_Join) auto
  have J: "Join (rev st) ''/'' \<noteq> [] \<and> \<not> HasPrefix (Join (rev st) ''/'') ''/''" if "st \<noteq> []"
  proof (cases "rev st")
    case (Cons c cs)
    then have "c \<noteq> []" "CHR ''/'' \<notin> set c" using st(1) by (metis list.set_intros(1) set_rev)+
    then show ?thesis using Cons by (cases c; cases cs) (auto simp: HasPrefix_def)
  qed (use that in simp)
  show h: "HasPrefix (Clean p) ''/'' \<longleftrightarrow> HasPrefix p ''/''"
    unfolding r_def [symmetric] using C J by (cases "st = []") (auto simp: HasPrefix_def)
  show "components (Clean p) = components p"
    unfolding components_def [of "Clean p"] h unfolding r_def [symmetric] st_def [symmetric]
    using C S J st(2) by (cases "st = []"; cases r) auto
qed

text \<open>Joining in two steps is joining at once.\<close>

lemma filepath_Join_nested:
  assumes "plain_name x" "\<exists>e\<in>set es. e \<noteq> []"
  shows "filepath_Join [filepath_Join es, x] = filepath_Join (es @ [x])"
proof -
  define es' A where "es' = filter (\<lambda>e. e \<noteq> []) es" and "A = Join es' ''/''"
  have ne: "es' \<noteq> []" using assms(2) by (auto simp: es'_def filter_empty_conv)
  have A: "A \<noteq> []"
  proof (cases es')
    case (Cons e r)
    then have "e \<in> set es'" by simp
    then have "e \<noteq> []" by (simp add: es'_def)
    then show ?thesis using Cons by (cases r) (auto simp: A_def)
  qed (use ne in simp)
  have C: "Clean A \<noteq> []" using A by (simp add: Clean_def Let_def)
  have j: "filepath_Join es = Clean A" using ne by (simp add: filepath_Join_def A_def es'_def [symmetric])
  have "filepath_Join (es @ [x]) = Clean (A @ ''/'' @ x)"
    using assms(1) Join_snoc [OF ne, of x "''/''"] by (simp add: filepath_Join_def plain_name_def es'_def [symmetric] A_def)
  also have "\<dots> = dir_prefix (Clean A) @ x"
    using Clean_dir [OF A assms(1)] components_Clean [OF A] A C by (simp add: dir_prefix_def)
  finally show ?thesis using filepath_Join_dir [OF assms(1)] j by simp
qed

end
