(* ===== verification/Cert_Disk.thy ===== *)
theory Cert_Disk
  imports Cert_Manager Go_OS
begin

text \<open>
  The state directory of the certificate manager (\<open>internal/cert/manager.go\<close>): the account with the certificate authority, the
  files of the issued certificates, and \<open>obtain\<close>, the order of one certificate.  The ACME client (package lego) is the record
  \<open>lego\<close>; the codecs of the account files are the record \<open>acct_kit\<close>, with what they promise in \<open>acct_roundtrip\<close>.
\<close>

section \<open>Paths\<close>

definition leProduction :: string where
  "leProduction = ''https://acme-v02.api.letsencrypt.org/directory''"

definition leStaging :: string where
  "leStaging = ''https://acme-staging-v02.api.letsencrypt.org/directory''"

text \<open>The fields of \<open>Manager\<close> that say where things are.\<close>

record site =
  st_StateDir :: string
  st_Email :: string
  st_CADirURL :: string

definition SetStaging :: "site \<Rightarrow> site" where
  "SetStaging m = m\<lparr>st_CADirURL := leStaging\<rparr>"

definition accountDir :: "site \<Rightarrow> string" where
  "accountDir m =
     (let caHost = (if st_CADirURL m = leStaging then ''acme-staging-v02.api.letsencrypt.org'' else ''acme-v02.api.letsencrypt.org'')
      in filepath_Join [st_StateDir m, ''lego'', ''accounts'', caHost, st_Email m])"

definition certDir :: "site \<Rightarrow> string" where
  "certDir m = filepath_Join [st_StateDir m, ''lego'', ''certificates'']"

definition accountFiles :: "site \<Rightarrow> string \<times> string" where
  "accountFiles m = (filepath_Join [accountDir m, ''account.key''], filepath_Join [accountDir m, ''account.json''])"

section \<open>The account\<close>

record ('k, 'r) acmeUser =
  au_Email :: string
  au_Registration :: "'r option"
  au_key :: 'k

text \<open>\<open>encoding/pem\<close>, the EC key functions of \<open>crypto/x509\<close>, and the JSON of the registration.\<close>

record ('k, 'r) acct_kit =
  ak_pem_Decode :: "bytes \<Rightarrow> (string \<times> bytes \<times> bytes) option"
  ak_pem_Encode :: "string \<Rightarrow> bytes \<Rightarrow> bytes"
  ak_ParseEC :: "bytes \<Rightarrow> 'k result"
  ak_MarshalEC :: "'k \<Rightarrow> bytes result"
  ak_Unmarshal :: "bytes \<Rightarrow> 'r option result"
  ak_MarshalIndent :: "'r option \<Rightarrow> bytes result"

definition acct_roundtrip :: "('k, 'r) acct_kit \<Rightarrow> bool" where
  "acct_roundtrip kit \<longleftrightarrow>
     (\<forall>t b. ak_pem_Decode kit (ak_pem_Encode kit t b) = Some (t, b, []))
   \<and> (\<forall>k der. ak_MarshalEC kit k = Inr der \<longrightarrow> ak_ParseEC kit der = Inr k)
   \<and> (\<forall>r data. ak_MarshalIndent kit r = Inr data \<longrightarrow> ak_Unmarshal kit data = Inr r)"

text \<open>How the calls of the operating system and of the key generator end.\<close>

record 'k acct_env =
  an_read_key :: "string option"
  an_generate :: "'k result"
  an_write_key :: "wfault option"
  an_read_meta :: "string option"
  an_write_meta :: "wfault option"
  an_umask :: fmode

text \<open>The key of the account: read, or created and written.\<close>

definition account_key :: "('k, 'r) acct_kit \<Rightarrow> 'k acct_env \<Rightarrow> string \<Rightarrow> disk \<Rightarrow> 'k result \<times> disk" where
  "account_key kit env keyPath d =
     (case ReadFile (an_read_key env) d keyPath of
        Inr data \<Rightarrow>
          (case ak_pem_Decode kit data of
             None \<Rightarrow> (Inl ''account key: not PEM'', d)
           | Some (_, block, _) \<Rightarrow>
               (case ak_ParseEC kit block of
                  Inl e \<Rightarrow> (Inl (''parse account key: '' @ e), d)
                | Inr k \<Rightarrow> (Inr k, d)))
      | Inl (OSError e) \<Rightarrow> (Inl (''read account key: '' @ e), d)
      | Inl ErrNotExist \<Rightarrow>
          (case an_generate env of
             Inl e \<Rightarrow> (Inl (''gen account key: '' @ e), d)
           | Inr k \<Rightarrow>
               (case ak_MarshalEC kit k of
                  Inl e \<Rightarrow> (Inl (''marshal account key: '' @ e), d)
                | Inr der \<Rightarrow>
                    (case WriteFile (an_umask env) (an_write_key env) d keyPath (ak_pem_Encode kit ''EC PRIVATE KEY'' der) mode600 of
                       (Some e, d1) \<Rightarrow> (Inl (''write account key: '' @ e), d1)
                     | (None, d1) \<Rightarrow> (Inr k, d1)))))"

definition loadOrCreateUser ::
  "('k, 'r) acct_kit \<Rightarrow> 'k acct_env \<Rightarrow> site \<Rightarrow> disk \<Rightarrow> ('k, 'r) acmeUser result \<times> disk" where
  "loadOrCreateUser kit env m d =
     (let (keyPath, metaPath) = accountFiles m in
      case account_key kit env keyPath d of
        (Inl e, d1) \<Rightarrow> (Inl e, d1)
      | (Inr priv, d1) \<Rightarrow>
          (let user = \<lparr>au_Email = st_Email m, au_Registration = None, au_key = priv\<rparr> in
           case ReadFile (an_read_meta env) d1 metaPath of
             Inr data \<Rightarrow>
               (case ak_Unmarshal kit data of
                  Inl e \<Rightarrow> (Inl (''parse account.json: '' @ e), d1)
                | Inr reg \<Rightarrow> (Inr (user\<lparr>au_Registration := reg\<rparr>), d1))
           | Inl ErrNotExist \<Rightarrow> (Inr user, d1)
           | Inl (OSError e) \<Rightarrow> (Inl (''read account.json: '' @ e), d1)))"

definition saveUser ::
  "('k, 'r) acct_kit \<Rightarrow> 'k acct_env \<Rightarrow> site \<Rightarrow> ('k, 'r) acmeUser \<Rightarrow> disk \<Rightarrow> string option \<times> disk" where
  "saveUser kit env m u d =
     (case ak_MarshalIndent kit (au_Registration u) of
        Inl e \<Rightarrow> (Some e, d)
      | Inr data \<Rightarrow> WriteFile (an_umask env) (an_write_meta env) d (snd (accountFiles m)) data mode600)"

section \<open>Certificate files\<close>

text \<open>The faults of writing and renaming one file.\<close>

record atomic_env =
  at_write :: "wfault option"
  at_rename :: "string option"

definition writeAtomic :: "fmode \<Rightarrow> atomic_env \<Rightarrow> string \<Rightarrow> bytes \<Rightarrow> fmode \<Rightarrow> disk \<Rightarrow> string option \<times> disk" where
  "writeAtomic umask env path data mode d =
     (let tmp = path @ ''.tmp'' in
      case WriteFile umask (at_write env) d tmp data mode of
        (Some e, d1) \<Rightarrow> (Some e, d1)
      | (None, d1) \<Rightarrow> Rename (at_rename env) d1 tmp path)"

record resource =
  rs_Certificate :: bytes
  rs_PrivateKey :: bytes

definition saveResource ::
  "fmode \<Rightarrow> atomic_env \<Rightarrow> atomic_env \<Rightarrow> site \<Rightarrow> resource \<Rightarrow> string \<Rightarrow> disk \<Rightarrow> string option \<times> disk" where
  "saveResource umask e1 e2 m r baseName d =
     (let base = filepath_Join [certDir m, baseName] in
      case writeAtomic umask e1 (base @ ''.crt'') (rs_Certificate r) mode600 d of
        (Some e, d1) \<Rightarrow> (Some e, d1)
      | (None, d1) \<Rightarrow> writeAtomic umask e2 (base @ ''.key'') (rs_PrivateKey r) mode600 d1)"

section \<open>Ordering a certificate\<close>

record ('k, 'r) lego =
  lg_NewClient :: "('k, 'r) acmeUser \<Rightarrow> goerr option"
  lg_NewProvider :: "goerr option"
  lg_SetDNS01 :: "goerr option"
  lg_Register :: "goerr + 'r"
  lg_Obtain :: "('k, 'r) acmeUser \<Rightarrow> string list \<Rightarrow> goerr + resource"

text \<open>An account that is not registered is registered and saved.\<close>

definition ensureRegistered ::
  "('k, 'r) acct_kit \<Rightarrow> 'k acct_env \<Rightarrow> ('k, 'r) lego \<Rightarrow> site \<Rightarrow> ('k, 'r) acmeUser \<Rightarrow> disk \<Rightarrow> (goerr + ('k, 'r) acmeUser) \<times> disk" where
  "ensureRegistered kit env lg m user d =
     (if au_Registration user \<noteq> None then (Inr user, d)
      else
        (case lg_Register lg of
           Inl e \<Rightarrow> (Inl (wrap_err ''register account: '' e), d)
         | Inr reg \<Rightarrow>
             (let user = user\<lparr>au_Registration := Some reg\<rparr> in
              case saveUser kit env m user d of
                (Some e, d1) \<Rightarrow> (Inl (plain_err (''save account: '' @ e)), d1)
              | (None, d1) \<Rightarrow> (Inr user, d1))))"

definition obtain_cert ::
  "('k, 'r) acct_kit \<Rightarrow> 'k acct_env \<Rightarrow> ('k, 'r) lego \<Rightarrow> x509 \<Rightarrow> atomic_env \<Rightarrow> atomic_env \<Rightarrow> site \<Rightarrow> string list \<Rightarrow> string \<Rightarrow> disk
     \<Rightarrow> (goerr + cert) \<times> disk" where
  "obtain_cert kit env lg x e1 e2 m sans baseName d =
     (case loadOrCreateUser kit env m d of
        (Inl e, d1) \<Rightarrow> (Inl (plain_err e), d1)
      | (Inr user, d1) \<Rightarrow>
          if lg_NewClient lg user \<noteq> None then (Inl (wrap_err ''lego client: '' (the (lg_NewClient lg user))), d1)
          else if lg_NewProvider lg \<noteq> None then (Inl (wrap_err ''dns provider: '' (the (lg_NewProvider lg))), d1)
          else if lg_SetDNS01 lg \<noteq> None then (Inl (wrap_err ''set dns-01: '' (the (lg_SetDNS01 lg))), d1)
          else
            (case ensureRegistered kit env lg m user d1 of
               (Inl e, d2) \<Rightarrow> (Inl e, d2)
             | (Inr user, d2) \<Rightarrow>
                 (case lg_Obtain lg user sans of
                    Inl e \<Rightarrow> (Inl (wrap_err ''obtain: '' e), d2)
                  | Inr res \<Rightarrow>
                      (case saveResource (an_umask env) e1 e2 m res baseName d2 of
                         (Some e, d3) \<Rightarrow> (Inl (plain_err (''save cert: '' @ e)), d3)
                       | (None, d3) \<Rightarrow>
                           (case x_key_pair x (rs_Certificate res) (rs_PrivateKey res) of
                              Inl e \<Rightarrow> (Inl (plain_err (''build keypair: '' @ e)), d3)
                            | Inr der \<Rightarrow>
                                (case x_parse_leaf x der of
                                   Inl e \<Rightarrow> (Inl (plain_err (''parse leaf: '' @ e)), d3)
                                 | Inr l \<Rightarrow> (Inr \<lparr>c_chain = der, c_Leaf = Some l\<rparr>, d3)))))))"

section \<open>Specification\<close>

text \<open>Reading the certificate directory of a disk without faults, as \<open>loadCertFile\<close> does.\<close>

definition cert_reads :: "site \<Rightarrow> disk \<Rightarrow> string \<Rightarrow> read_result" where
  "cert_reads m d name =
     (case map_of d (filepath_Join [certDir m, name]) of None \<Rightarrow> NotExist | Some f \<Rightarrow> Data (fl_data f))"

text \<open>The paths that an order may touch.\<close>

definition order_paths :: "site \<Rightarrow> string \<Rightarrow> string set" where
  "order_paths m baseName =
     {fst (accountFiles m), snd (accountFiles m)}
     \<union> (\<lambda>e. filepath_Join [certDir m, baseName @ e]) ` {''.crt'', ''.crt.tmp'', ''.key'', ''.key.tmp''}"

text \<open>The base name of a certificate: \<open>_.\<close> and the host.\<close>

definition cert_file_base :: "string \<Rightarrow> bool" where
  "cert_file_base b \<longleftrightarrow> HasPrefix b ''_.'' \<and> CHR ''/'' \<notin> set b"

definition quiet_read :: "'k acct_env \<Rightarrow> bool" where
  "quiet_read env \<longleftrightarrow> an_read_key env = None \<and> an_read_meta env = None"

text \<open>Sample values: a codec that keeps its promises, a server that issues one pair, and an empty state directory.\<close>

definition demo_acct :: "(bytes, bytes) acct_kit" where
  "demo_acct = \<lparr>ak_pem_Decode = kk_pem_Decode demo_kit, ak_pem_Encode = kk_pem_Encode demo_kit, ak_ParseEC = Inr, ak_MarshalEC = Inr,
     ak_Unmarshal = (\<lambda>b. case b of [] \<Rightarrow> Inr None | _ # r \<Rightarrow> Inr (Some r)),
     ak_MarshalIndent = (\<lambda>r. case r of None \<Rightarrow> Inr [] | Some r \<Rightarrow> Inr (CHR ''r'' # r))\<rparr>"

definition demo_acct_env :: "bytes acct_env" where
  "demo_acct_env = \<lparr>an_read_key = None, an_generate = Inr ''k'', an_write_key = None, an_read_meta = None, an_write_meta = None, an_umask = 0\<rparr>"

definition demo_lego :: "(bytes, bytes) lego" where
  "demo_lego = \<lparr>lg_NewClient = (\<lambda>_. None), lg_NewProvider = None, lg_SetDNS01 = None, lg_Register = Inr ''reg'',
     lg_Obtain = (\<lambda>_ _. Inr \<lparr>rs_Certificate = ''crt'', rs_PrivateKey = ''key''\<rparr>)\<rparr>"

definition demo_pair :: x509 where
  "demo_pair = \<lparr>x_key_pair = (\<lambda>c k. if c = ''crt'' \<and> k = ''key'' then Inr ''der'' else Inl ''mismatch''),
     x_parse_leaf = (\<lambda>_. Inr \<lparr>l_DNSNames = [''h''], l_NotAfter = 0\<rparr>)\<rparr>"

definition no_fault :: atomic_env where
  "no_fault = \<lparr>at_write = None, at_rename = None\<rparr>"

definition demo_site :: site where
  "demo_site = \<lparr>st_StateDir = ''/s'', st_Email = ''a@b'', st_CADirURL = leProduction\<rparr>"

section \<open>Lemmas\<close>

lemma cert_file_base_plain: "cert_file_base b \<Longrightarrow> CHR ''/'' \<notin> set e \<Longrightarrow> plain_name (b @ e)"
  by (auto simp: cert_file_base_def plain_name_def HasPrefix_iff)

lemma cert_path: "cert_file_base b \<Longrightarrow> CHR ''/'' \<notin> set e \<Longrightarrow> filepath_Join [dir, b] @ e = filepath_Join [dir, b @ e]"
  using cert_file_base_plain [of b "[]"] cert_file_base_plain [of b e] by (intro filepath_Join_ext) auto

lemma cert_path_eq:
  "cert_file_base b \<Longrightarrow> CHR ''/'' \<notin> set e \<Longrightarrow> CHR ''/'' \<notin> set e' \<Longrightarrow>
     filepath_Join [dir, b @ e] = filepath_Join [dir, b @ e'] \<longleftrightarrow> e = e'"
  using filepath_Join_name [OF cert_file_base_plain cert_file_base_plain, of b e b e' dir dir] by auto

lemma cert_path_account:
  "cert_file_base b \<Longrightarrow> CHR ''/'' \<notin> set e \<Longrightarrow> filepath_Join [dir, b @ e] \<noteq> fst (accountFiles m) \<and> filepath_Join [dir, b @ e] \<noteq> snd (accountFiles m)"
proof -
  assume b: "cert_file_base b" "CHR ''/'' \<notin> set e"
  have p: "plain_name ''account.key''" "plain_name ''account.json''" by (simp_all add: plain_name_def)
  have "b @ e \<noteq> ''account.key''" "b @ e \<noteq> ''account.json''" using b(1) by (auto simp: cert_file_base_def HasPrefix_iff)
  then show ?thesis
    using filepath_Join_name [OF cert_file_base_plain [OF b] p(1)] filepath_Join_name [OF cert_file_base_plain [OF b] p(2)]
    by (auto simp: accountFiles_def)
qed

lemma account_paths_differ: "fst (accountFiles m) \<noteq> snd (accountFiles m)"
  using filepath_Join_name [of "''account.key''" "''account.json''"] by (auto simp: accountFiles_def plain_name_def)

text \<open>The target of an atomic write is replaced as a whole or not at all.\<close>

lemma writeAtomic_cases:
  assumes "writeAtomic u env path data mode d = (e, d')"
  shows "\<And>q. q \<noteq> path \<Longrightarrow> q \<noteq> path @ ''.tmp'' \<Longrightarrow> map_of d' q = map_of d q"
    "e \<noteq> None \<Longrightarrow> map_of d' path = map_of d path"
    "e = None \<Longrightarrow> \<exists>f. map_of d' path = Some f \<and> fl_data f = data"
proof -
  obtain e1 d1 where W: "WriteFile u (at_write env) d (path @ ''.tmp'') data mode = (e1, d1)" by fastforce
  note o = WriteFile_other [OF W]
  have n: "path \<noteq> path @ ''.tmp''" by simp
  show "map_of d' q = map_of d q" if "q \<noteq> path" "q \<noteq> path @ ''.tmp''" for q
    using assms W that o [OF that(2)] by (auto simp: writeAtomic_def dest: Rename_other split: option.splits)
  show "map_of d' path = map_of d path" if "e \<noteq> None"
    using assms W that o [OF n] by (auto simp: writeAtomic_def Rename_def split: option.splits)
  show "\<exists>f. map_of d' path = Some f \<and> fl_data f = data" if "e = None"
    using assms W that WriteFile_ok [of u "at_write env" d "path @ ''.tmp''" data mode d1]
    by (auto simp: writeAtomic_def Rename_def split: option.splits)
qed

lemma account_key_disk: "account_key kit env p d = (r, d') \<Longrightarrow> q \<noteq> p \<Longrightarrow> map_of d' q = map_of d q"
  by (auto simp: account_key_def split: sum.splits option.splits os_err.splits prod.splits dest: WriteFile_other)

lemma loadOrCreateUser_disk: "loadOrCreateUser kit env m d = (r, d') \<Longrightarrow> q \<noteq> fst (accountFiles m) \<Longrightarrow> map_of d' q = map_of d q"
  using account_key_disk [of kit env "fst (accountFiles m)" d _ d' q]
  by (auto simp: loadOrCreateUser_def Let_def split: sum.splits option.splits os_err.splits prod.splits)

lemma ensureRegistered_disk: "ensureRegistered kit env lg m u d = (r, d') \<Longrightarrow> q \<noteq> snd (accountFiles m) \<Longrightarrow> map_of d' q = map_of d q"
  by (auto simp: ensureRegistered_def saveUser_def Let_def split: if_splits sum.splits option.splits prod.splits dest: WriteFile_other)

text \<open>What saving the pair does to the two files.\<close>

lemma saveResource_cases:
  assumes b: "cert_file_base b" and s: "saveResource u e1 e2 m res b d = (e, d')"
  defines "P \<equiv> \<lambda>x. filepath_Join [certDir m, b @ x]"
  shows "\<And>q. q \<notin> P ` {''.crt'', ''.crt.tmp'', ''.key'', ''.key.tmp''} \<Longrightarrow> map_of d' q = map_of d q"
    "e = None \<Longrightarrow> \<exists>f g. map_of d' (P ''.crt'') = Some f \<and> fl_data f = rs_Certificate res
        \<and> map_of d' (P ''.key'') = Some g \<and> fl_data g = rs_PrivateKey res"
    "e \<noteq> None \<Longrightarrow> map_of d' (P ''.key'') = map_of d (P ''.key'')
        \<and> (map_of d' (P ''.crt'') = map_of d (P ''.crt'') \<or> (\<exists>f. map_of d' (P ''.crt'') = Some f \<and> fl_data f = rs_Certificate res))"
proof -
  let ?B = "filepath_Join [certDir m, b]"
  have P: "?B @ x = P x" if "CHR ''/'' \<notin> set x" for x using cert_path [OF b that] by (simp add: P_def)
  have paths: "?B @ ''.crt'' = P ''.crt''" "?B @ ''.key'' = P ''.key''" "P ''.crt'' @ ''.tmp'' = P ''.crt.tmp''" "P ''.key'' @ ''.tmp'' = P ''.key.tmp''"
    by (simp_all flip: P)
  have ne: "P ''.crt'' \<noteq> P ''.key''" "P ''.crt'' \<noteq> P ''.key.tmp''" "P ''.key'' \<noteq> P ''.crt.tmp''"
    using cert_path_eq [OF b] by (simp_all add: P_def)
  obtain r1 d1 where W1: "writeAtomic u e1 (P ''.crt'') (rs_Certificate res) mode600 d = (r1, d1)" by fastforce
  note w1 = writeAtomic_cases [OF W1, unfolded paths]
  have S: "r1 \<noteq> None \<and> e = r1 \<and> d' = d1 \<or> r1 = None \<and> writeAtomic u e2 (P ''.key'') (rs_PrivateKey res) mode600 d1 = (e, d')"
    using s W1 by (auto simp: saveResource_def Let_def paths split: option.splits)
  show "map_of d' q = map_of d q" if "q \<notin> P ` {''.crt'', ''.crt.tmp'', ''.key'', ''.key.tmp''}" for q
    using S w1(1) [of q] that writeAtomic_cases(1) [of u e2 "P ''.key''" "rs_PrivateKey res" mode600 d1 e d' q] by (auto simp: paths)
  show "\<exists>f g. map_of d' (P ''.crt'') = Some f \<and> fl_data f = rs_Certificate res
        \<and> map_of d' (P ''.key'') = Some g \<and> fl_data g = rs_PrivateKey res" if "e = None"
  proof -
    from S that have W2: "r1 = None" "writeAtomic u e2 (P ''.key'') (rs_PrivateKey res) mode600 d1 = (e, d')" by auto
    note w2 = writeAtomic_cases [OF W2(2), unfolded paths]
    show ?thesis using w1(3) [OF W2(1)] w2(1) [OF ne(1,2)] w2(3) [OF that] by auto
  qed
  show "map_of d' (P ''.key'') = map_of d (P ''.key'')
        \<and> (map_of d' (P ''.crt'') = map_of d (P ''.crt'') \<or> (\<exists>f. map_of d' (P ''.crt'') = Some f \<and> fl_data f = rs_Certificate res))" if "e \<noteq> None"
  proof (cases "r1 = None")
    case True
    with S have W2: "writeAtomic u e2 (P ''.key'') (rs_PrivateKey res) mode600 d1 = (e, d')" by auto
    note w2 = writeAtomic_cases [OF W2, unfolded paths]
    show ?thesis using w1(3) [OF True] w1(1) [of "P ''.key''"] w2(1) [OF ne(1,2)] w2(2) [OF that] ne by auto
  next
    case False
    with S have "d' = d1" by auto
    then show ?thesis using w1(1) [of "P ''.key''"] w1(2) [OF False] ne by auto
  qed
qed

text \<open>The two ways an order ends: before the files are written, or with the result of writing them.\<close>

lemma obtain_cert_cases:
  assumes "obtain_cert kit env lg x e1 e2 m sans b d = (r, d')"
  obtains (early) e where "r = Inl e" "\<And>q. q \<noteq> fst (accountFiles m) \<Longrightarrow> q \<noteq> snd (accountFiles m) \<Longrightarrow> map_of d' q = map_of d q"
  | (saved) u0 d1 user d2 res e where
      "loadOrCreateUser kit env m d = (Inr u0, d1)" "ensureRegistered kit env lg m u0 d1 = (Inr user, d2)"
      "lg_Obtain lg user sans = Inr res" "saveResource (an_umask env) e1 e2 m res b d2 = (e, d')"
      "\<And>q. q \<noteq> fst (accountFiles m) \<Longrightarrow> q \<noteq> snd (accountFiles m) \<Longrightarrow> map_of d2 q = map_of d q"
      "\<And>c. r = Inr c \<Longrightarrow> e = None \<and> (\<exists>der l. x_key_pair x (rs_Certificate res) (rs_PrivateKey res) = Inr der
          \<and> x_parse_leaf x der = Inr l \<and> c = \<lparr>c_chain = der, c_Leaf = Some l\<rparr>)"
proof -
  obtain ru d1 where U: "loadOrCreateUser kit env m d = (ru, d1)" by fastforce
  note u = loadOrCreateUser_disk [OF U]
  show ?thesis
  proof (cases ru)
    case (Inl e)
    then show ?thesis using assms U u by (intro early) (auto simp: obtain_cert_def)
  next
    case (Inr u0)
    obtain rr d2 where R: "ensureRegistered kit env lg m u0 d1 = (rr, d2)" by fastforce
    have o: "map_of d2 q = map_of d q" if "q \<noteq> fst (accountFiles m)" "q \<noteq> snd (accountFiles m)" for q
      using ensureRegistered_disk [OF R that(2)] u [OF that(1)] by simp
    show ?thesis
    proof (cases "lg_NewClient lg u0 \<noteq> None \<or> lg_NewProvider lg \<noteq> None \<or> lg_SetDNS01 lg \<noteq> None")
      case True
      then show ?thesis using assms U Inr u by (elim disjE) (auto simp: obtain_cert_def intro!: early split: if_splits)
    next
      case False
      show ?thesis
      proof (cases rr)
        case i: (Inl e)
        then show ?thesis using assms U Inr R False o by (intro early) (auto simp: obtain_cert_def)
      next
        case i: (Inr user)
        show ?thesis
        proof (cases "lg_Obtain lg user sans")
          case j: (Inl e)
          then show ?thesis using assms U Inr R False i o by (intro early) (auto simp: obtain_cert_def)
        next
          case j: (Inr res)
          obtain e d3 where S: "saveResource (an_umask env) e1 e2 m res b d2 = (e, d3)" by fastforce
          have "d' = d3" "\<And>c. r = Inr c \<Longrightarrow> e = None \<and> (\<exists>der l. x_key_pair x (rs_Certificate res) (rs_PrivateKey res) = Inr der
              \<and> x_parse_leaf x der = Inr l \<and> c = \<lparr>c_chain = der, c_Leaf = Some l\<rparr>)"
            using assms U Inr R False i j S by (auto simp: obtain_cert_def split: option.splits sum.splits)
          then show ?thesis using saved [OF U [unfolded Inr] R [unfolded i] j] S o by metis
        qed
      qed
    qed
  qed
qed

lemma account_key_again:
  assumes "acct_roundtrip kit" "account_key kit env p d = (Inr k, d1)" "map_of d' p = map_of d1 p" "an_read_key env' = None"
  shows "account_key kit env' p d' = (Inr k, d')"
  using assms
  by (auto simp: account_key_def ReadFile_def acct_roundtrip_def split: sum.splits option.splits os_err.splits prod.splits dest!: WriteFile_ok)

lemma user_again:
  assumes "acct_roundtrip kit" "loadOrCreateUser kit env m d = (Inr u0, d1)" "ensureRegistered kit env lg m u0 d1 = (Inr user, d2)"
    "map_of d' (fst (accountFiles m)) = map_of d2 (fst (accountFiles m))"
    "map_of d' (snd (accountFiles m)) = map_of d2 (snd (accountFiles m))" "quiet_read env'"
  shows "loadOrCreateUser kit env' m d' = (Inr user, d')" "au_Registration user \<noteq> None"
proof -
  let ?k = "fst (accountFiles m)" and ?j = "snd (accountFiles m)"
  obtain rk dk where A: "account_key kit env ?k d = (rk, dk)" by fastforce
  obtain p0 where K: "account_key kit env ?k d = (Inr p0, d1)" and u0: "au_key u0 = p0" "au_Email u0 = st_Email m"
    and reg: "au_Registration u0 = None \<or> (\<exists>f. map_of d1 ?j = Some f \<and> ak_Unmarshal kit (fl_data f) = Inr (au_Registration u0))"
    using assms(2) A by (cases rk) (auto simp: loadOrCreateUser_def ReadFile_def Let_def case_prod_beta split: sum.splits option.splits os_err.splits)
  have "map_of d2 ?k = map_of d1 ?k" using ensureRegistered_disk [OF assms(3) account_paths_differ] .
  then have K': "account_key kit env' ?k d' = (Inr p0, d')"
    using account_key_again [OF assms(1) K, of d' env'] assms(4,6) by (simp add: quiet_read_def)
  have R: "au_Registration user \<noteq> None \<and> au_key user = p0 \<and> au_Email user = st_Email m
      \<and> (\<exists>f. map_of d2 ?j = Some f \<and> ak_Unmarshal kit (fl_data f) = Inr (au_Registration user))"
    using assms(1,3) reg u0
    by (auto simp: ensureRegistered_def saveUser_def acct_roundtrip_def Let_def split: if_splits sum.splits option.splits prod.splits dest!: WriteFile_ok)
  then obtain f where f: "map_of d' ?j = Some f" "ak_Unmarshal kit (fl_data f) = Inr (au_Registration user)" using assms(5) by auto
  show "au_Registration user \<noteq> None" using R by blast
  show "loadOrCreateUser kit env' m d' = (Inr user, d')"
    using K' f R assms(6) by (cases user) (simp add: loadOrCreateUser_def ReadFile_def Let_def case_prod_beta quiet_read_def)
qed

section \<open>Properties\<close>

text \<open>
  C36: an order that succeeds is on disk.  The certificate \<open>obtain\<close> returns is the one \<open>loadCertFile\<close> reads back from the
  certificate directory, so a restart serves it without a new order; the account is registered, and every later
  order finds the same key and registration without writing anything.  Whether the order succeeds or fails, it touches no file
  but the account's and the four of its own name.
\<close>

theorem obtain_persisted:
  assumes "acct_roundtrip kit" "cert_file_base b" "obtain_cert kit env lg x e1 e2 m sans b d = (r, d')"
  shows "(\<forall>q. q \<notin> order_paths m b \<longrightarrow> map_of d' q = map_of d q)
    \<and> (\<forall>c. r = Inr c \<longrightarrow> loadCertFile x (cert_reads m d') b = Inr (Some c)
         \<and> (\<exists>user. au_Registration user \<noteq> None \<and> (\<forall>env'. quiet_read env' \<longrightarrow> loadOrCreateUser kit env' m d' = (Inr user, d'))))"
  using assms(3)
proof (cases rule: obtain_cert_cases)
  case (early e)
  then show ?thesis by (auto simp: order_paths_def)
next
  case (saved u0 d1 user d2 res e)
  note S = saveResource_cases [OF assms(2) saved(4)]
  have a: "map_of d' q = map_of d2 q" if "q = fst (accountFiles m) \<or> q = snd (accountFiles m)" for q
  proof -
    have "\<forall>e\<in>{''.crt'', ''.crt.tmp'', ''.key'', ''.key.tmp''}. CHR ''/'' \<notin> set e" by simp
    then have "q \<notin> (\<lambda>e. filepath_Join [certDir m, b @ e]) ` {''.crt'', ''.crt.tmp'', ''.key'', ''.key.tmp''}"
      using that cert_path_account [OF assms(2)] by blast
    then show ?thesis by (rule S(1))
  qed
  have o: "map_of d' q = map_of d q" if "q \<notin> order_paths m b" for q
    using S(1) [of q] saved(5) [of q] that by (auto simp: order_paths_def)
  have c: "loadCertFile x (cert_reads m d') b = Inr (Some c)" if "r = Inr c" for c
    using saved(6) [OF that] S(2) by (auto simp: loadCertFile_def cert_reads_def)
  have u: "loadOrCreateUser kit env' m d' = (Inr user, d')" "au_Registration user \<noteq> None" if "quiet_read env'" for env'
    using user_again [OF assms(1) saved(1,2) a a that] by simp_all
  have "\<exists>env' :: 'a acct_env. quiet_read env'"
    by (rule exI [of _ "\<lparr>an_read_key = None, an_generate = Inl [], an_write_key = None, an_read_meta = None, an_write_meta = None, an_umask = 0\<rparr>"])
      (simp add: quiet_read_def)
  with u o c show ?thesis by blast
qed



lemma demo_acct_ok: "acct_roundtrip demo_acct"
  using demo_kit_ok(1) by (auto simp: acct_roundtrip_def demo_acct_def pem_roundtrip_def split: option.splits)

lemma demo_paths:
  "accountFiles demo_site = (''/s/lego/accounts/acme-v02.api.letsencrypt.org/a@b/account.key'',
     ''/s/lego/accounts/acme-v02.api.letsencrypt.org/a@b/account.json'')"
  "certDir demo_site = ''/s/lego/certificates''"
  "filepath_Join [''/s/lego/certificates'', ''_.h''] = ''/s/lego/certificates/_.h''"
  "filepath_Join [''/s/lego/certificates'', ''_.h.crt''] = ''/s/lego/certificates/_.h.crt''"
  "filepath_Join [''/s/lego/certificates'', ''_.h.key''] = ''/s/lego/certificates/_.h.key''"
  by code_simp+

lemmas demo_disk_defs = obtain_cert_def loadOrCreateUser_def account_key_def ReadFile_def demo_acct_env_def demo_acct_def demo_paths
  ensureRegistered_def saveUser_def saveResource_def writeAtomic_def WriteFile_def Rename_def demo_lego_def demo_pair_def no_fault_def Let_def

theorem obtain_persisted_witness:
  "\<exists>c d'. obtain_cert demo_acct demo_acct_env demo_lego demo_pair no_fault no_fault demo_site [''h''] ''_.h'' [] = (Inr c, d')
     \<and> loadCertFile demo_pair (cert_reads demo_site d') ''_.h'' = Inr (Some c)
     \<and> (\<exists>user. au_Registration user \<noteq> None \<and> loadOrCreateUser demo_acct demo_acct_env demo_site d' = (Inr user, d'))"
proof -
  obtain c d' where r: "obtain_cert demo_acct demo_acct_env demo_lego demo_pair no_fault no_fault demo_site [''h''] ''_.h'' [] = (Inr c, d')"
    by (simp add: demo_disk_defs)
  have b: "cert_file_base ''_.h''" by code_simp
  have q: "quiet_read demo_acct_env" by (simp add: quiet_read_def demo_acct_env_def)
  show ?thesis using obtain_persisted [OF demo_acct_ok b r] r q by blast
qed


end
