(* ===== verification/Mtls.thy ===== *)
theory Mtls
  imports Go_OS Go_Time Reloadable
begin

text \<open>
  The certificate authority for client certificates (\<open>internal/mtls/ca.go\<close>) and the server's reloadable pool of
  trusted authorities (\<open>cmd/swe-swe-tunneld/mtls.go\<close>).  Creating and parsing certificates and PKCS#12 is
  \<open>crypto/x509\<close> and \<open>go-pkcs12\<close>: fields of the record \<open>pki\<close>, with what they promise in \<open>x509_roundtrip\<close>.
\<close>

section \<open>Certificates\<close>

datatype key_usage = KeyUsageCertSign | KeyUsageCRLSign | KeyUsageDigitalSignature
datatype ext_key_usage = ExtKeyUsageClientAuth | ExtKeyUsageOther nat

datatype pub = Ed25519Pub bytes | OtherPub bytes

text \<open>The fields of \<open>x509.Certificate\<close> the sources set; a certificate adds its key and the key that signed it.\<close>

record template =
  tp_SerialNumber :: nat
  tp_CommonName :: string
  tp_NotBefore :: gotime
  tp_NotAfter :: gotime
  tp_KeyUsage :: "key_usage list"
  tp_ExtKeyUsage :: "ext_key_usage list"
  tp_IsCA :: bool

record certificate = template +
  xc_pub :: pub
  xc_signedBy :: pub

text \<open>\<open>pk_Create\<close>: the template, the parent (nothing for the template itself), the subject's key, the signing key.\<close>

record 'k pki = "'k keykit" +
  pk_Parse :: "bytes \<Rightarrow> certificate result"
  pk_Create :: "template \<Rightarrow> certificate option \<Rightarrow> pub \<Rightarrow> 'k anykey \<Rightarrow> bytes result"
  pk_Public :: "'k anykey \<Rightarrow> pub"
  pk_p12 :: "'k anykey \<Rightarrow> certificate \<Rightarrow> string \<Rightarrow> bytes result"

text \<open>A created certificate parses to its template, the subject's key and the signer.\<close>

definition x509_roundtrip :: "'k pki \<Rightarrow> bool" where
  "x509_roundtrip pk \<longleftrightarrow>
     (\<forall>tpl parent pub k der. pk_Create pk tpl parent pub k = Inr der \<longrightarrow>
        pk_Parse pk der = Inr (template.extend tpl \<lparr>xc_pub = pub, xc_signedBy = pk_Public pk k\<rparr>))"

section \<open>The bundle of trusted authorities\<close>

text \<open>\<open>CertPool.AddCert\<close>: a certificate is in the pool once.\<close>

definition AddCert :: "certificate list \<Rightarrow> certificate \<Rightarrow> certificate list" where
  "AddCert pool c = (if c \<in> set pool then pool else pool @ [c])"

text \<open>The loop over the PEM blocks; \<open>None\<close> would be a loop that does not end.\<close>

partial_function (option) bundle_loop ::
  "'k pki \<Rightarrow> string \<Rightarrow> bytes \<Rightarrow> certificate list \<Rightarrow> nat \<Rightarrow> (certificate list \<times> nat) result option" where
  "bundle_loop pk path rest pool count =
     (case kk_pem_Decode pk rest of
        None \<Rightarrow> Some (Inr (pool, count))
      | Some (t, b, rest') \<Rightarrow>
          if t \<noteq> ''CERTIFICATE'' then bundle_loop pk path rest' pool count
          else (case pk_Parse pk b of
                  Inl e \<Rightarrow> Some (Inl (''parse cert in '' @ path @ '': '' @ e))
                | Inr c \<Rightarrow> bundle_loop pk path rest' (AddCert pool c) (count + 1)))"

definition LoadCABundle ::
  "'k pki \<Rightarrow> string option \<Rightarrow> disk \<Rightarrow> string \<Rightarrow> (certificate list \<times> nat) result option" where
  "LoadCABundle pk flt d path =
     (case ReadFile flt d path of
        Inl e \<Rightarrow> Some (Inl (''read CA bundle '' @ path @ '': '' @ os_msg e))
      | Inr bs \<Rightarrow>
          (case bundle_loop pk path bs [] 0 of
             None \<Rightarrow> None
           | Some (Inl e) \<Rightarrow> Some (Inl e)
           | Some (Inr (pool, count)) \<Rightarrow>
               if count = 0 then Some (Inl (''no CERTIFICATE blocks in '' @ path))
               else Some (Inr (pool, count))))"

record mtlsBundle =
  mb_path :: string
  mb_pool :: "certificate list"
  mb_n :: nat

definition loadMtlsBundle :: "'k pki \<Rightarrow> string option \<Rightarrow> disk \<Rightarrow> string \<Rightarrow> mtlsBundle result option" where
  "loadMtlsBundle pk flt d path =
     map_option (map_sum id (\<lambda>(pool, n). \<lparr>mb_path = path, mb_pool = pool, mb_n = n\<rparr>)) (LoadCABundle pk flt d path)"

text \<open>\<open>Reload\<close>: the bundle in force, and what the call returns (\<open>None\<close> while it has not returned).\<close>

definition Bundle_Reload :: "'k pki \<Rightarrow> string option \<Rightarrow> disk \<Rightarrow> mtlsBundle \<Rightarrow> mtlsBundle \<times> unit result option" where
  "Bundle_Reload pk flt d b =
     (case LoadCABundle pk flt d (mb_path b) of
        None \<Rightarrow> (b, None)
      | Some (Inl e) \<Rightarrow> (b, Some (Inl e))
      | Some (Inr (pool, n)) \<Rightarrow> (b\<lparr>mb_pool := pool, mb_n := n\<rparr>, Some (Inr ())))"

definition reloadMtlsBundle :: "'k pki \<Rightarrow> string option \<Rightarrow> disk \<Rightarrow> mtlsBundle option \<Rightarrow> mtlsBundle option" where
  "reloadMtlsBundle pk flt d b = map_option (\<lambda>b. fst (Bundle_Reload pk flt d b)) b"

section \<open>The authority\<close>

definition caKeyFile :: string where "caKeyFile = ''ca.key''"
definition caCertFile :: string where "caCertFile = ''ca.pem''"

text \<open>How the calls of \<open>InitCA\<close> end; the clock is read twice.\<close>

record 'k ca_env =
  cv_stat_key :: "string option"
  cv_stat_cert :: "string option"
  cv_mkdir :: "string option"
  cv_generate :: "'k result"
  cv_serial :: "nat result"
  cv_before :: gotime
  cv_after :: gotime
  cv_write_key :: "wfault option"
  cv_chmod :: "string option"
  cv_write_cert :: "wfault option"
  cv_umask :: fmode

definition randomSerial :: "nat result \<Rightarrow> nat result" where
  "randomSerial r = (case r of Inl e \<Rightarrow> Inl (''random serial: '' @ e) | Inr s \<Rightarrow> Inr s)"

definition ca_template :: "nat \<Rightarrow> gotime \<Rightarrow> gotime \<Rightarrow> template" where
  "ca_template serial before after =
     \<lparr>tp_SerialNumber = serial, tp_CommonName = ''swe-swe-tunnel mTLS CA'',
      tp_NotBefore = before - Hour, tp_NotAfter = after + 10 * 365 * 24 * Hour,
      tp_KeyUsage = [KeyUsageCertSign, KeyUsageCRLSign], tp_ExtKeyUsage = [], tp_IsCA = True\<rparr>"

text \<open>The two files are written one after the other, the key first.\<close>

definition write_ca :: "'k ca_env \<Rightarrow> disk \<Rightarrow> string \<Rightarrow> string \<Rightarrow> bytes \<Rightarrow> bytes \<Rightarrow> string option \<times> disk" where
  "write_ca env d keyPath certPath keyPEM certPEM =
     (case WriteFile (cv_umask env) (cv_write_key env) d keyPath keyPEM mode600 of
        (Some e, d1) \<Rightarrow> (Some (''write '' @ keyPath @ '': '' @ e), d1)
      | (None, d1) \<Rightarrow>
          (case Chmod (cv_chmod env) d1 keyPath mode600 of
             (Some e, d2) \<Rightarrow> (Some (''chmod '' @ keyPath @ '': '' @ e), d2)
           | (None, d2) \<Rightarrow>
               (case WriteFile (cv_umask env) (cv_write_cert env) d2 certPath certPEM mode644 of
                  (Some e, d3) \<Rightarrow> (Some (''write '' @ certPath @ '': '' @ e), d3)
                | (None, d3) \<Rightarrow> (None, d3))))"

definition InitCA :: "'k pki \<Rightarrow> 'k ca_env \<Rightarrow> string \<Rightarrow> bool \<Rightarrow> disk \<Rightarrow> string option \<times> disk" where
  "InitCA pk env dir force d =
     (let keyPath = filepath_Join [dir, caKeyFile]; certPath = filepath_Join [dir, caCertFile] in
      if \<not> force \<and> Stat_ok (cv_stat_key env) d keyPath
      then (Some (keyPath @ '' already exists; pass force=true to overwrite''), d)
      else if \<not> force \<and> Stat_ok (cv_stat_cert env) d certPath
      then (Some (certPath @ '' already exists; pass force=true to overwrite''), d)
      else
        (case cv_mkdir env of
           Some e \<Rightarrow> (Some (''mkdir '' @ dir @ '': '' @ e), d)
         | None \<Rightarrow>
             (case cv_generate env of
                Inl e \<Rightarrow> (Some (''generate CA key: '' @ e), d)
              | Inr priv \<Rightarrow>
                  (case randomSerial (cv_serial env) of
                     Inl e \<Rightarrow> (Some e, d)
                   | Inr serial \<Rightarrow>
                       (case pk_Create pk (ca_template serial (cv_before env) (cv_after env)) None
                               (pk_Public pk (EcdsaKey priv)) (EcdsaKey priv) of
                          Inl e \<Rightarrow> (Some (''create CA cert: '' @ e), d)
                        | Inr der \<Rightarrow>
                            (case kk_Marshal8 pk (EcdsaKey priv) of
                               Inl e \<Rightarrow> (Some (''marshal CA key: '' @ e), d)
                             | Inr pkcs8 \<Rightarrow>
                                 write_ca env d keyPath certPath (kk_pem_Encode pk ''PRIVATE KEY'' pkcs8)
                                   (kk_pem_Encode pk ''CERTIFICATE'' der)))))))"

record 'k CA =
  ca_cert :: certificate
  ca_key :: "'k anykey"

definition LoadCA :: "'k pki \<Rightarrow> string option \<Rightarrow> string option \<Rightarrow> disk \<Rightarrow> string \<Rightarrow> 'k CA result" where
  "LoadCA pk flt1 flt2 d dir =
     (case ReadFile flt1 d (filepath_Join [dir, caKeyFile]) of
        Inl e \<Rightarrow> Inl (''read CA key: '' @ os_msg e)
      | Inr keyBytes \<Rightarrow>
          (case kk_pem_Decode pk keyBytes of
             None \<Rightarrow> Inl ''CA key not PEM''
           | Some (_, kblk, _) \<Rightarrow>
               (case kk_Parse8 pk kblk of
                  Inl e \<Rightarrow> Inl (''parse CA key: '' @ e)
                | Inr rawKey \<Rightarrow>
                    if \<not> is_signer rawKey
                    then Inl (''CA key is '' @ type_name rawKey @ '', want crypto.Signer (ECDSA or Ed25519)'')
                    else
                      (case ReadFile flt2 d (filepath_Join [dir, caCertFile]) of
                         Inl e \<Rightarrow> Inl (''read CA cert: '' @ os_msg e)
                       | Inr certBytes \<Rightarrow>
                           (case kk_pem_Decode pk certBytes of
                              None \<Rightarrow> Inl ''CA cert not PEM''
                            | Some (_, cblk, _) \<Rightarrow>
                                (case pk_Parse pk cblk of
                                   Inl e \<Rightarrow> Inl (''parse CA cert: '' @ e)
                                 | Inr c \<Rightarrow> Inr \<lparr>ca_cert = c, ca_key = rawKey\<rparr>))))))"

section \<open>Client certificates\<close>

record sign_env =
  sg_serial :: "nat result"
  sg_before :: gotime
  sg_after :: gotime

definition client_template :: "nat \<Rightarrow> string \<Rightarrow> gotime \<Rightarrow> gotime \<Rightarrow> duration \<Rightarrow> template" where
  "client_template serial cn before after validFor =
     \<lparr>tp_SerialNumber = serial, tp_CommonName = cn, tp_NotBefore = before - Hour, tp_NotAfter = after + validFor,
      tp_KeyUsage = [KeyUsageDigitalSignature], tp_ExtKeyUsage = [ExtKeyUsageClientAuth], tp_IsCA = False\<rparr>"

definition signPub :: "'k pki \<Rightarrow> sign_env \<Rightarrow> 'k CA \<Rightarrow> string \<Rightarrow> pub \<Rightarrow> duration \<Rightarrow> bytes result" where
  "signPub pk env c cn pub validFor =
     (case randomSerial (sg_serial env) of
        Inl e \<Rightarrow> Inl e
      | Inr serial \<Rightarrow>
          (case pk_Create pk (client_template serial cn (sg_before env) (sg_after env) validFor) (Some (ca_cert c)) pub (ca_key c) of
             Inl e \<Rightarrow> Inl (''create client cert: '' @ e)
           | Inr der \<Rightarrow> Inr (kk_pem_Encode pk ''CERTIFICATE'' der)))"

definition SignClientPubkey :: "'k pki \<Rightarrow> sign_env \<Rightarrow> 'k CA \<Rightarrow> string \<Rightarrow> bytes \<Rightarrow> duration \<Rightarrow> bytes result" where
  "SignClientPubkey pk env c cn pub validFor = signPub pk env c cn (Ed25519Pub pub) validFor"

definition passphrase_alphabet :: string where
  "passphrase_alphabet = ''ABCDEFGHJKLMNPQRSTUVWXYZabcdefghijkmnpqrstuvwxyz23456789''"

text \<open>\<open>rand.Read\<close> fills the buffer of 18 bytes or fails.\<close>

definition randomPassphrase :: "bytes result \<Rightarrow> string result" where
  "randomPassphrase rnd =
     (case rnd of
        Inl e \<Rightarrow> Inl (''random passphrase: '' @ e)
      | Inr buf \<Rightarrow> Inr (map (\<lambda>b. passphrase_alphabet ! (of_char b mod length passphrase_alphabet)) buf))"

record ClientBundle =
  cb_CertPEM :: bytes
  cb_KeyPEM :: bytes
  cb_P12 :: bytes
  cb_Passphrase :: string

text \<open>The block of \<open>certPEM\<close> is dereferenced without a check: the third branch is the panic.\<close>

definition IssueClientCert ::
  "'k pki \<Rightarrow> 'k result \<Rightarrow> bytes result \<Rightarrow> sign_env \<Rightarrow> 'k CA \<Rightarrow> string \<Rightarrow> duration \<Rightarrow> ClientBundle result" where
  "IssueClientCert pk gen rnd env c cn validFor =
     (case gen of
        Inl e \<Rightarrow> Inl (''generate client key: '' @ e)
      | Inr priv \<Rightarrow>
          (case signPub pk env c cn (pk_Public pk (EcdsaKey priv)) validFor of
             Inl e \<Rightarrow> Inl e
           | Inr certPEM \<Rightarrow>
               (case kk_Marshal8 pk (EcdsaKey priv) of
                  Inl e \<Rightarrow> Inl (''marshal client key: '' @ e)
                | Inr pkcs8 \<Rightarrow>
                    (case randomPassphrase rnd of
                       Inl e \<Rightarrow> Inl e
                     | Inr passphrase \<Rightarrow>
                         (case kk_pem_Decode pk certPEM of
                            None \<Rightarrow> Inl ''panic: invalid memory address or nil pointer dereference''
                          | Some (_, cblk, _) \<Rightarrow>
                              (case pk_Parse pk cblk of
                                 Inl e \<Rightarrow> Inl (''re-parse issued cert: '' @ e)
                               | Inr cert \<Rightarrow>
                                   (case pk_p12 pk (EcdsaKey priv) cert passphrase of
                                      Inl e \<Rightarrow> Inl (''encode pkcs12: '' @ e)
                                    | Inr p12 \<Rightarrow>
                                        Inr \<lparr>cb_CertPEM = certPEM, cb_KeyPEM = kk_pem_Encode pk ''PRIVATE KEY'' pkcs8,
                                             cb_P12 = p12, cb_Passphrase = passphrase\<rparr>)))))))"

section \<open>Specification and sample values\<close>

text \<open>What \<open>pem.Decode\<close> documents of the remainder: it is what follows the block, so it is shorter.\<close>

definition pem_shrinks :: "('k, 'z) keykit_scheme \<Rightarrow> bool" where
  "pem_shrinks kk \<longleftrightarrow> (\<forall>b t c r. kk_pem_Decode kk b = Some (t, c, r) \<longrightarrow> length r < length b)"

inductive pem_blocks :: "('k, 'z) keykit_scheme \<Rightarrow> bytes \<Rightarrow> (string \<times> bytes) list \<Rightarrow> bool" for kk where
  pem_end: "kk_pem_Decode kk b = None \<Longrightarrow> pem_blocks kk b []"
| pem_block: "kk_pem_Decode kk b = Some (t, c, r) \<Longrightarrow> pem_blocks kk r bs \<Longrightarrow> pem_blocks kk b ((t, c) # bs)"

definition bundle_certs :: "'k pki \<Rightarrow> (string \<times> bytes) list \<Rightarrow> certificate result list" where
  "bundle_certs pk bs = map (pk_Parse pk \<circ> snd) (filter (\<lambda>b. fst b = ''CERTIFICATE'') bs)"

fun first_err :: "'a result list \<Rightarrow> string option" where
  "first_err [] = None"
| "first_err (Inl e # rs) = Some e"
| "first_err (Inr _ # rs) = first_err rs"

text \<open>A certificate is trusted by a pool when an authority in it signed it.\<close>

definition trusts :: "certificate list \<Rightarrow> certificate \<Rightarrow> bool" where
  "trusts pool c \<longleftrightarrow> (\<exists>a\<in>set pool. tp_IsCA a \<and> xc_signedBy c = xc_pub a)"

text \<open>The certificate in the PEM text that \<open>signPub\<close> returns.\<close>

definition issued :: "'k pki \<Rightarrow> bytes \<Rightarrow> certificate \<Rightarrow> bool" where
  "issued pk pem c \<longleftrightarrow> (\<exists>der. kk_pem_Decode pk pem = Some (''CERTIFICATE'', der, []) \<and> pk_Parse pk der = Inr c)"

definition mb_loaded :: "'k pki \<times> string option \<times> disk \<Rightarrow> mtlsBundle \<Rightarrow> (certificate \<Rightarrow> bool) option" where
  "mb_loaded = (\<lambda>(pk, flt, d) b. case LoadCABundle pk flt d (mb_path b) of Some (Inr (pool, n)) \<Rightarrow> Some (trusts pool) | _ \<Rightarrow> None)"

definition Bundle_Reload_result :: "'k pki \<times> string option \<times> disk \<Rightarrow> mtlsBundle \<Rightarrow> mtlsBundle \<times> (string option + unit)" where
  "Bundle_Reload_result = (\<lambda>(pk, flt, d) b. case Bundle_Reload pk flt d b of
     (b', Some (Inr u)) \<Rightarrow> (b', Inr u) | (b', Some (Inl e)) \<Rightarrow> (b', Inl (Some e)) | (b', None) \<Rightarrow> (b', Inl None))"

definition demo_ca_cert :: certificate where
  "demo_ca_cert = template.extend (ca_template 1 0 0) \<lparr>xc_pub = OtherPub ''ca'', xc_signedBy = OtherPub ''ca''\<rparr>"

definition demo_client_cert :: certificate where
  "demo_client_cert = template.extend (client_template 2 ''alice'' 0 0 Hour) \<lparr>xc_pub = OtherPub ''key'', xc_signedBy = OtherPub ''ca''\<rparr>"

definition demo_pki :: "bytes pki" where
  "demo_pki =
     (let public = (\<lambda>k. case k of Ed25519Key b \<Rightarrow> Ed25519Pub b | EcdsaKey b \<Rightarrow> OtherPub b | OtherKey t s \<Rightarrow> OtherPub t) in
      keykit.extend demo_kit
        \<lparr>pk_Parse = (\<lambda>b. if b = ''A'' then Inr demo_ca_cert else if b = ''B'' then Inr demo_client_cert else Inl ''malformed''),
         pk_Create = (\<lambda>tpl parent pub k. let c = template.extend tpl \<lparr>xc_pub = pub, xc_signedBy = public k\<rparr> in
            if c = demo_ca_cert then Inr ''A'' else if c = demo_client_cert then Inr ''B'' else Inl ''not supported''),
         pk_Public = public, pk_p12 = (\<lambda>k c p. Inr ''p12'')\<rparr>)"

definition demo_ca_env :: "bytes ca_env" where
  "demo_ca_env = \<lparr>cv_stat_key = None, cv_stat_cert = None, cv_mkdir = None, cv_generate = Inr ''ca'', cv_serial = Inr 1,
     cv_before = 0, cv_after = 0, cv_write_key = None, cv_chmod = None, cv_write_cert = None, cv_umask = 0\<rparr>"

section \<open>The bundle\<close>

inductive_cases pem_blocksE: "pem_blocks kk b bs"

lemma pem_blocks_unique: "pem_blocks kk b bs \<Longrightarrow> pem_blocks kk b bs' \<Longrightarrow> bs' = bs"
proof (induction arbitrary: bs' rule: pem_blocks.induct)
  case (pem_end b)
  from pem_end.prems pem_end.hyps show ?case by (cases rule: pem_blocks.cases) auto
next
  case (pem_block b t c r bs)
  from pem_block.prems show ?case using pem_block.hyps(1) pem_block.IH by (cases rule: pem_blocks.cases) auto
qed

lemma pem_blocks_exist:
  assumes "pem_shrinks kk"
  shows "\<exists>bs. pem_blocks kk b bs"
proof (induction b rule: length_induct)
  case (1 b)
  show ?case
  proof (cases "kk_pem_Decode kk b")
    case (Some x)
    then obtain t c r where x: "kk_pem_Decode kk b = Some (t, c, r)" by (cases x) auto
    then have "length r < length b" using assms by (auto simp: pem_shrinks_def)
    with 1 x show ?thesis by (blast intro: pem_block)
  qed (blast intro: pem_end)
qed

lemma bundle_certs_simps [simp]:
  "bundle_certs pk [] = []"
  "bundle_certs pk ((t, c) # bs) = (if t = ''CERTIFICATE'' then pk_Parse pk c # bundle_certs pk bs else bundle_certs pk bs)"
  by (simp_all add: bundle_certs_def)

lemma bundle_loop_blocks:
  assumes "pem_blocks pk b bs"
  shows "bundle_loop pk path b pool n =
    Some (case first_err (bundle_certs pk bs) of
            Some e \<Rightarrow> Inl (''parse cert in '' @ path @ '': '' @ e)
          | None \<Rightarrow> Inr (foldl AddCert pool (map projr (bundle_certs pk bs)), n + length (bundle_certs pk bs)))"
  using assms
proof (induction arbitrary: pool n rule: pem_blocks.induct)
  case (pem_end b)
  then show ?case by (subst bundle_loop.simps) simp
next
  case (pem_block b t c r bs)
  then show ?case by (subst bundle_loop.simps) (cases "pk_Parse pk c"; auto split: option.splits)
qed

lemma set_AddCert: "set (foldl AddCert pool cs) = set pool \<union> set cs"
  by (induction cs arbitrary: pool) (auto simp: AddCert_def)

lemma distinct_AddCert: "distinct pool \<Longrightarrow> distinct (foldl AddCert pool cs)"
  by (induction cs arbitrary: pool) (auto simp: AddCert_def)

lemma first_err_None: "first_err rs = None \<longleftrightarrow> (\<exists>xs. rs = map Inr xs)"
proof (induction rs rule: first_err.induct)
  case (3 x rs)
  then show ?case by (auto simp: Cons_eq_map_conv)
qed auto

lemma LoadCABundle_result:
  assumes "pem_blocks pk data bs" "ReadFile flt d path = Inr data"
  shows "LoadCABundle pk flt d path =
    Some (case first_err (bundle_certs pk bs) of
            Some e \<Rightarrow> Inl (''parse cert in '' @ path @ '': '' @ e)
          | None \<Rightarrow> if bundle_certs pk bs = [] then Inl (''no CERTIFICATE blocks in '' @ path)
                    else Inr (foldl AddCert [] (map projr (bundle_certs pk bs)), length (bundle_certs pk bs)))"
  using assms(2) by (simp add: LoadCABundle_def bundle_loop_blocks [OF assms(1)] split: option.splits)

interpretation mtr: reloadable "\<lambda>b. trusts (mb_pool b)" Bundle_Reload_result mb_loaded
proof
  show "s' = s \<and> mb_loaded env s = None" if "Bundle_Reload_result env s = (s', Inl e)" for env s s' e
    using that by (auto simp: Bundle_Reload_result_def mb_loaded_def Bundle_Reload_def split: prod.splits option.splits sum.splits)
  show "mb_loaded env s = Some (trusts (mb_pool s')) \<and> (\<forall>env'. mb_loaded env' s' = mb_loaded env' s)"
    if "Bundle_Reload_result env s = (s', Inr r)" for env s s' r
    using that by (auto simp: Bundle_Reload_result_def mb_loaded_def Bundle_Reload_def split: prod.splits option.splits sum.splits)
qed

section \<open>The authority\<close>

lemma ca_paths_differ: "filepath_Join [dir, caKeyFile] \<noteq> filepath_Join [dir, caCertFile]"
  using filepath_Join_name [of caKeyFile caCertFile dir dir] by (auto simp: plain_name_def caKeyFile_def caCertFile_def)

text \<open>What a completed \<open>write_ca\<close> leaves on the disk.\<close>

lemma write_ca_ok:
  assumes "write_ca env d kp cp keyPEM certPEM = (None, d')" "kp \<noteq> cp"
  shows "map_of d' kp = Some \<lparr>fl_data = keyPEM, fl_mode = mode600\<rparr>" "\<exists>m. map_of d' cp = Some \<lparr>fl_data = certPEM, fl_mode = m\<rparr>"
proof -
  from assms(1) obtain d1 d2 where
    W: "WriteFile (cv_umask env) (cv_write_key env) d kp keyPEM mode600 = (None, d1)"
    and C: "Chmod (cv_chmod env) d1 kp mode600 = (None, d2)"
    and V: "WriteFile (cv_umask env) (cv_write_cert env) d2 cp certPEM mode644 = (None, d')"
    by (auto simp: write_ca_def split: prod.splits option.splits)
  have "map_of d2 kp = Some \<lparr>fl_data = keyPEM, fl_mode = mode600\<rparr>"
    using C WriteFile_ok [OF W] by (auto simp: Chmod_def split: option.splits)
  then show "map_of d' kp = Some \<lparr>fl_data = keyPEM, fl_mode = mode600\<rparr>" using WriteFile_other [OF V assms(2)] by simp
  show "\<exists>m. map_of d' cp = Some \<lparr>fl_data = certPEM, fl_mode = m\<rparr>" using WriteFile_ok [OF V] by blast
qed

lemma write_ca_other: "write_ca env d kp cp keyPEM certPEM = (e, d') \<Longrightarrow> q \<noteq> kp \<Longrightarrow> q \<noteq> cp \<Longrightarrow> map_of d' q = map_of d q"
  by (auto simp: write_ca_def split: prod.splits option.splits dest!: WriteFile_other [of _ _ _ _ _ _ _ _ q] Chmod_other [of _ _ _ _ _ _ q])

lemma InitCA_cases:
  assumes "InitCA pk env dir force d = (e, d')"
  shows "e \<noteq> None \<and> d' = d \<or>
    (\<exists>k serial der pkcs8. cv_generate env = Inr k \<and> kk_Marshal8 pk (EcdsaKey k) = Inr pkcs8
       \<and> pk_Create pk (ca_template serial (cv_before env) (cv_after env)) None (pk_Public pk (EcdsaKey k)) (EcdsaKey k) = Inr der
       \<and> write_ca env d (filepath_Join [dir, caKeyFile]) (filepath_Join [dir, caCertFile])
           (kk_pem_Encode pk ''PRIVATE KEY'' pkcs8) (kk_pem_Encode pk ''CERTIFICATE'' der) = (e, d'))"
  using assms by (auto simp: InitCA_def Let_def split: if_splits option.splits sum.splits)

text \<open>The pieces of a directory written by \<open>InitCA\<close>.\<close>

lemma InitCA_ok:
  assumes "pem_roundtrip pk" "key_roundtrip pk" "x509_roundtrip pk" "InitCA pk env dir force d = (None, d')"
  obtains k c f der m where "cv_generate env = Inr k" "tp_IsCA c" "xc_pub c = pk_Public pk (EcdsaKey k)" "xc_signedBy c = xc_pub c"
    "map_of d' (filepath_Join [dir, caKeyFile]) = Some f" "fl_mode f = mode600"
    "map_of d' (filepath_Join [dir, caCertFile]) = Some \<lparr>fl_data = kk_pem_Encode pk ''CERTIFICATE'' der, fl_mode = m\<rparr>"
    "pk_Parse pk der = Inr c" "LoadCA pk None None d' dir = Inr \<lparr>ca_cert = c, ca_key = EcdsaKey k\<rparr>"
proof -
  from InitCA_cases [OF assms(4)] obtain k serial der pkcs8 where
    g: "cv_generate env = Inr k" and M: "kk_Marshal8 pk (EcdsaKey k) = Inr pkcs8"
    and C: "pk_Create pk (ca_template serial (cv_before env) (cv_after env)) None (pk_Public pk (EcdsaKey k)) (EcdsaKey k) = Inr der"
    and w: "write_ca env d (filepath_Join [dir, caKeyFile]) (filepath_Join [dir, caCertFile])
           (kk_pem_Encode pk ''PRIVATE KEY'' pkcs8) (kk_pem_Encode pk ''CERTIFICATE'' der) = (None, d')" by blast
  let ?c = "template.extend (ca_template serial (cv_before env) (cv_after env)) \<lparr>xc_pub = pk_Public pk (EcdsaKey k), xc_signedBy = pk_Public pk (EcdsaKey k)\<rparr>"
  have P: "pk_Parse pk der = Inr ?c" "kk_Parse8 pk pkcs8 = Inr (EcdsaKey k)"
    using assms(2,3) C M by (auto simp: x509_roundtrip_def key_roundtrip_def)
  note f = write_ca_ok [OF w ca_paths_differ]
  obtain m where m: "map_of d' (filepath_Join [dir, caCertFile]) = Some \<lparr>fl_data = kk_pem_Encode pk ''CERTIFICATE'' der, fl_mode = m\<rparr>"
    using f(2) by blast
  have L: "LoadCA pk None None d' dir = Inr \<lparr>ca_cert = ?c, ca_key = EcdsaKey k\<rparr>"
    using assms(1) f(1) m P by (simp add: LoadCA_def ReadFile_def pem_roundtrip_def)
  show ?thesis
    by (rule that [OF g _ _ _ f(1) _ m P(1) L]) (simp_all add: template.defs ca_template_def)
qed


lemma demo_pki_ok: "pem_roundtrip demo_pki" "key_roundtrip demo_pki" "x509_roundtrip demo_pki" "pem_shrinks demo_pki"
proof -
  have k: "kk_pem_Decode demo_pki = kk_pem_Decode demo_kit" "kk_pem_Encode demo_pki = kk_pem_Encode demo_kit"
    "kk_Parse8 demo_pki = kk_Parse8 demo_kit" "kk_Marshal8 demo_pki = kk_Marshal8 demo_kit"
    by (simp_all add: demo_pki_def keykit.defs Let_def)
  show "pem_roundtrip demo_pki" "key_roundtrip demo_pki"
    using demo_kit_ok by (simp_all add: pem_roundtrip_def key_roundtrip_def k)
  show "x509_roundtrip demo_pki"
    by (auto simp: x509_roundtrip_def demo_pki_def keykit.defs Let_def split: if_splits)
  show "pem_shrinks demo_pki"
    unfolding pem_shrinks_def k by (auto simp: demo_kit_def split: option.splits dest!: unframe_shorter)
qed

lemma demo_init: "\<exists>d'. InitCA demo_pki demo_ca_env ''/m'' False [] = (None, d')"
  by (simp add: InitCA_def demo_ca_env_def Stat_ok_def demo_pki_def keykit.defs Let_def demo_kit_def randomSerial_def
      demo_ca_cert_def write_ca_def WriteFile_def Chmod_def split: prod.splits)


section \<open>Loading a bundle\<close>

text \<open>
  The bundle of authorities.  For a file that could be read the loop over its PEM blocks ends (given that
  \<open>pem.Decode\<close> returns a shorter remainder), and \<open>LoadCABundle\<close> succeeds exactly when there is a
  \<open>CERTIFICATE\<close> block and all of them parse; then the pool holds exactly these certificates, each once, and the
  count is the number of the blocks.  Blocks of other types are skipped.
\<close>

theorem LoadCABundle_exact:
  assumes "pem_shrinks pk" "ReadFile flt d path = Inr data"
  shows "\<exists>bs. pem_blocks pk data bs \<and> LoadCABundle pk flt d path \<noteq> None
    \<and> (\<forall>pool n. LoadCABundle pk flt d path = Some (Inr (pool, n)) \<longrightarrow>
         n = length (bundle_certs pk bs) \<and> 0 < n \<and> map Inr (map projr (bundle_certs pk bs)) = bundle_certs pk bs
       \<and> set pool = set (map projr (bundle_certs pk bs)) \<and> distinct pool)
    \<and> (\<forall>cs. cs \<noteq> [] \<longrightarrow> bundle_certs pk bs = map Inr cs \<longrightarrow> (\<exists>pool. LoadCABundle pk flt d path = Some (Inr (pool, length cs))))"
proof -
  obtain bs where b: "pem_blocks pk data bs" using pem_blocks_exist [OF assms(1)] by blast
  note R = LoadCABundle_result [OF b assms(2)]
  have ok: "n = length (bundle_certs pk bs) \<and> 0 < n \<and> map Inr (map projr (bundle_certs pk bs)) = bundle_certs pk bs
       \<and> set pool = set (map projr (bundle_certs pk bs)) \<and> distinct pool" if l: "LoadCABundle pk flt d path = Some (Inr (pool, n))" for pool n
  proof -
    have f: "first_err (bundle_certs pk bs) = None" "bundle_certs pk bs \<noteq> []" "n = length (bundle_certs pk bs)"
      "pool = foldl AddCert [] (map projr (bundle_certs pk bs))"
      using l unfolding R by (auto split: option.splits if_splits)
    then show ?thesis using set_AddCert [of "[]"] distinct_AddCert [of "[]"] by (auto simp: first_err_None comp_def)
  qed
  have "\<exists>pool. LoadCABundle pk flt d path = Some (Inr (pool, length cs))" if "cs \<noteq> []" "bundle_certs pk bs = map Inr cs" for cs
    using that first_err_None [of "map Inr cs"] unfolding R by auto
  with b ok show ?thesis by (intro exI [of _ bs]) (auto simp: R)
qed

lemma demo_bundle_blocks:
  "pem_blocks demo_pki (frame ''CERTIFICATE'' @ frame ''A'' @ frame ''X'' @ frame ''Y'')
     [(''CERTIFICATE'', ''A''), (''X'', ''Y'')]"
proof -
  have k: "kk_pem_Decode demo_pki = kk_pem_Decode demo_kit" by (simp add: demo_pki_def keykit.defs Let_def)
  have e: "kk_pem_Decode demo_pki [] = None" by (simp add: k demo_kit_def unframe_def)
  have 2: "kk_pem_Decode demo_pki (frame ''X'' @ frame ''Y'') = Some (''X'', ''Y'', [])"
    using demo_kit_decode [of "''X''" "''Y''" "[]"] by (simp add: k)
  show ?thesis by (rule pem_block [OF _ pem_block [OF 2 pem_end [OF e]]]) (simp add: k)
qed

theorem LoadCABundle_exact_witness:
  "\<exists>pool. LoadCABundle demo_pki None [(''/b'', \<lparr>fl_data = frame ''CERTIFICATE'' @ frame ''A'' @ frame ''X'' @ frame ''Y'', fl_mode = 0\<rparr>)] ''/b''
      = Some (Inr (pool, 1)) \<and> set pool = {demo_ca_cert}"
proof -
  let ?d = "[(''/b'', \<lparr>fl_data = frame ''CERTIFICATE'' @ frame ''A'' @ frame ''X'' @ frame ''Y'', fl_mode = 0\<rparr>)]"
  have r: "ReadFile None ?d ''/b'' = Inr (frame ''CERTIFICATE'' @ frame ''A'' @ frame ''X'' @ frame ''Y'')" by (simp add: ReadFile_def)
  from LoadCABundle_exact [OF demo_pki_ok(4) r] obtain bs where
    b: "pem_blocks demo_pki (frame ''CERTIFICATE'' @ frame ''A'' @ frame ''X'' @ frame ''Y'') bs"
    and p: "\<And>pool n. LoadCABundle demo_pki None ?d ''/b'' = Some (Inr (pool, n)) \<Longrightarrow> set pool = set (map projr (bundle_certs demo_pki bs))"
    and c: "\<And>cs. cs \<noteq> [] \<Longrightarrow> bundle_certs demo_pki bs = map Inr cs \<Longrightarrow> \<exists>pool. LoadCABundle demo_pki None ?d ''/b'' = Some (Inr (pool, length cs))"
    by blast
  have bs: "bundle_certs demo_pki bs = map Inr [demo_ca_cert]"
    using pem_blocks_unique [OF demo_bundle_blocks b] by (simp add: demo_pki_def keykit.defs Let_def)
  from c [OF _ bs] obtain pool where P: "LoadCABundle demo_pki None ?d ''/b'' = Some (Inr (pool, 1))" by auto
  with p [OF P] bs show ?thesis by auto
qed

section \<open>Client certificates\<close>

lemma signPub_ok:
  assumes "pem_roundtrip pk" "x509_roundtrip pk" "signPub pk env ca cn pub v = Inr pem"
  shows "\<exists>c. issued pk pem c \<and> xc_pub c = pub \<and> xc_signedBy c = pk_Public pk (ca_key ca) \<and> tp_CommonName c = cn
     \<and> tp_ExtKeyUsage c = [ExtKeyUsageClientAuth] \<and> \<not> tp_IsCA c \<and> tp_NotBefore c = sg_before env - Hour \<and> tp_NotAfter c = sg_after env + v"
proof -
  from assms(3) obtain serial der where
    C: "pk_Create pk (client_template serial cn (sg_before env) (sg_after env) v) (Some (ca_cert ca)) pub (ca_key ca) = Inr der"
    and p: "pem = kk_pem_Encode pk ''CERTIFICATE'' der"
    by (auto simp: signPub_def split: sum.splits)
  let ?c = "template.extend (client_template serial cn (sg_before env) (sg_after env) v) \<lparr>xc_pub = pub, xc_signedBy = pk_Public pk (ca_key ca)\<rparr>"
  have "pk_Parse pk der = Inr ?c" using assms(2) C by (auto simp: x509_roundtrip_def)
  then have "issued pk pem ?c" using assms(1) p by (auto simp: issued_def pem_roundtrip_def)
  then show ?thesis by (intro exI [of _ ?c]) (simp add: template.defs client_template_def)
qed

lemma randomPassphrase_ok:
  "randomPassphrase rnd = Inr p \<Longrightarrow> \<exists>buf. rnd = Inr buf \<and> length p = length buf \<and> set p \<subseteq> set passphrase_alphabet"
proof -
  have "0 < length passphrase_alphabet" by (simp add: passphrase_alphabet_def)
  then have "passphrase_alphabet ! (n mod length passphrase_alphabet) \<in> set passphrase_alphabet" for n by (simp add: nth_mem)
  then show "randomPassphrase rnd = Inr p \<Longrightarrow> \<exists>buf. rnd = Inr buf \<and> length p = length buf \<and> set p \<subseteq> set passphrase_alphabet"
    by (auto simp: randomPassphrase_def split: sum.splits)
qed

lemma bundle_of_InitCA:
  assumes "pem_roundtrip pk" "pem_shrinks pk" "pk_Parse pk der = Inr c"
    "map_of d p = Some \<lparr>fl_data = kk_pem_Encode pk ''CERTIFICATE'' der, fl_mode = m\<rparr>"
  shows "loadMtlsBundle pk None d p = Some (Inr \<lparr>mb_path = p, mb_pool = [c], mb_n = 1\<rparr>)"
proof -
  have e: "kk_pem_Decode pk [] = None" using assms(2) by (cases "kk_pem_Decode pk []") (fastforce simp: pem_shrinks_def)+
  have "pem_blocks pk (kk_pem_Encode pk ''CERTIFICATE'' der) [(''CERTIFICATE'', der)]"
    using assms(1) by (auto simp: pem_roundtrip_def intro: pem_block pem_end e)
  from LoadCABundle_result [OF this, of None d p] assms(3,4) show ?thesis
    by (simp add: loadMtlsBundle_def ReadFile_def AddCert_def)
qed



end
