(* ===== verification/Boot.thy ===== *)
theory Boot
  imports Connect Cert_Ensurer Mtls Port_Policy
begin

text \<open>
  Starting the server and reloading it (\<open>cmd/swe-swe-tunneld/main.go\<close>): the precedence of flags and environment,
  the checks that refuse a configuration, what is loaded in which order, the two listeners, and what SIGHUP
  re-reads.  Parsing the command line is package \<open>flag\<close>: the model starts from the values of
  the flags and the names of those that were given.
\<close>

section \<open>Configuration\<close>

record options =
  op_apex :: string
  op_email :: string
  op_stateDir :: string
  op_ensureCert :: string
  op_ipLimit :: int
  op_keyLimit :: int
  op_skewLimit :: int
  op_ordersPerHour :: int
  op_ordersParallel :: int
  op_allowlistDir :: string
  op_openRegistration :: bool
  op_allowedPorts :: string
  op_allowedPortsFile :: string
  op_noAcme :: bool
  op_mtlsCA :: string
  op_registerListen :: string
  op_given :: "string list"

definition flagSet :: "options \<Rightarrow> string \<Rightarrow> bool" where
  "flagSet opt n \<longleftrightarrow> n \<in> set (op_given opt)"

text \<open>A string flag whose empty value is filled in from the environment.\<close>

definition or_env :: "(string \<Rightarrow> string) \<Rightarrow> string \<Rightarrow> string \<Rightarrow> string" where
  "or_env getenv v name = (if v = [] then getenv name else v)"

definition resolveEnv :: "(string \<Rightarrow> string) \<Rightarrow> string \<Rightarrow> options \<Rightarrow> options" where
  "resolveEnv getenv defaultState opt =
     (let envS = getenv ''SWE_TUNNEL_STATE''; envP = getenv ''SWE_TUNNEL_ALLOWED_PORTS'' in
      opt\<lparr>op_apex := or_env getenv (op_apex opt) ''SWE_TUNNEL_APEX'',
        op_email := or_env getenv (op_email opt) ''SWE_TUNNEL_ACME_EMAIL'',
        op_stateDir := (if envS \<noteq> [] \<and> op_stateDir opt = defaultState then envS else op_stateDir opt),
        op_allowlistDir := or_env getenv (op_allowlistDir opt) ''SWE_TUNNEL_ALLOWLIST_DIR'',
        op_openRegistration := (if \<not> flagSet opt ''open-registration'' \<and> getenv ''SWE_TUNNEL_OPEN_REGISTRATION'' = ''1''
                                then True else op_openRegistration opt),
        op_allowedPorts := (if envP \<noteq> [] \<and> \<not> flagSet opt ''allowed-ports'' then envP else op_allowedPorts opt),
        op_allowedPortsFile := or_env getenv (op_allowedPortsFile opt) ''SWE_TUNNEL_ALLOWED_PORTS_FILE'',
        op_noAcme := (if \<not> flagSet opt ''no-acme'' \<and> getenv ''SWE_TUNNEL_NO_ACME'' = ''1'' then True else op_noAcme opt),
        op_mtlsCA := or_env getenv (op_mtlsCA opt) ''SWE_TUNNEL_MTLS_CA'',
        op_registerListen := or_env getenv (op_registerListen opt) ''SWE_TUNNEL_REGISTER_LISTEN_WITHOUT_MTLS''\<rparr>)"

definition requireFlags :: "string \<Rightarrow> string \<Rightarrow> bool \<Rightarrow> string option" where
  "requireFlags apex email noAcme =
     (if apex = [] then Some ''--apex-domain is required (or SWE_TUNNEL_APEX)''
      else if \<not> noAcme \<and> email = []
      then Some ''--acme-email is required when ACME is enabled (or SWE_TUNNEL_ACME_EMAIL); pass --no-acme to skip ACME entirely''
      else None)"

definition validateRegistrationGate :: "string \<Rightarrow> bool \<Rightarrow> string option" where
  "validateRegistrationGate allowlistDir openRegistration =
     (if allowlistDir = [] \<and> \<not> openRegistration
      then Some (''refusing to start without a registration gate: set --allowlist-dir (or SWE_TUNNEL_ALLOWLIST_DIR) to a directory of approved pubkeys, ''
                 @ ''or pass --open-registration (or SWE_TUNNEL_OPEN_REGISTRATION=1) to let anyone register'')
      else if allowlistDir \<noteq> [] \<and> openRegistration
      then Some ''--allowlist-dir and --open-registration are mutually exclusive''
      else None)"

definition validateRegisterListen :: "string \<Rightarrow> string \<Rightarrow> string \<Rightarrow> string option" where
  "validateRegisterListen registerAddr mtlsCA allowlistDir =
     (if registerAddr = [] then None
      else if mtlsCA = []
      then Some ''--register-listen-without-mtls requires --mtls-ca (the main listener already accepts cert-less registration when mTLS is off)''
      else if allowlistDir = []
      then Some ''--register-listen-without-mtls requires --allowlist-dir (a cert-less registration port without an allowlist is open to the internet)''
      else None)"

definition loadPortPolicy ::
  "(string \<Rightarrow> bytes result) \<Rightarrow> (string \<Rightarrow> string) \<Rightarrow> options \<Rightarrow> string \<Rightarrow> string \<Rightarrow> (set_err + parse_err) + PortSet" where
  "loadPortPolicy rd getenv opt inl file' =
     (if file' \<noteq> [] then map_sum Inl id (LoadFile rd file')
      else
        (let src = (if flagSet opt ''allowed-ports'' then ''flag''
                    else if getenv ''SWE_TUNNEL_ALLOWED_PORTS'' \<noteq> [] then ''env'' else ''default'')
         in map_sum Inr id (LoadInline inl src)))"

section \<open>The certificate service\<close>

datatype certService = ACME Manager | Preprovisioned certStore

primrec service_store :: "certService \<Rightarrow> certStore" where
  "service_store (ACME m) = m_store m"
| "service_store (Preprovisioned s) = s"

primrec with_store :: "certService \<Rightarrow> certStore \<Rightarrow> certService" where
  "with_store (ACME m) s = ACME (m\<lparr>m_store := s\<rparr>)"
| "with_store (Preprovisioned _) s = Preprovisioned s"

text \<open>What a scan of the certificate directory finds.\<close>

record cert_dir =
  cd_uni :: "string \<Rightarrow> string"
  cd_x509 :: x509
  cd_mkdir :: "string option"
  cd_names :: "string list result"
  cd_read :: "string \<Rightarrow> read_result"

text \<open>\<open>LoadAllFromDisk\<close> of either service, and the SIGHUP hook around it.\<close>

definition LoadAllFromDisk :: "cert_dir \<Rightarrow> certService \<Rightarrow> nat result \<times> certService" where
  "LoadAllFromDisk cd c =
     (case loadAllFromDir (cd_uni cd) (cd_x509 cd) (cd_mkdir cd) (cd_names cd) (cd_read cd) (service_store c) of
        Inl e \<Rightarrow> (Inl e, c)
      | Inr (s, n) \<Rightarrow> (Inr n, with_store c s))"

definition reloadCerts :: "cert_dir \<Rightarrow> certService \<Rightarrow> certService" where
  "reloadCerts cd c = snd (LoadAllFromDisk cd c)"

section \<open>Boot\<close>

text \<open>The environment and the files at boot; \<open>bt_open\<close> is \<open>identity.Open\<close>.\<close>

record 'k boot_env =
  bt_getenv :: "string \<Rightarrow> string"
  bt_defaultState :: string
  bt_ports :: "string \<Rightarrow> bytes result"
  bt_certs :: cert_dir
  bt_acme :: acme_env
  bt_open :: "string \<Rightarrow> Store result"
  bt_allow :: fs
  bt_pki :: "'k pki"
  bt_ca_fault :: "string option"
  bt_disk :: disk

record daemon =
  dm_server :: "certService server"
  dm_ports :: "PortSet option"
  dm_mtls :: "mtlsBundle option"
  dm_apex :: string
  dm_registerListen :: string

datatype boot_out = Exit nat | Listening daemon

text \<open>Lines 232-311: the service is ready, or the process ends with an exit code.\<close>

definition startCerts :: "'k boot_env \<Rightarrow> options \<Rightarrow> nat + certService" where
  "startCerts env opt =
     (let cd = bt_certs env in
      if op_noAcme opt then
        (if op_ensureCert opt \<noteq> [] then Inl 0 else Inr (Preprovisioned (newCertStore (op_apex opt))))
      else
        (let mgr = SetOrderLimit (Manager_New (op_apex opt)) (op_ordersPerHour opt) (op_ordersParallel opt) in
         if op_ensureCert opt \<noteq> [] then
           (case Manager_EnsureName (cd_uni cd) (cd_x509 cd) (bt_acme env) mgr (op_ensureCert opt) of
              (Some _, _) \<Rightarrow> Inl 1
            | (None, _) \<Rightarrow> Inl 0)
         else
           (case Manager_Ensure (cd_uni cd) (cd_x509 cd) (bt_acme env) mgr of
              (Some _, _) \<Rightarrow> Inl 1
            | (None, mgr1, _) \<Rightarrow> Inr (ACME mgr1))))"

text \<open>Lines 349-369: an empty directory name means no allowlist.\<close>

definition startAllow :: "'k boot_env \<Rightarrow> options \<Rightarrow> nat + AllowSet option" where
  "startAllow env opt =
     (if op_allowlistDir opt \<noteq> [] then
        (case Allow_Load (bt_allow env) (op_allowlistDir opt) of Inl _ \<Rightarrow> Inl 1 | Inr a \<Rightarrow> Inr (Some a))
      else Inr None)"

definition startMtls :: "'k boot_env \<Rightarrow> options \<Rightarrow> (nat + mtlsBundle option) option" where
  "startMtls env opt =
     (if op_mtlsCA opt \<noteq> [] then
        (case loadMtlsBundle (bt_pki env) (bt_ca_fault env) (bt_disk env) (op_mtlsCA opt) of
           None \<Rightarrow> None
         | Some (Inl _) \<Rightarrow> Some (Inl 1)
         | Some (Inr b) \<Rightarrow> Some (Inr (Some b)))
      else Some (Inr None))"

text \<open>Lines 312-387: everything after the certificate service; \<open>None\<close> if loading the bundle never returns.\<close>

definition startServer :: "'k boot_env \<Rightarrow> options \<Rightarrow> PortSet \<Rightarrow> certService \<Rightarrow> boot_out option" where
  "startServer env opt ports c =
     (let c1 = snd (LoadAllFromDisk (bt_certs env) c) in
      case bt_open env (filepath_Join [op_stateDir opt, ''identities.db'']) of
        Inl _ \<Rightarrow> Some (Exit 1)
      | Inr store \<Rightarrow>
          (case startAllow env opt of
             Inl code \<Rightarrow> Some (Exit code)
           | Inr allow \<Rightarrow>
               (case startMtls env opt of
                  None \<Rightarrow> None
                | Some (Inl code) \<Rightarrow> Some (Exit code)
                | Some (Inr mtlsB) \<Rightarrow>
                    Some (Listening
                      \<lparr>dm_server = \<lparr>sv_reg = newRegistry, sv_store = store, sv_cert = c1,
                          sv_ip = Some (SlidingWindow_New (op_ipLimit opt) Hour),
                          sv_pub = Some (SlidingWindow_New (op_keyLimit opt) (24 * Hour)),
                          sv_refund = Some (SlidingWindow_New (op_skewLimit opt) Hour), sv_allow = allow\<rparr>,
                       dm_ports = Some ports, dm_mtls = mtlsB, dm_apex = op_apex opt,
                       dm_registerListen = op_registerListen opt\<rparr>))))"

definition boot :: "'k boot_env \<Rightarrow> options \<Rightarrow> boot_out option" where
  "boot env opt0 =
     (let opt = resolveEnv (bt_getenv env) (bt_defaultState env) opt0 in
      if requireFlags (op_apex opt) (op_email opt) (op_noAcme opt) \<noteq> None then Some (Exit 2)
      else if validateRegistrationGate (op_allowlistDir opt) (op_openRegistration opt) \<noteq> None then Some (Exit 2)
      else if op_allowedPortsFile opt \<noteq> [] \<and> flagSet opt ''allowed-ports'' then Some (Exit 2)
      else if validateRegisterListen (op_registerListen opt) (op_mtlsCA opt) (op_allowlistDir opt) \<noteq> None then Some (Exit 2)
      else
        (case loadPortPolicy (bt_ports env) (bt_getenv env) opt (op_allowedPorts opt) (op_allowedPortsFile opt) of
           Inl _ \<Rightarrow> Some (Exit 1)
         | Inr ports \<Rightarrow>
             (case startCerts env opt of
                Inl code \<Rightarrow> Some (Exit code)
              | Inr c \<Rightarrow> startServer env opt ports c)))"

section \<open>Listeners\<close>

datatype client_auth = NoClientCert | VerifyClientCertIfGiven | RequireAndVerifyClientCert

record tls_config =
  tc_ClientAuth :: client_auth
  tc_ClientCAs :: "certificate list"

text \<open>The configuration of a handshake on the main listener, read when the handshake starts.\<close>

definition mainTLSConfig :: "mtlsBundle option \<Rightarrow> tls_config" where
  "mainTLSConfig b =
     (case b of
        None \<Rightarrow> \<lparr>tc_ClientAuth = NoClientCert, tc_ClientCAs = []\<rparr>
      | Some b \<Rightarrow> \<lparr>tc_ClientAuth = RequireAndVerifyClientCert, tc_ClientCAs = mb_pool b\<rparr>)"

definition registerTLSConfig :: "mtlsBundle option \<Rightarrow> tls_config" where
  "registerTLSConfig b =
     \<lparr>tc_ClientAuth = VerifyClientCertIfGiven, tc_ClientCAs = (case b of None \<Rightarrow> [] | Some b \<Rightarrow> mb_pool b)\<rparr>"

text \<open>
  What \<open>crypto/tls\<close> does with the certificate the client presents: the handshake fails, or the request carries
  these peer certificates.
\<close>

definition handshake :: "tls_config \<Rightarrow> certificate option \<Rightarrow> certificate list option" where
  "handshake cfg presented =
     (case tc_ClientAuth cfg of
        NoClientCert \<Rightarrow> Some []
      | VerifyClientCertIfGiven \<Rightarrow>
          (case presented of None \<Rightarrow> Some [] | Some c \<Rightarrow> if trusts (tc_ClientCAs cfg) c then Some [c] else None)
      | RequireAndVerifyClientCert \<Rightarrow>
          (case presented of None \<Rightarrow> None | Some c \<Rightarrow> if trusts (tc_ClientCAs cfg) c then Some [c] else None))"

datatype endpoint = ConnectEndpoint | RouteEndpoint | HealthEndpoint

definition listeners :: "daemon \<Rightarrow> (tls_config \<times> endpoint list) list" where
  "listeners dm =
     (mainTLSConfig (dm_mtls dm), [ConnectEndpoint, RouteEndpoint])
     # (if dm_registerListen dm \<noteq> [] then [(registerTLSConfig (dm_mtls dm), [ConnectEndpoint, HealthEndpoint])] else [])"

section \<open>SIGHUP\<close>

record 'k hup_env =
  hp_allow :: fs
  hp_sha :: "bytes \<Rightarrow> bytes"
  hp_ports :: "string \<Rightarrow> bytes result"
  hp_certs :: cert_dir
  hp_pki :: "'k pki"
  hp_ca_fault :: "string option"
  hp_disk :: disk

text \<open>The allowlist afterwards and the sessions that were closed.\<close>

definition reloadAllowlistAndRevoke ::
  "fs \<Rightarrow> (bytes \<Rightarrow> bytes) \<Rightarrow> AllowSet \<Rightarrow> registry \<Rightarrow> AllowSet \<times> (string \<times> string \<times> session) list" where
  "reloadAllowlistAndRevoke F sha a reg =
     (case Allow_Reload F a of
        (a', Inl _) \<Rightarrow> (a', [])
      | (a', Inr _) \<Rightarrow> (a', RevokeMissing sha (Some a') reg))"

definition reloadPortPolicy :: "(string \<Rightarrow> bytes result) \<Rightarrow> PortSet option \<Rightarrow> PortSet option" where
  "reloadPortPolicy rd ports =
     (case ports of
        None \<Rightarrow> None
      | Some ps \<Rightarrow> if Set_File ports = [] then ports else fst (Set_Reload rd ports))"

definition sighup :: "'k hup_env \<Rightarrow> daemon \<Rightarrow> daemon \<times> (string \<times> string \<times> session) list" where
  "sighup h dm =
     (let sv = dm_server dm;
          (allow, revoked) = (case sv_allow sv of
              None \<Rightarrow> (None, [])
            | Some a \<Rightarrow> (let (a', rv) = reloadAllowlistAndRevoke (hp_allow h) (hp_sha h) a (sv_reg sv) in (Some a', rv)))
      in (dm\<lparr>dm_server := sv\<lparr>sv_allow := allow, sv_cert := reloadCerts (hp_certs h) (sv_cert sv)\<rparr>,
             dm_ports := reloadPortPolicy (hp_ports h) (dm_ports dm),
             dm_mtls := reloadMtlsBundle (hp_pki h) (hp_ca_fault h) (hp_disk h) (dm_mtls dm)\<rparr>,
          revoked))"

definition sighups :: "'k hup_env list \<Rightarrow> daemon \<Rightarrow> daemon" where
  "sighups hs dm = foldl (\<lambda>d h. fst (sighup h d)) dm hs"

section \<open>Sample values\<close>

definition demo_certs :: cert_dir where
  "demo_certs = \<lparr>cd_uni = id, cd_x509 = demo_x509, cd_mkdir = None, cd_names = Inr [], cd_read = (\<lambda>_. NotExist)\<rparr>"

definition demo_disk :: disk where
  "demo_disk = [(''/b'', \<lparr>fl_data = frame ''CERTIFICATE'' @ frame ''A'' @ frame ''X'' @ frame ''Y'', fl_mode = 0\<rparr>)]"

definition demo_boot_env :: "bytes boot_env" where
  "demo_boot_env = \<lparr>bt_getenv = (\<lambda>n. if n = ''SWE_TUNNEL_ALLOWLIST_DIR'' then ''/d'' else []), bt_defaultState = ''/s'',
     bt_ports = (\<lambda>_. Inl ''no file''), bt_certs = demo_certs, bt_acme = demo_env 0, bt_open = (\<lambda>_. Inr []),
     bt_allow = demo_fs, bt_pki = demo_pki, bt_ca_fault = None, bt_disk = demo_disk\<rparr>"

definition demo_options :: options where
  "demo_options = \<lparr>op_apex = ''ex.com'', op_email = [], op_stateDir = ''/s'', op_ensureCert = [], op_ipLimit = 5, op_keyLimit = 10,
     op_skewLimit = 10, op_ordersPerHour = 20, op_ordersParallel = 3, op_allowlistDir = [], op_openRegistration = False,
     op_allowedPorts = ''all'', op_allowedPortsFile = [], op_noAcme = True, op_mtlsCA = ''/b'', op_registerListen = '':8443'',
     op_given = [''no-acme'']\<rparr>"

definition demo_hup :: "bytes hup_env" where
  "demo_hup = \<lparr>hp_allow = demo_fs\<lparr>fs_ReadDir := \<lambda>_. Inr []\<rparr>, hp_sha = id, hp_ports = (\<lambda>_. Inl ''io''), hp_certs = demo_certs,
     hp_pki = demo_pki, hp_ca_fault = Some ''io'', hp_disk = demo_disk\<rparr>"

section \<open>Lemmas\<close>

lemma last_loaded_map: "last_loaded f (map g xs) = last_loaded (\<lambda>x. f (g x)) xs"
  by (induction xs) (auto split: option.splits)

lemma reloadPortPolicy_Set_Reload: "reloadPortPolicy rd ports = fst (Set_Reload rd ports)"
  by (auto simp: reloadPortPolicy_def Set_Reload_def Set_File_def split: option.splits)

lemma reloadAllowlist_fst: "fst (reloadAllowlistAndRevoke F sha a reg) = fst (Allow_Reload F a)"
  by (auto simp: reloadAllowlistAndRevoke_def split: prod.splits sum.splits)

lemma reloadMtls_result: "fst (Bundle_Reload pk flt d b) = fst (Bundle_Reload_result (pk, flt, d) b)"
  by (auto simp: Bundle_Reload_result_def split: prod.splits option.splits sum.splits)

text \<open>Each arm of the hook depends on its own input only.\<close>

lemma sighup_arms:
  "dm_ports (fst (sighup h dm)) = fst (Set_Reload (hp_ports h) (dm_ports dm))"
  "sv_allow (dm_server (fst (sighup h dm))) = map_option (\<lambda>a. fst (Allow_Reload (hp_allow h) a)) (sv_allow (dm_server dm))"
  "dm_mtls (fst (sighup h dm)) = map_option (\<lambda>b. fst (Bundle_Reload_result (hp_pki h, hp_ca_fault h, hp_disk h) b)) (dm_mtls dm)"
  "sv_cert (dm_server (fst (sighup h dm))) = reloadCerts (hp_certs h) (sv_cert (dm_server dm))"
  "dm_apex (fst (sighup h dm)) = dm_apex dm" "dm_registerListen (fst (sighup h dm)) = dm_registerListen dm"
  "sv_reg (dm_server (fst (sighup h dm))) = sv_reg (dm_server dm)" "sv_store (dm_server (fst (sighup h dm))) = sv_store (dm_server dm)"
  "sv_ip (dm_server (fst (sighup h dm))) = sv_ip (dm_server dm)" "sv_pub (dm_server (fst (sighup h dm))) = sv_pub (dm_server dm)"
  "sv_refund (dm_server (fst (sighup h dm))) = sv_refund (dm_server dm)"
  by (auto simp: sighup_def Let_def reloadPortPolicy_Set_Reload reloadMtlsBundle_def reloadMtls_result
      reloadAllowlist_fst [symmetric, where sha = "hp_sha h" and reg = "sv_reg (dm_server dm)"] split: prod.splits option.splits)

lemma sighups_simps [simp]: "sighups [] dm = dm" "sighups (h # hs) dm = sighups hs (fst (sighup h dm))"
  by (simp_all add: sighups_def)

lemma sighups_ports: "dm_ports (sighups hs dm) = foldl (\<lambda>s rd. fst (Set_Reload rd s)) (dm_ports dm) (map hp_ports hs)"
  by (induction hs arbitrary: dm) (simp_all add: sighup_arms)

lemma sighups_allow:
  "sv_allow (dm_server (sighups hs dm)) = map_option (\<lambda>a. foldl (\<lambda>s F. fst (Allow_Reload F s)) a (map hp_allow hs)) (sv_allow (dm_server dm))"
  by (induction hs arbitrary: dm) (simp_all add: sighup_arms option.map_comp comp_def option.map_ident)

lemma sighups_mtls:
  "dm_mtls (sighups hs dm)
     = map_option (\<lambda>b. foldl (\<lambda>s e. fst (Bundle_Reload_result e s)) b (map (\<lambda>h. (hp_pki h, hp_ca_fault h, hp_disk h)) hs)) (dm_mtls dm)"
  by (induction hs arbitrary: dm) (simp_all add: sighup_arms option.map_comp comp_def option.map_ident)

lemma sighups_rest:
  "dm_apex (sighups hs dm) = dm_apex dm" "dm_registerListen (sighups hs dm) = dm_registerListen dm"
  "sv_reg (dm_server (sighups hs dm)) = sv_reg (dm_server dm)" "sv_store (dm_server (sighups hs dm)) = sv_store (dm_server dm)"
  "sv_ip (dm_server (sighups hs dm)) = sv_ip (dm_server dm)" "sv_pub (dm_server (sighups hs dm)) = sv_pub (dm_server dm)"
  "sv_refund (dm_server (sighups hs dm)) = sv_refund (dm_server dm)"
  by (induction hs arbitrary: dm) (simp_all add: sighup_arms)

lemma sighup_revoked:
  assumes "maps_wf (sv_reg (dm_server dm))"
  shows "(label, fp, ts) \<in> set (snd (sighup h dm)) \<longleftrightarrow>
    (\<exists>a a' r k. sv_allow (dm_server dm) = Some a \<and> Allow_Reload (hp_allow h) a = (a', Inr r)
       \<and> by_key (sv_reg (dm_server dm)) k label = Some ts \<and> \<not> Allow_Contains a' k \<and> fp = fingerprint (hp_sha h) k)"
  by (auto simp: sighup_def Let_def reloadAllowlistAndRevoke_def RevokeMissing_mem [OF assms] split: option.splits prod.splits sum.splits)

section \<open>Properties\<close>

text \<open>
  C6: what is in force after any number of SIGHUPs.  The port policy, the allowlist and the pool of trusted authorities
  are, each on its own, what their file or directory said at the last SIGHUP at which it could be read and
  parsed, or else what they were at the start; an inline port policy never changes.  The registry, the ownership
  table and the limiters are untouched.  A SIGHUP closes a session exactly if the allowlist was reloaded
  and no longer has the key of the session; a failed reload closes none.
\<close>

theorem sighup_last_good:
  "Set_Permits (dm_ports (sighups hs dm))
      = (case last_loaded (\<lambda>h. ps_loaded (hp_ports h) (dm_ports dm)) hs of None \<Rightarrow> Set_Permits (dm_ports dm) | Some p \<Rightarrow> p)
   \<and> (\<forall>a. sv_allow (dm_server dm) = Some a \<longrightarrow> (\<exists>a'. sv_allow (dm_server (sighups hs dm)) = Some a'
        \<and> Allow_Contains a' = (case last_loaded (\<lambda>h. al_loaded (hp_allow h) a) hs of None \<Rightarrow> Allow_Contains a | Some p \<Rightarrow> p)))
   \<and> (\<forall>b. dm_mtls dm = Some b \<longrightarrow> (\<exists>b'. dm_mtls (sighups hs dm) = Some b'
        \<and> trusts (mb_pool b') = (case last_loaded (\<lambda>h. mb_loaded (hp_pki h, hp_ca_fault h, hp_disk h) b) hs of
                                   None \<Rightarrow> trusts (mb_pool b) | Some p \<Rightarrow> p)))
   \<and> sv_reg (dm_server (sighups hs dm)) = sv_reg (dm_server dm) \<and> sv_store (dm_server (sighups hs dm)) = sv_store (dm_server dm)
   \<and> sv_ip (dm_server (sighups hs dm)) = sv_ip (dm_server dm) \<and> sv_pub (dm_server (sighups hs dm)) = sv_pub (dm_server dm)
   \<and> (maps_wf (sv_reg (dm_server dm)) \<longrightarrow> (\<forall>h label fp ts. (label, fp, ts) \<in> set (snd (sighup h dm)) \<longleftrightarrow>
        (\<exists>a a' r k. sv_allow (dm_server dm) = Some a \<and> Allow_Reload (hp_allow h) a = (a', Inr r)
           \<and> by_key (sv_reg (dm_server dm)) k label = Some ts \<and> \<not> Allow_Contains a' k \<and> fp = fingerprint (hp_sha h) k)))"
proof (intro conjI impI)
  show "Set_Permits (dm_ports (sighups hs dm))
      = (case last_loaded (\<lambda>h. ps_loaded (hp_ports h) (dm_ports dm)) hs of None \<Rightarrow> Set_Permits (dm_ports dm) | Some p \<Rightarrow> p)"
    using psr.reloads [of "dm_ports dm" "map hp_ports hs"] by (simp add: sighups_ports last_loaded_map)
  show "\<forall>a. sv_allow (dm_server dm) = Some a \<longrightarrow> (\<exists>a'. sv_allow (dm_server (sighups hs dm)) = Some a'
        \<and> Allow_Contains a' = (case last_loaded (\<lambda>h. al_loaded (hp_allow h) a) hs of None \<Rightarrow> Allow_Contains a | Some p \<Rightarrow> p))"
    using alr.reloads [of _ "map hp_allow hs"] by (simp add: sighups_allow last_loaded_map)
  show "\<forall>b. dm_mtls dm = Some b \<longrightarrow> (\<exists>b'. dm_mtls (sighups hs dm) = Some b'
        \<and> trusts (mb_pool b') = (case last_loaded (\<lambda>h. mb_loaded (hp_pki h, hp_ca_fault h, hp_disk h) b) hs of
                                   None \<Rightarrow> trusts (mb_pool b) | Some p \<Rightarrow> p))"
    using mtr.reloads [of _ "map (\<lambda>h. (hp_pki h, hp_ca_fault h, hp_disk h)) hs"] by (simp add: sighups_mtls last_loaded_map)
qed (simp_all add: sighups_rest sighup_revoked)

text \<open>
  The parts of a boot that ended in listening.
\<close>

lemma boot_Listening:
  assumes "boot env opt0 = Some (Listening dm)" "opt = resolveEnv (bt_getenv env) (bt_defaultState env) opt0"
  obtains ports c where "op_apex opt \<noteq> []" "validateRegistrationGate (op_allowlistDir opt) (op_openRegistration opt) = None"
    "validateRegisterListen (op_registerListen opt) (op_mtlsCA opt) (op_allowlistDir opt) = None"
    "loadPortPolicy (bt_ports env) (bt_getenv env) opt (op_allowedPorts opt) (op_allowedPortsFile opt) = Inr ports"
    "startServer env opt ports c = Some (Listening dm)"
  using assms by (auto simp: boot_def Let_def requireFlags_def split: if_splits sum.splits)

lemma startServer_Listening:
  assumes "startServer env opt ports c = Some (Listening dm)"
  shows "startAllow env opt = Inr (sv_allow (dm_server dm))" "startMtls env opt = Some (Inr (dm_mtls dm))"
    "dm_ports dm = Some ports" "dm_apex dm = op_apex opt" "dm_registerListen dm = op_registerListen opt"
    "sv_reg (dm_server dm) = newRegistry"
  using assms by (auto simp: startServer_def Let_def split: sum.splits option.splits)

lemma handleRegister_allowed:
  assumes "handleRegister env peer addr sv st = (Some res, sv', st')" "\<forall>p s. sv_allow (re_yield env p s) = sv_allow s"
    "sv_allow sv = Some a"
  shows "Allow_Contains a (rr_pubkey res)"
  using assms(1) by (rule handleRegister_accepts) (use assms(2,3) in \<open>auto dest!: registerLookup_accepts\<close>)

text \<open>
  C5: a started server is gated as configured, and stays so.  If the server starts listening, then after any number
  of SIGHUPs: there is no allowlist exactly if open registration was asked for, by flag or environment; otherwise every
  accepted Register is by a key on the allowlist in force.  The listener without mTLS exists only together with an
  allowlist and a pool of authorities.  With \<open>--mtls-ca\<close> every request that reaches the router, and so an
  application behind a tunnel, comes over a handshake with a certificate that the pool in force trusts,
  and no listener passes on a certificate that the pool does not trust.
\<close>

theorem boot_gate:
  assumes "boot env opt0 = Some (Listening dm0)" "opt = resolveEnv (bt_getenv env) (bt_defaultState env) opt0" "dm = sighups hs dm0"
  shows "(sv_allow (dm_server dm) = None \<longleftrightarrow> op_openRegistration opt)
   \<and> (\<forall>renv peer addr st res sv' st'. \<not> op_openRegistration opt \<longrightarrow> (\<forall>p s. sv_allow (re_yield renv p s) = sv_allow s) \<longrightarrow>
        handleRegister renv peer addr (dm_server dm) st = (Some res, sv', st') \<longrightarrow>
        (\<exists>a. sv_allow (dm_server dm) = Some a \<and> Allow_Contains a (rr_pubkey res)))
   \<and> (dm_registerListen dm \<noteq> [] \<longrightarrow> sv_allow (dm_server dm) \<noteq> None \<and> dm_mtls dm \<noteq> None)
   \<and> (op_mtlsCA opt \<noteq> [] \<longrightarrow> (\<exists>b. dm_mtls dm = Some b
        \<and> (\<forall>cfg eps presented peers. (cfg, eps) \<in> set (listeners dm) \<longrightarrow> handshake cfg presented = Some peers \<longrightarrow>
             (\<forall>c\<in>set peers. trusts (mb_pool b) c) \<and> (RouteEndpoint \<in> set eps \<longrightarrow> peers \<noteq> []))))
   \<and> dm_apex dm = op_apex opt \<and> dm_apex dm \<noteq> []"
proof -
  from boot_Listening [OF assms(1,2)] obtain ports c where
    b: "op_apex opt \<noteq> []" "validateRegistrationGate (op_allowlistDir opt) (op_openRegistration opt) = None"
    "validateRegisterListen (op_registerListen opt) (op_mtlsCA opt) (op_allowlistDir opt) = None"
    and S: "startServer env opt ports c = Some (Listening dm0)" by blast
  note s = startServer_Listening [OF S]
  have A: "sv_allow (dm_server dm0) = None \<longleftrightarrow> op_allowlistDir opt = []"
    using s(1) by (cases "sv_allow (dm_server dm0)") (auto simp: startAllow_def split: if_splits sum.splits)
  have M: "dm_mtls dm0 = None \<longleftrightarrow> op_mtlsCA opt = []"
    using s(2) by (cases "dm_mtls dm0") (auto simp: startMtls_def split: if_splits sum.splits option.splits)
  have G: "op_allowlistDir opt = [] \<longleftrightarrow> op_openRegistration opt"
    using b(2) by (auto simp: validateRegistrationGate_def split: if_splits)
  have A': "sv_allow (dm_server dm) = None \<longleftrightarrow> op_openRegistration opt" using A G by (simp add: assms(3) sighups_allow)
  have M': "dm_mtls dm = None \<longleftrightarrow> op_mtlsCA opt = []" using M by (simp add: assms(3) sighups_mtls)
  have R: "dm_registerListen dm \<noteq> [] \<longrightarrow> op_mtlsCA opt \<noteq> [] \<and> op_allowlistDir opt \<noteq> []"
    using b(3) s(5) by (auto simp: validateRegisterListen_def assms(3) sighups_rest split: if_splits)
  have H: "\<exists>b. dm_mtls dm = Some b
        \<and> (\<forall>cfg eps presented peers. (cfg, eps) \<in> set (listeners dm) \<longrightarrow> handshake cfg presented = Some peers \<longrightarrow>
             (\<forall>c\<in>set peers. trusts (mb_pool b) c) \<and> (RouteEndpoint \<in> set eps \<longrightarrow> peers \<noteq> []))" if n: "op_mtlsCA opt \<noteq> []"
  proof -
    obtain b where "dm_mtls dm = Some b" using M' n by blast
    then show ?thesis
      by (auto simp: listeners_def mainTLSConfig_def registerTLSConfig_def handshake_def split: option.splits if_splits)
  qed
  have "\<exists>a. sv_allow (dm_server dm) = Some a \<and> Allow_Contains a (rr_pubkey res)"
    if "\<not> op_openRegistration opt" "\<forall>p s. sv_allow (re_yield renv p s) = sv_allow s"
      "handleRegister renv peer addr (dm_server dm) st = (Some res, sv', st')" for renv peer addr st res sv' st'
    using that A' handleRegister_allowed [OF that(3,2)] by auto
  then show ?thesis
    using A' R H G M' b(1) s(4) by (auto simp: assms(3) sighups_rest)
qed

lemma demo_boot_at:
  "\<exists>dm. boot (demo_boot_env\<lparr>bt_defaultState := dir, bt_open := \<lambda>p. Inr (dbs p)\<rparr>) (demo_options\<lparr>op_stateDir := dir\<rparr>) = Some (Listening dm)"
proof -
  have al: "\<exists>a. Allow_Load demo_fs ''/d'' = Inr a" using demo_load by blast
  have lc: "loadMtlsBundle demo_pki None demo_disk ''/b'' = Some (Inr \<lparr>mb_path = ''/b'', mb_pool = [demo_ca_cert], mb_n = 1\<rparr>)"
  proof -
    have p: "pk_Parse demo_pki ''A'' = Inr demo_ca_cert" by (simp add: demo_pki_def keykit.defs Let_def)
    show ?thesis
      using LoadCABundle_result [OF demo_bundle_blocks, of None demo_disk "''/b''"] p
      by (simp add: loadMtlsBundle_def ReadFile_def demo_disk_def AddCert_def)
  qed
  have pp: "Parse ''all'' = Inr AllowAll" by code_simp
  let ?env = "demo_boot_env\<lparr>bt_defaultState := dir, bt_open := \<lambda>p. Inr (dbs p)\<rparr>" and ?opt = "demo_options\<lparr>op_stateDir := dir\<rparr>"
  have r: "resolveEnv (bt_getenv ?env) (bt_defaultState ?env) ?opt = ?opt\<lparr>op_allowlistDir := ''/d''\<rparr>"
    by (simp add: resolveEnv_def or_env_def demo_boot_env_def demo_options_def flagSet_def)
  obtain a where a: "Allow_Load demo_fs ''/d'' = Inr a" using al by blast
  show ?thesis
    unfolding boot_def Let_def r
    by (simp add: demo_options_def demo_boot_env_def requireFlags_def validateRegistrationGate_def validateRegisterListen_def
        loadPortPolicy_def LoadInline_def pp startCerts_def startServer_def startAllow_def startMtls_def a lc)
qed

lemma demo_boot: "\<exists>dm. boot demo_boot_env demo_options = Some (Listening dm)"
  using demo_boot_at [where dir = "''/s''" and dbs = "\<lambda>_. []"] by (simp add: demo_boot_env_def demo_options_def)

theorem boot_gate_witness:
  "\<exists>dm0 b. boot demo_boot_env demo_options = Some (Listening dm0)
     \<and> sv_allow (dm_server (sighups [demo_hup] dm0)) \<noteq> None
     \<and> dm_mtls (sighups [demo_hup] dm0) = Some b
     \<and> (\<forall>presented peers. handshake (mainTLSConfig (dm_mtls (sighups [demo_hup] dm0))) presented = Some peers \<longrightarrow> peers \<noteq> [])"
proof -
  obtain dm0 where B: "boot demo_boot_env demo_options = Some (Listening dm0)" using demo_boot by blast
  have r: "resolveEnv (bt_getenv demo_boot_env) (bt_defaultState demo_boot_env) demo_options = demo_options\<lparr>op_allowlistDir := ''/d''\<rparr>"
    by (simp add: resolveEnv_def or_env_def demo_boot_env_def demo_options_def flagSet_def)
  have o: "\<not> op_openRegistration (demo_options\<lparr>op_allowlistDir := ''/d''\<rparr>)" "op_mtlsCA (demo_options\<lparr>op_allowlistDir := ''/d''\<rparr>) \<noteq> []"
    by (simp_all add: demo_options_def)
  note g = boot_gate [OF B refl refl, of "[demo_hup]", unfolded r]
  have m: "(mainTLSConfig (dm_mtls (sighups [demo_hup] dm0)), [ConnectEndpoint, RouteEndpoint]) \<in> set (listeners (sighups [demo_hup] dm0))"
    by (simp add: listeners_def)
  from g o obtain b where b: "dm_mtls (sighups [demo_hup] dm0) = Some b"
    and h: "\<forall>cfg eps presented peers. (cfg, eps) \<in> set (listeners (sighups [demo_hup] dm0)) \<longrightarrow> handshake cfg presented = Some peers \<longrightarrow>
             (\<forall>c\<in>set peers. trusts (mb_pool b) c) \<and> (RouteEndpoint \<in> set eps \<longrightarrow> peers \<noteq> [])" by blast
  have "sv_allow (dm_server (sighups [demo_hup] dm0)) \<noteq> None" using g o by blast
  moreover have "\<forall>presented peers. handshake (mainTLSConfig (dm_mtls (sighups [demo_hup] dm0))) presented = Some peers \<longrightarrow> peers \<noteq> []"
    using h [rule_format, OF m] by (simp del: sighups_simps)
  ultimately show ?thesis using B b by blast
qed

theorem sighup_last_good_witness:
  "\<exists>dm a a' b b'. sv_allow (dm_server dm) = Some a \<and> Allow_Contains a (replicate 32 CHR ''x'')
     \<and> sv_allow (dm_server (sighups [demo_hup] dm)) = Some a' \<and> \<not> Allow_Contains a' (replicate 32 CHR ''x'')
     \<and> dm_mtls dm = Some b \<and> dm_mtls (sighups [demo_hup] dm) = Some b' \<and> trusts (mb_pool b') = trusts (mb_pool b)"
proof -
  let ?a = "\<lparr>as_keys = [(replicate 32 CHR ''x'', ())], as_files = 1, as_dir = ''/d''\<rparr>"
  let ?b = "\<lparr>mb_path = ''/b'', mb_pool = [demo_ca_cert], mb_n = 1\<rparr>"
  let ?sv = "\<lparr>sv_reg = newRegistry, sv_store = [], sv_cert = Preprovisioned (newCertStore ''ex.com''), sv_ip = None, sv_pub = None,
     sv_refund = None, sv_allow = Some ?a\<rparr>"
  let ?dm = "\<lparr>dm_server = ?sv, dm_ports = None, dm_mtls = Some ?b, dm_apex = ''ex.com'', dm_registerListen = []\<rparr>"
  have l: "last_loaded (\<lambda>h. al_loaded (hp_allow h) ?a) [demo_hup] = Some (\<lambda>k. False)"
    by (simp add: al_loaded_def demo_hup_def Allow_Load_def parseDir_def Allow_Contains_def fun_eq_iff)
  have m: "last_loaded (\<lambda>h. mb_loaded (hp_pki h, hp_ca_fault h, hp_disk h) ?b) [demo_hup] = None"
    by (simp add: mb_loaded_def demo_hup_def LoadCABundle_def ReadFile_def)
  note s = sighup_last_good [of "[demo_hup]" ?dm]
  from s l obtain a' where a': "sv_allow (dm_server (sighups [demo_hup] ?dm)) = Some a'" "Allow_Contains a' = (\<lambda>k. False)" by fastforce
  from s m obtain b' where b': "dm_mtls (sighups [demo_hup] ?dm) = Some b'" "trusts (mb_pool b') = trusts (mb_pool ?b)" by fastforce
  have "Allow_Contains ?a (replicate 32 CHR ''x'')" by (simp add: Allow_Contains_def key32_def)
  with a' b' show ?thesis by (intro exI [of _ ?dm] exI [of _ ?a] exI [of _ a'] exI [of _ ?b] exI [of _ b']) (simp del: sighups_simps)
qed

end
