(* ===== verification/Admin.thy ===== *)
theory Admin
  imports Mtls Control Identity_Store Allowlist Cert_Disk
begin

text \<open>
  The operator's one-shot commands (\<open>cmd/swe-swe-tunneld/subcmds.go\<close>, \<open>identity_subcmd.go\<close>): listing and releasing names,
  creating the certificate authority and signing client certificates.  Each command takes the result of parsing its flags
  (package \<open>flag\<close>) and gives the exit code, what it printed, and the state it leaves.
\<close>

section \<open>Public keys\<close>

text \<open>The text of a line up to a comment, without surrounding white space.\<close>

definition pubkey_line :: "bytes \<Rightarrow> string" where
  "pubkey_line rawLine =
     TrimSpace (case IndexByte rawLine (CHR ''#'') of Some i \<Rightarrow> take i rawLine | None \<Rightarrow> rawLine)"

fun pubkey_from_lines :: "(string \<Rightarrow> string) \<Rightarrow> bytes list \<Rightarrow> bytes result" where
  "pubkey_from_lines quote [] = Inl ''pubkey is neither valid PEM nor base64-RawStd''"
| "pubkey_from_lines quote (rawLine # ls) =
     (let line = pubkey_line rawLine in
      if line = [] then pubkey_from_lines quote ls
      else (case DecodeString line of
              None \<Rightarrow> Inl (''base64 decode '' @ quote line)
            | Some raw \<Rightarrow>
                if length raw \<noteq> PublicKeySize
                then Inl (''pubkey base64 decoded '' @ Itoa (int (length raw)) @ '' bytes, want 32'')
                else Inr raw))"

text \<open>\<open>pkix\<close> is \<open>x509.ParsePKIXPublicKey\<close>; a key of another type comes with the name of its type.\<close>

definition parseEd25519Pubkey ::
  "('k, 'z) keykit_scheme \<Rightarrow> (bytes \<Rightarrow> (string + bytes) result) \<Rightarrow> (string \<Rightarrow> string) \<Rightarrow> bytes \<Rightarrow> bytes result" where
  "parseEd25519Pubkey kk pkix quote data =
     (case kk_pem_Decode kk data of
        Some (_, blk, _) \<Rightarrow>
          (case pkix blk of
             Inl e \<Rightarrow> Inl (''parse PKIX PEM: '' @ e)
           | Inr (Inl t) \<Rightarrow> Inl (''PEM pubkey is '' @ t @ '', want ed25519.PublicKey'')
           | Inr (Inr pub) \<Rightarrow> Inr pub)
      | None \<Rightarrow> pubkey_from_lines quote (Split data (CHR 0x0A)))"

section \<open>Names\<close>

definition identityDBPath :: "string \<Rightarrow> string" where
  "identityDBPath stateDir = filepath_Join [stateDir, ''identities.db'']"

record admin_env =
  av_open :: "string option"
  av_get :: "string option"
  av_list :: "string option"
  av_delete :: "string option"
  av_rm_crt :: "string option"
  av_rm_key :: "string option"
  av_flush :: "string option"
  av_quote :: "string \<Rightarrow> string"
  av_tabulate :: "string list list \<Rightarrow> string"
  av_rfc3339 :: "gotime \<Rightarrow> string"

definition flushErr :: "string option \<Rightarrow> nat" where
  "flushErr e = (if e \<noteq> None then 1 else 0)"

definition runIdentityList :: "admin_env \<Rightarrow> unit result \<Rightarrow> Store \<Rightarrow> nat \<times> string" where
  "runIdentityList env parsed s =
     (case parsed of
        Inl _ \<Rightarrow> (2, [])
      | Inr () \<Rightarrow>
          if av_open env \<noteq> None then (1, [])
          else (case Store_List (av_list env) s of
                  Inl _ \<Rightarrow> (1, [])
                | Inr entries \<Rightarrow>
                    (flushErr (av_flush env),
                     if av_flush env \<noteq> None then []
                     else av_tabulate env ([''UNIQUE'', ''PUBKEY'', ''CREATED'', ''LAST_SEEN'']
                       # map (\<lambda>e. [e_Unique e, EncodeToString (e_Pubkey e), av_rfc3339 env (e_CreatedAt e), av_rfc3339 env (e_LastSeenAt e)]) entries))))"

text \<open>The files of a name's certificate, and their removal: a missing file is not an error.\<close>

definition certBase :: "string \<Rightarrow> string \<Rightarrow> string \<Rightarrow> string" where
  "certBase stateDir unique apex =
     filepath_Join [stateDir, ''lego'', ''certificates'', ''_.'' @ TunnelLabel unique @ ''.'' @ apex]"

fun purgeFiles :: "(string \<times> string option) list \<Rightarrow> disk \<Rightarrow> nat \<times> string \<times> disk" where
  "purgeFiles [] d = (0, ''restart the daemon to drop the cert from memory\<newline>'', d)"
| "purgeFiles ((p, flt) # ps) d =
     (case Remove flt d p of
        (None, d1) \<Rightarrow> (let (c, out, d2) = purgeFiles ps d1 in (c, ''removed '' @ p @ ''\<newline>'' @ out, d2))
      | (Some ErrNotExist, d1) \<Rightarrow> purgeFiles ps d1
      | (Some (OSError _), d1) \<Rightarrow> (1, [], d1))"

definition runIdentityDelete ::
  "admin_env \<Rightarrow> (bool \<times> string \<times> string list) result \<Rightarrow> string \<Rightarrow> Store \<Rightarrow> disk \<Rightarrow> nat \<times> string \<times> Store \<times> disk" where
  "runIdentityDelete env parsed stateDir s d =
     (case parsed of
        Inr (purgeCert, apex, [unique]) \<Rightarrow>
          if ValidateUnique (av_quote env) unique \<noteq> None then (2, [], s, d)
          else if purgeCert \<and> apex = [] then (2, [], s, d)
          else if av_open env \<noteq> None then (1, [], s, d)
          else (case Store_Get (av_get env) s unique of
                  Inl _ \<Rightarrow> (1, [], s, d)
                | Inr _ \<Rightarrow>
                    (case Store_Delete (av_delete env) s unique of
                       (Some _, s1) \<Rightarrow> (1, [], s1, d)
                     | (None, s1) \<Rightarrow>
                         (let out = ''released '' @ unique @ ''\<newline>'' in
                          if \<not> purgeCert then (0, out, s1, d)
                          else (let base = certBase stateDir unique apex;
                                    (code, out', d1) = purgeFiles [(base @ ''.crt'', av_rm_crt env), (base @ ''.key'', av_rm_key env)] d
                                in (code, out @ out', s1, d1)))))
      | _ \<Rightarrow> (2, [], s, d))"

section \<open>The certificate authority\<close>

definition defaultMtlsDir :: "string \<Rightarrow> string" where
  "defaultMtlsDir stateDir = filepath_Join [stateDir, ''mtls'']"

definition mtls_target :: "string \<Rightarrow> string \<Rightarrow> string" where
  "mtls_target dir stateDir = (if dir = [] then defaultMtlsDir stateDir else dir)"

text \<open>\<open>time.Duration(days) * 24 * time.Hour\<close>: the products wrap.\<close>

definition days_valid :: "int \<Rightarrow> duration" where
  "days_valid days = wrap64 (wrap64 (days * 24) * Hour)"

record 'k mtls_env =
  me_ca :: "'k ca_env"
  me_read_key :: "string option"
  me_read_cert :: "string option"
  me_read_pub :: "string option"
  me_generate :: "'k result"
  me_random :: "bytes result"
  me_sign :: sign_env
  me_write :: "wfault option"
  me_stdout :: "string option"
  me_umask :: fmode
  me_pkix :: "bytes \<Rightarrow> (string + bytes) result"
  me_quote :: "string \<Rightarrow> string"

definition runMtlsInit :: "'k pki \<Rightarrow> 'k mtls_env \<Rightarrow> (string \<times> bool) result \<Rightarrow> string \<Rightarrow> disk \<Rightarrow> nat \<times> string \<times> disk" where
  "runMtlsInit pk env parsed stateDir d =
     (case parsed of
        Inl _ \<Rightarrow> (2, [], d)
      | Inr (dir, force) \<Rightarrow>
          (let target = mtls_target dir stateDir in
           case InitCA pk (me_ca env) target force d of
             (Some _, d1) \<Rightarrow> (1, [], d1)
           | (None, d1) \<Rightarrow> (0, ''wrote '' @ target @ ''/ca.key and '' @ target @ ''/ca.pem\<newline>'', d1)))"

definition runMtlsIssue ::
  "'k pki \<Rightarrow> 'k mtls_env \<Rightarrow> (string \<times> string \<times> int \<times> string) result \<Rightarrow> string \<Rightarrow> disk \<Rightarrow> nat \<times> string \<times> disk" where
  "runMtlsIssue pk env parsed stateDir d =
     (case parsed of
        Inl _ \<Rightarrow> (2, [], d)
      | Inr (dir, cn, days, out) \<Rightarrow>
          if cn = [] then (2, [], d)
          else if out = [] then (2, [], d)
          else
            (case LoadCA pk (me_read_key env) (me_read_cert env) d (mtls_target dir stateDir) of
               Inl _ \<Rightarrow> (1, [], d)
             | Inr ca \<Rightarrow>
                 (case IssueClientCert pk (me_generate env) (me_random env) (me_sign env) ca cn (days_valid days) of
                    Inl _ \<Rightarrow> (1, [], d)
                  | Inr bundle \<Rightarrow>
                      (case WriteFile (me_umask env) (me_write env) d out (cb_P12 bundle) mode600 of
                         (Some _, d1) \<Rightarrow> (1, [], d1)
                       | (None, d1) \<Rightarrow>
                           (0, ''wrote '' @ out @ '' (PKCS#12, '' @ Itoa (int (length (cb_P12 bundle))) @ '' bytes)\<newline>''
                               @ ''passphrase: '' @ cb_Passphrase bundle @ ''\<newline>'', d1)))))"

definition runMtlsSign ::
  "'k pki \<Rightarrow> 'k mtls_env \<Rightarrow> (string \<times> string \<times> int \<times> string \<times> string) result \<Rightarrow> string \<Rightarrow> disk \<Rightarrow> nat \<times> string \<times> disk" where
  "runMtlsSign pk env parsed stateDir d =
     (case parsed of
        Inl _ \<Rightarrow> (2, [], d)
      | Inr (dir, cn, days, out, pubkey) \<Rightarrow>
          if cn = [] then (2, [], d)
          else if pubkey = [] then (2, [], d)
          else
            (case LoadCA pk (me_read_key env) (me_read_cert env) d (mtls_target dir stateDir) of
               Inl _ \<Rightarrow> (1, [], d)
             | Inr ca \<Rightarrow>
                 (case ReadFile (me_read_pub env) d pubkey of
                    Inl _ \<Rightarrow> (1, [], d)
                  | Inr pubBytes \<Rightarrow>
                      (case parseEd25519Pubkey pk (me_pkix env) (me_quote env) pubBytes of
                         Inl _ \<Rightarrow> (1, [], d)
                       | Inr pub \<Rightarrow>
                           (case SignClientPubkey pk (me_sign env) ca cn pub (days_valid days) of
                              Inl _ \<Rightarrow> (1, [], d)
                            | Inr certPEM \<Rightarrow>
                                if out \<noteq> [] then
                                  (case WriteFile (me_umask env) (me_write env) d out certPEM mode644 of
                                     (Some _, d1) \<Rightarrow> (1, [], d1)
                                   | (None, d1) \<Rightarrow> (0, ''wrote '' @ out @ ''\<newline>'', d1))
                                else if me_stdout env \<noteq> None then (1, [], d)
                                else (0, certPEM, d))))))"

section \<open>Dispatch\<close>

text \<open>The flag parser of each command.\<close>

record subcmd_flags =
  sf_init :: "string list \<Rightarrow> (string \<times> bool) result"
  sf_issue :: "string list \<Rightarrow> (string \<times> string \<times> int \<times> string) result"
  sf_sign :: "string list \<Rightarrow> (string \<times> string \<times> int \<times> string \<times> string) result"
  sf_list :: "string list \<Rightarrow> unit result"
  sf_delete :: "string list \<Rightarrow> (bool \<times> string \<times> string list) result"

text \<open>The exit code and the state of a command; \<open>None\<close> if the arguments name none of them.\<close>

definition runSubcommand ::
  "subcmd_flags \<Rightarrow> 'k pki \<Rightarrow> 'k mtls_env \<Rightarrow> admin_env \<Rightarrow> string list \<Rightarrow> string \<Rightarrow> Store \<Rightarrow> disk
     \<Rightarrow> (nat \<times> string \<times> Store \<times> disk) option" where
  "runSubcommand sf pk me env args stateDir s d =
     (if length args < 2 then None
      else
        (let rest = drop 2 args; on_disk = (\<lambda>(c, out, d1). Some (c, out, s, d1)) in
         if args ! 1 = ''mtls-init'' then on_disk (runMtlsInit pk me (sf_init sf rest) stateDir d)
         else if args ! 1 = ''mtls-issue'' then on_disk (runMtlsIssue pk me (sf_issue sf rest) stateDir d)
         else if args ! 1 = ''mtls-sign'' then on_disk (runMtlsSign pk me (sf_sign sf rest) stateDir d)
         else if args ! 1 = ''identity-list'' then (let (c, out) = runIdentityList env (sf_list sf rest) s in Some (c, out, s, d))
         else if args ! 1 = ''identity-delete'' then Some (runIdentityDelete env (sf_delete sf rest) stateDir s d)
         else None))"

section \<open>Sample values\<close>

definition demo_admin :: admin_env where
  "demo_admin = \<lparr>av_open = None, av_get = None, av_list = None, av_delete = None, av_rm_crt = None, av_rm_key = None, av_flush = None,
     av_quote = id, av_tabulate = (\<lambda>_. []), av_rfc3339 = (\<lambda>_. [])\<rparr>"

definition demo_owners :: Store where
  "demo_owners = [(''app'', \<lparr>row_pubkey = ''k'', row_created = 0, row_last = 0\<rparr>), (''web'', \<lparr>row_pubkey = ''w'', row_created = 0, row_last = 0\<rparr>)]"

definition demo_sign_cert :: certificate where
  "demo_sign_cert = template.extend (client_template 2 ''bob'' 0 0 (24 * Hour)) \<lparr>xc_pub = Ed25519Pub ''K'', xc_signedBy = OtherPub ''ca''\<rparr>"

definition demo_sign_pki :: "bytes pki" where
  "demo_sign_pki = demo_pki
     \<lparr>pk_Parse := \<lambda>b. if b = ''C'' then Inr demo_sign_cert else pk_Parse demo_pki b,
      pk_Create := \<lambda>tpl parent pub k.
        if template.extend tpl \<lparr>xc_pub = pub, xc_signedBy = pk_Public demo_pki k\<rparr> = demo_sign_cert then Inr ''C''
        else pk_Create demo_pki tpl parent pub k\<rparr>"

definition demo_mtls_env :: "bytes mtls_env" where
  "demo_mtls_env = \<lparr>me_ca = demo_ca_env, me_read_key = None, me_read_cert = None, me_read_pub = None, me_generate = Inr ''key'',
     me_random = Inr [], me_sign = \<lparr>sg_serial = Inr 2, sg_before = 0, sg_after = 0\<rparr>, me_write = None, me_stdout = None, me_umask = 0,
     me_pkix = (\<lambda>_. Inr (Inr ''K'')), me_quote = id\<rparr>"

definition demo_ca_disk :: disk where
  "demo_ca_disk =
     [(''/s/mtls/ca.key'', \<lparr>fl_data = frame ''PRIVATE KEY'' @ frame ''cca'', fl_mode = mode600\<rparr>),
      (''/s/mtls/ca.pem'', \<lparr>fl_data = frame ''CERTIFICATE'' @ frame ''A'', fl_mode = mode644\<rparr>),
      (''/p'', \<lparr>fl_data = frame ''PUBLIC KEY'' @ frame ''x'', fl_mode = mode644\<rparr>)]"

section \<open>Lines of a key file\<close>

text \<open>The allowlist trims, cuts at the comment and trims again; \<open>mtls-sign\<close> cuts first.  It is the same text.\<close>

lemma key_line_pubkey: "key_line raw = (if pubkey_line raw = [] then None else Some (pubkey_line raw))"
proof (cases "IndexByte raw (CHR ''#'')")
  case None
  then have h: "CHR ''#'' \<notin> set (TrimSpace raw)" using set_TrimSpace [of raw] by (auto simp: IndexByte_None_iff)
  then have "IndexByte (TrimSpace raw) (CHR ''#'') = None" by (simp add: IndexByte_None_iff)
  moreover have "\<not> HasPrefix (TrimSpace raw) ''#''" using h by (cases "TrimSpace raw") (auto simp: HasPrefix_def)
  ultimately show ?thesis using None by (simp add: key_line_def pubkey_line_def)
next
  case (Some i)
  define p q where "p = take i raw" and "q = drop (Suc i) raw"
  have r: "raw = p @ CHR ''#'' # q" "CHR ''#'' \<notin> set p" using IndexByte_SomeD [OF Some] by (simp_all add: p_def q_def)
  let ?l = "strip space_runes p" and ?q = "rev (strip (map rev space_runes) (rev q))"
  have t: "TrimSpace raw = ?l @ CHR ''#'' # ?q" unfolding r by (rule TrimSpace_hash)
  have h: "CHR ''#'' \<notin> set ?l" using r(2) set_strip [of space_runes p] by blast
  have P: "pubkey_line raw = TrimSpace p" using Some by (simp add: pubkey_line_def p_def)
  show ?thesis
  proof (cases "?l = []")
    case True
    then show ?thesis using t P TrimSpace_empty_iff [of p] by (simp add: key_line_def HasPrefix_def)
  next
    case False
    have i: "IndexByte (TrimSpace raw) (CHR ''#'') = Some (length ?l)" unfolding t by (rule IndexByte_append [OF h])
    have np: "\<not> HasPrefix (TrimSpace raw) ''#''" using False h unfolding t by (cases ?l) (auto simp: HasPrefix_def)
    have "take (length ?l) (TrimSpace raw) = ?l" unfolding t by simp
    then show ?thesis using False t i np P TrimSpace_empty_iff [of p] by (simp add: key_line_def TrimSpace_strip)
  qed
qed

lemma pubkey_line_cr: "pubkey_line (drop_cr raw) = pubkey_line raw"
proof (cases "HasSuffix raw [CHR 0x0D]")
  case True
  then obtain s where s: "raw = s @ [CHR 0x0D]" "drop_cr raw = s"
    by (cases raw rule: rev_cases) (auto simp: drop_cr_def TrimSuffix_def HasSuffix_def)
  show ?thesis
  proof (cases "IndexByte s (CHR ''#'')")
    case None
    then have "IndexByte raw (CHR ''#'') = None" by (simp add: s IndexByte_None_iff)
    with None show ?thesis by (simp add: s(2) pubkey_line_def) (simp add: s(1) TrimSpace_cr)
  next
    case (Some i)
    have d: "s = take i s @ CHR ''#'' # drop (Suc i) s" "CHR ''#'' \<notin> set (take i s)" "i < length s" using IndexByte_SomeD [OF Some] by auto
    have "raw = take i s @ CHR ''#'' # (drop (Suc i) s @ [CHR 0x0D])" using d(1) s(1) by (metis append_Cons append_assoc)
    then have "IndexByte raw (CHR ''#'') = Some i" using IndexByte_append [OF d(2)] d(3) by (metis length_take min.absorb4)
    with Some d(3) show ?thesis by (simp add: s(2) pubkey_line_def) (simp add: s(1))
  qed
qed (simp add: drop_cr_def TrimSuffix_def)

section \<open>Reading a public key\<close>

lemma pubkey_from_lines_snoc: "pubkey_from_lines quote (ls @ [[]]) = pubkey_from_lines quote ls"
  by (induction ls) (auto simp: pubkey_line_def Let_def)

lemma pubkey_from_lines_raw: "pubkey_from_lines quote (Split data (CHR 0x0A)) = pubkey_from_lines quote (raw_lines data)"
proof -
  define ls where "ls = Split data (CHR 0x0A)"
  have "ls = butlast ls @ [last ls]" by (simp add: ls_def)
  then show ?thesis using pubkey_from_lines_snoc [of quote "butlast ls"] by (metis ls_def raw_lines_def)
qed

lemma pubkey_from_lines_allow:
  "parse_lines name n (map drop_cr ls) out = Inr out' \<Longrightarrow>
     (case pubkey_from_lines quote ls of
        Inr pub \<Rightarrow> pub \<in> dom (map_of out') \<and> length pub = 32
      | Inl e \<Rightarrow> out' = out \<and> e = ''pubkey is neither valid PEM nor base64-RawStd'')"
proof (induction ls arbitrary: n out)
  case (Cons raw ls)
  have k: "key_line (drop_cr raw) = (if pubkey_line raw = [] then None else Some (pubkey_line raw))"
    by (simp add: key_line_pubkey pubkey_line_cr)
  show ?case
  proof (cases "pubkey_line raw = []")
    case True
    then show ?thesis using Cons k by simp
  next
    case False
    then obtain b where b: "DecodeString (pubkey_line raw) = Some b" "length b = 32"
      "parse_lines name (Suc n) (map drop_cr ls) (AList.update (key32 b) () out) = Inr out'"
      using Cons.prems k by (auto split: option.splits if_splits)
    have "b \<in> dom (map_of out')" using parse_lines_keys [OF b(3)] key32_id [OF b(2)] by auto
    then show ?thesis using False b(1,2) by (simp add: PublicKeySize_def)
  qed
qed simp

text \<open>
  One key file for both uses.  Cutting a line at its comment and trimming it (\<open>mtls-sign\<close>) gives the text that the
  allowlist decodes, for every line, also one that ends in a carriage return.  So when a file without a PEM block
  is accepted by the allowlist, \<open>mtls-sign\<close> accepts it too unless it holds no key at all, and the key it signs is one
  that the allowlist admits; of a file with one key it is that key.
\<close>

theorem pubkey_file_equivalence:
  assumes "parseInto F dir name [] = Inr keys" "fs_Read F dir name = Inr data" "kk_pem_Decode kk data = None"
  shows "(\<forall>raw. key_line (drop_cr raw) = (if pubkey_line raw = [] then None else Some (pubkey_line raw)))
    \<and> (\<forall>pub. parseEd25519Pubkey kk pkix quote data = Inr pub \<longrightarrow> length pub = 32 \<and> pub \<in> dom (map_of keys))
    \<and> (keys = [] \<longleftrightarrow> (\<exists>e. parseEd25519Pubkey kk pkix quote data = Inl e))
    \<and> (\<forall>k. keys = [(k, ())] \<longrightarrow> parseEd25519Pubkey kk pkix quote data = Inr k)"
proof -
  have "parse_lines name 0 (map drop_cr (raw_lines data)) [] = Inr keys"
    using parseInto_lines [OF assms(1)] assms(2) by force
  note A = pubkey_from_lines_allow [OF this, of quote]
  have P: "parseEd25519Pubkey kk pkix quote data = pubkey_from_lines quote (raw_lines data)"
    using assms(3) by (simp add: parseEd25519Pubkey_def pubkey_from_lines_raw)
  show ?thesis
    by (cases "pubkey_from_lines quote (raw_lines data)")
      (use A P in \<open>auto simp: key_line_pubkey pubkey_line_cr split: if_splits\<close>)
qed

lemma Encode_no_dash: "\<not> HasPrefix (EncodeToString b) (CHR ''-'' # s)"
proof
  assume "HasPrefix (EncodeToString b) (CHR ''-'' # s)"
  then have "CHR ''-'' \<in> set (EncodeToString b)" by (auto simp: HasPrefix_iff)
  moreover have "list_all (\<lambda>c. c \<noteq> CHR ''-'') b64_alphabet" by code_simp
  ultimately show False using EncodeToString_chars [of b] by (auto simp: list_all_iff)
qed

theorem pubkey_file_equivalence_witness:
  "let k = replicate 32 CHR ''k''; data = EncodeToString k;
       kk = demo_kit\<lparr>kk_pem_Decode := \<lambda>b. if HasPrefix b ''-----BEGIN'' then kk_pem_Decode demo_kit b else None\<rparr>
   in parseInto demo_fs ''/d'' ''alice'' [] = Inr [(k, ())] \<and> fs_Read demo_fs ''/d'' ''alice'' = Inr data
     \<and> parseEd25519Pubkey kk (\<lambda>_. Inl ''x'') id data = Inr k"
proof -
  let ?k = "replicate 32 CHR ''k''"
  let ?kk = "demo_kit\<lparr>kk_pem_Decode := \<lambda>b. if HasPrefix b ''-----BEGIN'' then kk_pem_Decode demo_kit b else None\<rparr>"
  have d: "kk_pem_Decode ?kk (EncodeToString b) = None" for b by (simp add: Encode_no_dash)
  have r: "fs_Read demo_fs ''/d'' ''alice'' = Inr (EncodeToString ?k)" by (simp add: demo_fs_def)
  have p: "parseInto demo_fs ''/d'' ''alice'' [] = Inr [(?k, ())]" by (rule demo_parse)
  show ?thesis using pubkey_file_equivalence [OF p r d, of "\<lambda>_. Inl ''x''" id] p r unfolding Let_def by blast
qed

section \<open>Releasing a name\<close>

lemma Remove_cases: "Remove flt d p = (e, d') \<Longrightarrow>
   (\<forall>q. map_of d' q \<noteq> map_of d q \<longrightarrow> q = p \<and> map_of d' q = None) \<and> (e = None \<or> e = Some ErrNotExist \<longrightarrow> map_of d' p = None)
   \<and> (flt = None \<longrightarrow> e = None \<or> e = Some ErrNotExist)"
  by (auto simp: Remove_def split: option.splits if_splits)

lemma purgeFiles_effect:
  "purgeFiles ps d = (c, out, d') \<Longrightarrow>
     (\<forall>q. map_of d' q \<noteq> map_of d q \<longrightarrow> q \<in> fst ` set ps \<and> map_of d' q = None)
   \<and> (c = 0 \<longrightarrow> (\<forall>q\<in>fst ` set ps. map_of d' q = None)) \<and> c \<noteq> 2
   \<and> ((\<forall>p\<in>set ps. snd p = None) \<longrightarrow> c = 0)"
proof (induction ps arbitrary: d c out)
  case (Cons x ps)
  obtain p flt where x: "x = (p, flt)" by fastforce
  obtain e d1 where R: "Remove flt d p = (e, d1)" by fastforce
  note r = Remove_cases [OF R]
  show ?case
  proof (cases "e = None \<or> e = Some ErrNotExist")
    case True
    obtain c2 out2 d2 where P: "purgeFiles ps d1 = (c2, out2, d2)" by (metis prod_cases3)
    have cd: "c = c2" "d' = d2" using Cons.prems R True P by (auto simp: x split: prod.splits)
    note i = Cons.IH [OF P [folded cd]]
    have i1: "q \<in> fst ` set ps \<and> map_of d' q = None" if "map_of d' q \<noteq> map_of d1 q" for q using i that by blast
    have r1: "q = p \<and> map_of d1 q = None" if "map_of d1 q \<noteq> map_of d q" for q using r that by blast
    have p1: "map_of d1 p = None" using r True by blast
    have p: "map_of d' p = None" using i1 [of p] p1 by (cases "map_of d' p = map_of d1 p") simp_all
    have f: "fst ` set (x # ps) = insert p (fst ` set ps)" by (simp add: x)
    have 1: "q \<in> fst ` set (x # ps) \<and> map_of d' q = None" if q: "map_of d' q \<noteq> map_of d q" for q
    proof (cases "map_of d' q = map_of d1 q")
      case True
      then show ?thesis using r1 [of q] q f by auto
    next
      case False
      then show ?thesis using i1 [OF False] f by simp
    qed
    have 2: "\<forall>q\<in>fst ` set (x # ps). map_of d' q = None" if "c = 0" using i that p f by simp
    have 3: "c = 0" if "\<forall>p\<in>set (x # ps). snd p = None" using i that by simp
    from 1 2 3 i show ?thesis by blast
  next
    case False
    then obtain y where "e = Some (OSError y)" by (cases e) (auto, metis os_err.exhaust)
    then show ?thesis using Cons.prems R r by (auto simp: x)
  qed
qed auto

lemma certBase_path:
  assumes "ValidateUnique quote u = None" "CHR ''/'' \<notin> set apex" "st_StateDir m = stateDir"
  shows "certBase stateDir u apex @ ''.crt'' = filepath_Join [certDir m, (''_.'' @ TunnelLabel u @ ''.'' @ apex) @ ''.crt'']"
    "certBase stateDir u apex @ ''.key'' = filepath_Join [certDir m, (''_.'' @ TunnelLabel u @ ''.'' @ apex) @ ''.key'']"
proof -
  let ?b = "''_.'' @ TunnelLabel u @ ''.'' @ apex"
  have "list_all re_az09_dash u" using assms(1) by (simp add: ValidateUnique_def uniqueRe_iff split: if_splits)
  then have "CHR ''/'' \<notin> set u" by (auto simp: list_all_iff re_az09_dash_def re_az09_def re_az_def is_digit_def)
  then have b: "cert_file_base ?b" using assms(2) by (auto simp: cert_file_base_def TunnelLabel_def HasPrefix_def)
  have "plain_name ?b" using cert_file_base_plain [OF b, of "[]"] by simp
  from filepath_Join_nested [OF this, of "[stateDir, ''lego'', ''certificates'']"]
  have "certBase stateDir u apex = filepath_Join [certDir m, ?b]" by (simp add: certBase_def certDir_def assms(3))
  then show "certBase stateDir u apex @ ''.crt'' = filepath_Join [certDir m, ?b @ ''.crt'']" "certBase stateDir u apex @ ''.key'' = filepath_Join [certDir m, ?b @ ''.key'']"
    using cert_path [OF b, of "''.crt''" "certDir m"] cert_path [OF b, of "''.key''" "certDir m"] by simp_all
qed

text \<open>A released name, and what has happened to the files then.\<close>

lemma runIdentityDelete_cases:
  assumes "runIdentityDelete env parsed stateDir s d = (c, out, s', d')"
  obtains (kept) "c \<noteq> 0" "s' = s" "d' = d"
  | (released) purge apex u ps where "parsed = Inr (purge, apex, [u])" "ValidateUnique (av_quote env) u = None" "purge \<longrightarrow> apex \<noteq> []"
      "owner_of s u \<noteq> None" "Store_Delete (av_delete env) s u = (None, s')"
      "ps = (if purge then [(certBase stateDir u apex @ ''.crt'', av_rm_crt env), (certBase stateDir u apex @ ''.key'', av_rm_key env)] else [])"
      "purge \<longrightarrow> (\<exists>out'. purgeFiles ps d = (c, out', d'))" "\<not> purge \<longrightarrow> c = 0 \<and> d' = d"
proof -
  consider "c \<noteq> 0 \<and> s' = s \<and> d' = d" | purge apex u where "parsed = Inr (purge, apex, [u])" "ValidateUnique (av_quote env) u = None"
      "\<not> (purge \<and> apex = [])" "av_open env = None"
    using assms by (auto simp: runIdentityDelete_def split: sum.splits prod.splits list.splits if_splits)
  then show ?thesis
  proof cases
    case 1
    then show ?thesis using kept by blast
  next
    case (2 purge apex u)
    show ?thesis
    proof (cases "Store_Get (av_get env) s u")
      case (Inl e)
      then show ?thesis using assms 2 by (intro kept) (auto simp: runIdentityDelete_def)
    next
      case (Inr en)
      obtain e s1 where D: "Store_Delete (av_delete env) s u = (e, s1)" by fastforce
      show ?thesis
      proof (cases e)
        case (Some y)
        have "s1 = s" using ids.del_err D Some by blast
        then show ?thesis using assms 2 Inr D Some by (intro kept) (auto simp: runIdentityDelete_def)
      next
        case None
        show ?thesis
        proof (rule released [OF 2(1,2)])
          show "owner_of s u \<noteq> None" using Store_Get_owner [OF Inr] by simp
          show "Store_Delete (av_delete env) s u = (None, s')"
            using assms 2 Inr D None by (auto simp: runIdentityDelete_def Let_def split: if_splits prod.splits)
        qed (use assms 2 Inr D None in \<open>auto simp: runIdentityDelete_def Let_def simp del: purgeFiles.simps split: if_splits prod.splits\<close>)
      qed
    qed
  qed
qed

text \<open>What a release does to the certificate files, and that nothing in its way makes it succeed.\<close>

lemma released_files:
  assumes "ps = (if purge then [(certBase stateDir u apex @ ''.crt'', f), (certBase stateDir u apex @ ''.key'', g)] else [])"
    "purge \<longrightarrow> (\<exists>out'. purgeFiles ps d = (c, out', d'))" "\<not> purge \<longrightarrow> c = 0 \<and> d' = d"
  shows "map_of d' q \<noteq> map_of d q \<Longrightarrow> purge \<and> q \<in> {certBase stateDir u apex @ ''.crt'', certBase stateDir u apex @ ''.key''} \<and> map_of d' q = None"
    "c = 0 \<Longrightarrow> purge \<Longrightarrow> map_of d' (certBase stateDir u apex @ ''.crt'') = None" "c \<noteq> 2" "f = None \<Longrightarrow> g = None \<Longrightarrow> c = 0"
proof -
  have F: "(\<forall>q. map_of d' q \<noteq> map_of d q \<longrightarrow> purge \<and> q \<in> fst ` set ps \<and> map_of d' q = None)
      \<and> (c = 0 \<longrightarrow> (\<forall>q\<in>fst ` set ps. map_of d' q = None)) \<and> c \<noteq> 2 \<and> ((\<forall>p\<in>set ps. snd p = None) \<longrightarrow> c = 0)"
  proof (cases purge)
    case True
    then obtain out' where "purgeFiles ps d = (c, out', d')" using assms(2) by blast
    from purgeFiles_effect [OF this] True show ?thesis by simp
  qed (use assms in simp)
  have ps: "purge \<Longrightarrow> fst ` set ps = {certBase stateDir u apex @ ''.crt'', certBase stateDir u apex @ ''.key''}" using assms(1) by simp
  show "map_of d' q \<noteq> map_of d q \<Longrightarrow> purge \<and> q \<in> {certBase stateDir u apex @ ''.crt'', certBase stateDir u apex @ ''.key''} \<and> map_of d' q = None"
    using F ps by metis
  show "c = 0 \<Longrightarrow> purge \<Longrightarrow> map_of d' (certBase stateDir u apex @ ''.crt'') = None" using F ps by blast
  show "c \<noteq> 2" using F by blast
  show "c = 0" if "f = None" "g = None"
  proof -
    have "\<forall>p\<in>set ps. snd p = None" using that assms(1) by auto
    then show ?thesis using F by blast
  qed
qed

lemma runIdentityDelete_succeeds:
  assumes "runIdentityDelete env parsed stateDir s d = (c, out, s', d')" "parsed = Inr (purge, apex, [u])" "ValidateUnique (av_quote env) u = None" "owner_of s u \<noteq> None"
    "purge \<longrightarrow> apex \<noteq> []" "av_open env = None" "av_get env = None" "av_delete env = None" "av_rm_crt env = None" "av_rm_key env = None"
  shows "c = 0"
  using assms purgeFiles_effect [of "[(certBase stateDir u apex @ ''.crt'', None), (certBase stateDir u apex @ ''.key'', None)]" d c _ d']
  by (auto simp: runIdentityDelete_def Store_Get_def Store_Delete_def owner_of_def Let_def simp del: purgeFiles.simps split: if_splits prod.splits)

text \<open>
  Releasing a name.  \<open>identity-delete\<close> changes nothing but the ownership of the one valid name it was given, which it frees, and, when
  asked to purge, that name's two certificate files, which it removes; a usage error changes nothing.  When it reports
  success the name was owned and is free, every other owner is kept, and after a purge the certificate manager and the loader find no certificate
  for the name on disk; and when nothing fails underneath, releasing an owned name succeeds.
\<close>

theorem identity_delete_exact:
  assumes "runIdentityDelete env parsed stateDir s d = (c, out, s', d')"
  shows "(c = 2 \<longrightarrow> s' = s \<and> d' = d)
    \<and> (\<forall>u. owner_of s' u \<noteq> owner_of s u \<longrightarrow>
         (\<exists>purge apex. parsed = Inr (purge, apex, [u])) \<and> ValidateUnique (av_quote env) u = None \<and> owner_of s' u = None)
    \<and> (\<forall>p. map_of d' p \<noteq> map_of d p \<longrightarrow> map_of d' p = None
         \<and> (\<exists>apex u. parsed = Inr (True, apex, [u]) \<and> owner_of s u \<noteq> None \<and> owner_of s' u = None
              \<and> p \<in> {certBase stateDir u apex @ ''.crt'', certBase stateDir u apex @ ''.key''}))
    \<and> (c = 0 \<longrightarrow> (\<exists>purge apex u. parsed = Inr (purge, apex, [u]) \<and> owner_of s u \<noteq> None \<and> owner_of s' = (owner_of s)(u := None)
         \<and> (purge \<longrightarrow> (\<forall>m x. st_StateDir m = stateDir \<longrightarrow> CHR ''/'' \<notin> set apex \<longrightarrow>
              loadCertFile x (cert_reads m d') (''_.'' @ TunnelLabel u @ ''.'' @ apex) = Inr None))))
    \<and> (\<forall>purge apex u. parsed = Inr (purge, apex, [u]) \<longrightarrow> ValidateUnique (av_quote env) u = None \<longrightarrow> owner_of s u \<noteq> None \<longrightarrow>
         (purge \<longrightarrow> apex \<noteq> []) \<longrightarrow> av_open env = None \<longrightarrow> av_get env = None \<longrightarrow> av_delete env = None \<longrightarrow> av_rm_crt env = None \<longrightarrow>
         av_rm_key env = None \<longrightarrow> c = 0)"
  using assms
proof (cases rule: runIdentityDelete_cases)
  case kept
  then show ?thesis using assms runIdentityDelete_succeeds by blast
next
  case (released purge apex u ps)
  note f = released_files [OF released(6-8)]
  have o: "owner_of s' = (owner_of s)(u := None)" by (rule ids.del_ok [OF released(5)])
  have L: "loadCertFile x (cert_reads m d') (''_.'' @ TunnelLabel u @ ''.'' @ apex) = Inr None"
    if "purge" "c = 0" "st_StateDir m = stateDir" "CHR ''/'' \<notin> set apex" for m x
    using f(2) [OF that(2,1)] unfolding certBase_path(1) [OF released(2) that(4,3)] by (simp add: loadCertFile_def cert_reads_def)
  have o1: "(\<exists>purge apex. parsed = Inr (purge, apex, [v])) \<and> ValidateUnique (av_quote env) v = None \<and> owner_of s' v = None"
    if "owner_of s' v \<noteq> owner_of s v" for v
    using that o released(1,2) by (cases "v = u") simp_all
  have D: "map_of d' q = None \<and> (\<exists>apex u. parsed = Inr (True, apex, [u]) \<and> owner_of s u \<noteq> None \<and> owner_of s' u = None
      \<and> q \<in> {certBase stateDir u apex @ ''.crt'', certBase stateDir u apex @ ''.key''})" if "map_of d' q \<noteq> map_of d q" for q
  proof -
    have "owner_of s' u = None" using o by simp
    with f(1) [OF that] released(1,4) show ?thesis by blast
  qed
  have Z: "c = 0 \<longrightarrow> (\<exists>purge apex u. parsed = Inr (purge, apex, [u]) \<and> owner_of s u \<noteq> None \<and> owner_of s' = (owner_of s)(u := None)
         \<and> (purge \<longrightarrow> (\<forall>m x. st_StateDir m = stateDir \<longrightarrow> CHR ''/'' \<notin> set apex \<longrightarrow>
              loadCertFile x (cert_reads m d') (''_.'' @ TunnelLabel u @ ''.'' @ apex) = Inr None)))"
    using L o released(1,4) by blast
  from f(3,4) o1 D Z show ?thesis by blast
qed

theorem identity_delete_exact_witness:
  "\<exists>out s' d'. runIdentityDelete demo_admin (Inr (True, ''ex.com'', [''app''])) ''/s'' demo_owners
       [(''/s/lego/certificates/_.app-tunnel.ex.com.crt'', \<lparr>fl_data = ''c'', fl_mode = 0\<rparr>), (''/x'', \<lparr>fl_data = [], fl_mode = 0\<rparr>)] = (0, out, s', d')
     \<and> owner_of s' ''app'' = None \<and> owner_of s' ''web'' = Some ''w'' \<and> map_of d' ''/x'' \<noteq> None
     \<and> loadCertFile demo_x509 (cert_reads demo_site d') (''_.'' @ TunnelLabel ''app'' @ ''.'' @ ''ex.com'') = Inr None"
proof -
  let ?d = "[(''/s/lego/certificates/_.app-tunnel.ex.com.crt'', \<lparr>fl_data = ''c'', fl_mode = 0\<rparr>), (''/x'', \<lparr>fl_data = [], fl_mode = 0\<rparr>)]"
  let ?p = "Inr (True, ''ex.com'', [''app''])"
  have v: "ValidateUnique id ''app'' = None" by code_simp
  have o: "owner_of demo_owners = [''web'' \<mapsto> ''w'', ''app'' \<mapsto> ''k'']" by (simp add: owner_of_def demo_owners_def fun_eq_iff)
  obtain c out s' d' where r: "runIdentityDelete demo_admin ?p ''/s'' demo_owners ?d = (c, out, s', d')" by (metis prod_cases4)
  note E = identity_delete_exact [OF r]
  note E3 = conjunct1 [OF conjunct2 [OF conjunct2 [OF E]]] and E4 = conjunct1 [OF conjunct2 [OF conjunct2 [OF conjunct2 [OF E]]]]
    and E5 = conjunct2 [OF conjunct2 [OF conjunct2 [OF conjunct2 [OF E]]]]
  have c: "c = 0" by (rule E5 [rule_format, OF refl]) (simp_all add: demo_admin_def v o)
  obtain purge apex u where q: "?p = Inr (purge, apex, [u])" "owner_of s' = (owner_of demo_owners)(u := None)"
    and l: "purge \<longrightarrow> (\<forall>m x. st_StateDir m = ''/s'' \<longrightarrow> CHR ''/'' \<notin> set apex \<longrightarrow>
              loadCertFile x (cert_reads m d') (''_.'' @ TunnelLabel u @ ''.'' @ apex) = Inr None)"
    using E4 c by blast
  have p: "purge" "apex = ''ex.com''" "u = ''app''" using q(1) by simp_all
  have base: "certBase ''/s'' ''app'' ''ex.com'' = ''/s/lego/certificates/_.app-tunnel.ex.com''" by code_simp
  have x: "map_of d' ''/x'' \<noteq> None"
  proof
    assume n: "map_of d' ''/x'' = None"
    have "map_of ?d ''/x'' \<noteq> None" by simp
    with n have "map_of d' ''/x'' \<noteq> map_of ?d ''/x''" by metis
    then obtain apex u where "?p = Inr (True, apex, [u])" "''/x'' \<in> {certBase ''/s'' u apex @ ''.crt'', certBase ''/s'' u apex @ ''.key''}"
      using E3 by blast
    then show False using base by simp
  qed
  have L: "loadCertFile demo_x509 (cert_reads demo_site d') (''_.'' @ TunnelLabel ''app'' @ ''.'' @ ''ex.com'') = Inr None"
    using l [rule_format, of demo_site] p by (simp add: demo_site_def)
  have s: "owner_of s' ''app'' = None" "owner_of s' ''web'' = Some ''w''" using q(2) p(3) o by simp_all
  show ?thesis using r c s x L by blast
qed

section \<open>Signing\<close>

lemma days_valid_exact: "\<bar>days\<bar> \<le> 106751 \<Longrightarrow> days_valid days = days * (24 * Hour)"
  by (simp add: days_valid_def wrap64_def)

lemma wrap64_over: "2 ^ 63 \<le> x \<Longrightarrow> x < 2 ^ 63 + 2 ^ 64 \<Longrightarrow> wrap64 x = x - 2 ^ 64"
proof -
  assume x: "2 ^ 63 \<le> x" "x < 2 ^ 63 + 2 ^ 64"
  have "(x + 2 ^ 63) mod 2 ^ 64 = (x + 2 ^ 63 - 2 ^ 64 + 2 ^ 64) mod 2 ^ 64" by (simp add: add.commute)
  also have "\<dots> = (x + 2 ^ 63 - 2 ^ 64) mod 2 ^ 64" by (rule mod_add_self2)
  also have "\<dots> = x + 2 ^ 63 - 2 ^ 64" using x by (intro mod_pos_pos_trivial) auto
  finally show ?thesis by (simp add: wrap64_def)
qed

lemma days_valid_wraps: "106752 \<le> days \<Longrightarrow> days \<le> 213503 \<Longrightarrow> days_valid days < 0"
  using wrap64_over [of "days * 24 * Hour"] by (simp add: days_valid_def wrap64_id)


lemma demo_sign_pki_ok: "pem_roundtrip demo_sign_pki" "x509_roundtrip demo_sign_pki"
  using demo_pki_ok(1,3) by (auto simp: demo_sign_pki_def pem_roundtrip_def x509_roundtrip_def demo_pki_def keykit.defs Let_def split: if_splits)


end
