(* ===== verification/Server_Steps.thy ===== *)
theory Server_Steps
  imports Boot Admin
begin

text \<open>
  The whole server as one transition system.  Handlers of connections, SIGHUP, the pruners of the limiters and the operator's
  commands share the state \<open>server\<close>; \<open>srv_step\<close> lists the atomic accesses that any of them makes.  The locale \<open>step_closed\<close>
  proves once that every handler stays within whatever these steps preserve, and is interpreted twice: with the states reachable by
  steps, so that a handler is a sequence of steps, and with the well-formed states.
\<close>

section \<open>Steps\<close>

inductive lim_step :: "SlidingWindow option \<Rightarrow> SlidingWindow option \<Rightarrow> bool" where
  lim_allow: "lim_Allow rnd now l k = (ok, l') \<Longrightarrow> lim_step l l'"
| lim_retry: "lim_RetryAfter now l k = (dur, l') \<Longrightarrow> lim_step l l'"
| lim_cancel: "lim_step l (lim_Cancel l k)"
| lim_prune: "lim_step l (map_option (\<lambda>s. PruneAt s now) l)"

text \<open>\<open>E\<close> is what the certificate service may do to its own state.\<close>

inductive srv_step :: "('c \<Rightarrow> 'c) set \<Rightarrow> 'c server \<Rightarrow> 'c server \<Rightarrow> bool" for E where
  step_ip: "lim_step (sv_ip s) l \<Longrightarrow> srv_step E s (s\<lparr>sv_ip := l\<rparr>)"
| step_pub: "lim_step (sv_pub s) l \<Longrightarrow> srv_step E s (s\<lparr>sv_pub := l\<rparr>)"
| step_refund: "lim_step (sv_refund s) l \<Longrightarrow> srv_step E s (s\<lparr>sv_refund := l\<rparr>)"
| step_store: "srv_step E s (s\<lparr>sv_store := store_step (sv_store s) sop\<rparr>)"
| step_cert: "f \<in> E \<Longrightarrow> srv_step E s (s\<lparr>sv_cert := f (sv_cert s)\<rparr>)"
| step_add: "reg_add quote (sv_reg s) label pub ts = Inr r \<Longrightarrow> length pub = 32 \<Longrightarrow> srv_step E s (s\<lparr>sv_reg := r\<rparr>)"
| step_remove: "length pub = 32 \<Longrightarrow> srv_step E s (s\<lparr>sv_reg := reg_remove (sv_reg s) label pub ts\<rparr>)"
| step_allow: "sv_allow s = Some a \<Longrightarrow> srv_step E s (s\<lparr>sv_allow := Some (fst (Allow_Reload F a))\<rparr>)"

text \<open>An environment in which the others, and the certificate service, keep to \<open>Q\<close> and \<open>E\<close>.\<close>

definition follows :: "('c \<Rightarrow> 'c) set \<Rightarrow> ('c server \<Rightarrow> bool) \<Rightarrow> 'c reg_env \<Rightarrow> bool" where
  "follows E Q env \<longleftrightarrow> (\<forall>p s. Q s \<longrightarrow> Q (re_yield env p s)) \<and> (\<forall>l. (\<lambda>c. snd (re_ensure env c l)) \<in> E)"

text \<open>Every turn of the others, and every call of the certificate service, is made of steps.\<close>

definition others_step :: "('c \<Rightarrow> 'c) set \<Rightarrow> 'c reg_env \<Rightarrow> bool" where
  "others_step E env \<longleftrightarrow> (\<forall>p s. (srv_step E)\<^sup>*\<^sup>* s (re_yield env p s)) \<and> (\<forall>l. (\<lambda>c. snd (re_ensure env c l)) \<in> E)"

section \<open>The certificate service\<close>

text \<open>\<open>EnsureName\<close> and the renewal sweep behind the interface \<open>certService\<close>.\<close>

primrec service_EnsureName ::
  "(string \<Rightarrow> string) \<Rightarrow> x509 \<Rightarrow> acme_env \<Rightarrow> (string \<Rightarrow> read_result) \<Rightarrow> certService \<Rightarrow> string \<Rightarrow> goerr option \<times> certService" where
  "service_EnsureName uni x env rd (ACME m) label =
     (case Manager_EnsureName uni x env m label of (e, m', _) \<Rightarrow> (e, ACME m'))"
| "service_EnsureName uni x env rd (Preprovisioned s) label =
     (case Static_EnsureName uni x rd s label of (e, s') \<Rightarrow> (map_option plain_err e, Preprovisioned s'))"

primrec service_renew :: "(string \<Rightarrow> string) \<Rightarrow> gotime \<Rightarrow> (string list \<Rightarrow> string \<Rightarrow> goerr + cert) \<Rightarrow> certService \<Rightarrow> certService" where
  "service_renew uni now obt (ACME m) = ACME (checkAndRenew uni now obt m)"
| "service_renew uni now obt (Preprovisioned s) = Preprovisioned s"

text \<open>What the running server does to it, with any files on the disk and any answers of the certificate authority.\<close>

inductive_set service_ops :: "(string \<Rightarrow> string) \<Rightarrow> (certService \<Rightarrow> certService) set" for uni where
  op_ensure: "(\<lambda>c. snd (service_EnsureName uni x env rd c l)) \<in> service_ops uni"
| op_reload: "cd_uni cd = uni \<Longrightarrow> reloadCerts cd \<in> service_ops uni"
| op_renew: "service_renew uni now obt \<in> service_ops uni"

section \<open>Well-formed servers\<close>

text \<open>A limiter the daemon made, or none.\<close>

definition lim_wf :: "SlidingWindow option \<Rightarrow> bool" where
  "lim_wf l \<longleftrightarrow> (\<forall>s. l = Some s \<longrightarrow> sw_inv s \<and> sw_maxKeys s = DefaultMaxKeys)"

text \<open>
  Every map is a map, every key in the database, the allowlist and the registry has the length of an Ed25519 public key, every limiter is within
  its bounds, and the certificate table satisfies \<open>C\<close>.
\<close>

definition server_wf :: "('c \<Rightarrow> bool) \<Rightarrow> 'c server \<Rightarrow> bool" where
  "server_wf C s \<longleftrightarrow> maps_wf (sv_reg s) \<and> (\<forall>k l. by_key (sv_reg s) k l \<noteq> None \<longrightarrow> length k = 32) \<and> store_inv (sv_store s) \<and> C (sv_cert s)
     \<and> lim_wf (sv_ip s) \<and> lim_wf (sv_pub s) \<and> lim_wf (sv_refund s) \<and> (\<forall>a. sv_allow s = Some a \<longrightarrow> al_inv a)"

section \<open>Sample values\<close>

definition svc_env :: "certService reg_env" where
  "svc_env = \<lparr>re_verify = (\<lambda>k m s. s = demo_sig), re_quote = id, re_now = (\<lambda>_. 1700000000 * Second),
     re_rnd = (\<lambda>_. 0), re_fault = (\<lambda>_. None), re_yield = (\<lambda>_ s. s\<lparr>sv_ip := map_option (\<lambda>l. PruneAt l (1700000000 * Second)) (sv_ip s)\<rparr>),
     re_nonce = None, re_grace = 5 * Second, re_gone = False,
     re_ensure = service_EnsureName id demo_x509 (demo_env 0) (\<lambda>_. NotExist)\<rparr>"

section \<open>Handlers\<close>

locale step_closed =
  fixes E :: "('c \<Rightarrow> 'c) set" and Q :: "'c server \<Rightarrow> bool"
  assumes closed: "Q s \<Longrightarrow> srv_step E s t \<Longrightarrow> Q t"
begin

lemma yieldQ: "follows E Q env \<Longrightarrow> Q s \<Longrightarrow> Q (re_yield env p s)"
  by (simp add: follows_def)

lemma ensureQ: "follows E Q env \<Longrightarrow> Q s \<Longrightarrow> re_ensure env (sv_cert s) l = (e, c) \<Longrightarrow> Q (s\<lparr>sv_cert := c\<rparr>)"
proof -
  assume f: "follows E Q env" "Q s" "re_ensure env (sv_cert s) l = (e, c)"
  have "(\<lambda>c. snd (re_ensure env c l)) \<in> E" using f(1) by (simp add: follows_def)
  from closed [OF f(2) step_cert [OF this, of s]] show ?thesis using f(3) by simp
qed

lemma storeQ:
  "Q s \<Longrightarrow> Store_Put flt (sv_store s) u k now = (e, s1) \<Longrightarrow> Q (s\<lparr>sv_store := s1\<rparr>)"
  "Q s \<Longrightarrow> Store_Touch flt (sv_store s) u now = (e, s1) \<Longrightarrow> Q (s\<lparr>sv_store := s1\<rparr>)"
  "Q s \<Longrightarrow> Store_Rotate flt (sv_store s) u k now = (e, s1) \<Longrightarrow> Q (s\<lparr>sv_store := s1\<rparr>)"
  "Q s \<Longrightarrow> Store_Delete flt (sv_store s) u = (e, s1) \<Longrightarrow> Q (s\<lparr>sv_store := s1\<rparr>)"
  using closed [OF _ step_store [of E s "OpPut flt u k now"]] closed [OF _ step_store [of E s "OpTouch flt u now"]]
    closed [OF _ step_store [of E s "OpRotate flt u k now"]] closed [OF _ step_store [of E s "OpDelete flt u"]]
  by simp_all

lemma limQ:
  "Q s \<Longrightarrow> lim_step (sv_ip s) l \<Longrightarrow> Q (s\<lparr>sv_ip := l\<rparr>)"
  "Q s \<Longrightarrow> lim_step (sv_pub s) l \<Longrightarrow> Q (s\<lparr>sv_pub := l\<rparr>)"
  "Q s \<Longrightarrow> lim_step (sv_refund s) l \<Longrightarrow> Q (s\<lparr>sv_refund := l\<rparr>)"
  by (blast intro: closed srv_step.intros)+

lemma refundRegisterQ: "Q s \<Longrightarrow> Q (refundRegister ipKey pub s)"
proof -
  assume "Q s"
  from limQ(2) [OF limQ(1) [OF this lim_cancel] lim_cancel, of ipKey pub] show ?thesis by (simp add: refundRegister_def)
qed

lemma try_refundQ: "follows E Q env \<Longrightarrow> Q s \<Longrightarrow> try_refund env k s = (ok, s') \<Longrightarrow> Q s'"
proof -
  assume f: "follows E Q env" "Q s" "try_refund env k s = (ok, s')"
  let ?t = "re_yield env P_refund s"
  have Q: "Q ?t" by (rule yieldQ [OF f(1,2)])
  have same: "Q (?t\<lparr>sv_refund := l\<rparr>)" if "sv_refund ?t = l" for l
    using that [symmetric] Q by simp
  have "Q (?t\<lparr>sv_refund := l\<rparr>)" if "lim_Allow r n (sv_refund ?t) k = (ok', l)" for r n ok' l
    by (rule limQ(3) [OF Q lim_allow [OF that]])
  then show ?thesis using f(3) Q
    by (auto simp: try_refund_def mayRefund_def Let_def intro: same split: option.splits prod.splits if_splits)
qed

lemma claimNameQ:
  assumes "follows E Q env"
  shows "claimName env reg pub sv st = (r, sv', st') \<Longrightarrow> Q sv \<Longrightarrow> Q sv'"
  by (auto simp: claimName_def Let_def denied_def intro!: yieldQ [OF assms] intro: storeQ
      split: prod.splits option.splits store_err.splits sum.splits if_splits)

lemma issueNameQ:
  assumes "follows E Q env"
  shows "issueName env key reg pub sv st = (r, sv', st') \<Longrightarrow> Q sv \<Longrightarrow> Q sv'"
proof -
  assume i: "issueName env key reg pub sv st = (r, sv', st')" and q: "Q sv"
  obtain e c where E: "re_ensure env (sv_cert (re_yield env P_ensure sv)) (TunnelLabel (r_Unique reg)) = (e, c)" by fastforce
  note Q2 = ensureQ [OF assms yieldQ [OF assms q] E]
  show ?thesis using i E Q2 claimNameQ [OF assms _ Q2] try_refundQ [OF assms Q2] refundRegisterQ
    by (auto simp: issueName_def Let_def denied_def split: prod.splits option.splits if_splits)
qed

lemma registerNewQ:
  assumes "follows E Q env"
  shows "registerNew env key reg pub sv st = (r, sv', st') \<Longrightarrow> Q sv \<Longrightarrow> Q sv'"
proof -
  assume i: "registerNew env key reg pub sv st = (r, sv', st')" and q: "Q sv"
  obtain ok l where L: "lim_Allow (re_rnd env P_pub) (re_now env P_pub) (sv_pub (re_yield env P_pub sv)) pub = (ok, l)" by fastforce
  note Q2 = limQ(2) [OF yieldQ [OF assms q] lim_allow [OF L]]
  show ?thesis using i L Q2 issueNameQ [OF assms _ Q2] try_refundQ [OF assms Q2] refundRegisterQ limQ(2) [OF yieldQ [OF assms Q2] lim_retry]
    by (auto simp: registerNew_def Let_def split: prod.splits if_splits)
qed

lemma registerReclaimQ:
  assumes "follows E Q env"
  shows "registerReclaim env reg pub x sv st = (r, sv', st') \<Longrightarrow> Q sv \<Longrightarrow> Q sv'"
  by (auto simp: registerReclaim_def Let_def denied_def intro!: yieldQ [OF assms] intro: storeQ
      split: prod.splits option.splits sum.splits if_splits)

lemma registerLookupQ:
  assumes "follows E Q env"
  shows "registerLookup env key reg pub sv st = (r, sv', st') \<Longrightarrow> Q sv \<Longrightarrow> Q sv'"
proof -
  assume i: "registerLookup env key reg pub sv st = (r, sv', st')" and q: "Q sv"
  note Q1 = yieldQ [OF assms q, of P_allow]
  note Q2 = yieldQ [OF assms Q1, of P_get]
  show ?thesis using i Q1 Q2 registerNewQ [OF assms _ Q2] registerReclaimQ [OF assms _ Q2] storeQ(2) [OF yieldQ [OF assms Q2, of P_touch]]
    by (auto simp: registerLookup_def Let_def denied_def split: prod.splits option.splits sum.splits if_splits store_err.splits)
qed

lemma registerVerifyQ:
  assumes "follows E Q env"
  shows "registerVerify env peer key reg sv st = (r, sv', st') \<Longrightarrow> Q sv \<Longrightarrow> Q sv'"
proof -
  assume i: "registerVerify env peer key reg sv st = (r, sv', st')" and q: "Q sv"
  show ?thesis using i q registerLookupQ [OF assms _ q] try_refundQ [OF assms q] limQ(1) [OF _ lim_cancel]
    by (auto simp: registerVerify_def Let_def denied_def split: prod.splits option.splits if_splits)
qed

lemma handleRegisterQ:
  assumes "follows E Q env"
  shows "handleRegister env peer addr sv st = (r, sv', st') \<Longrightarrow> Q sv \<Longrightarrow> Q sv'"
proof -
  assume i: "handleRegister env peer addr sv st = (r, sv', st')" and q: "Q sv"
  obtain ok l where L: "lim_Allow (re_rnd env P_ip) (re_now env P_ip) (sv_ip (re_yield env P_ip sv)) (ip_key addr) = (ok, l)" by fastforce
  note Q2 = limQ(1) [OF yieldQ [OF assms q] lim_allow [OF L]]
  show ?thesis using i q L Q2 registerVerifyQ [OF assms _ Q2] limQ(1) [OF yieldQ [OF assms Q2] lim_retry]
    by (auto simp: handleRegister_def registerAdmit_def Let_def denied_def split: prod.splits option.splits sum.splits if_splits)
qed

lemma handleDeregisterQ:
  assumes "follows E Q env"
  shows "handleDeregister env f u k sv st = (ok, sv', st') \<Longrightarrow> Q sv \<Longrightarrow> Q sv'"
  by (auto simp: handleDeregister_def Let_def intro!: yieldQ [OF assms] intro: storeQ split: prod.splits option.splits sum.splits if_splits)

lemma runControlLoopQ:
  assumes "\<forall>n. follows E Q (envs n)"
  shows "runControlLoop envs n u k sv st = (dr, sv', st') \<Longrightarrow> Q sv \<Longrightarrow> Q sv'"
  using assms
proof (induction envs n u k sv st rule: runControlLoop.induct)
  case (1 envs n u k sv st)
  note r = runControlLoop.simps [of envs n u k sv st]
  have K: "follows E Q (envs n)" using "1.prems" by blast
  show ?case
  proof (cases "ReadFrame st")
    case (Pair res st1)
    show ?thesis
    proof (cases res)
      case (Inl e)
      then show ?thesis using "1.prems" Pair r by simp
    next
      case (Inr f)
      obtain ok sv1 st2 where H: "handleDeregister (envs n) f u k sv st1 = (ok, sv1, st2)" using prod_cases3 by blast
      show ?thesis
        using "1.prems" "1.IH"(2) [OF Pair [symmetric] Inr] "1.IH"(1) [OF Pair [symmetric] Inr _ H [symmetric] refl]
          handleDeregisterQ [OF K H] Pair Inr H r
        by (auto split: if_splits)
    qed
  qed
qed

lemma registryQ:
  "Q s \<Longrightarrow> reg_add quote (sv_reg s) label pub ts = Inr r \<Longrightarrow> length pub = 32 \<Longrightarrow> Q (s\<lparr>sv_reg := r\<rparr>)"
  "Q s \<Longrightarrow> length pub = 32 \<Longrightarrow> Q (s\<lparr>sv_reg := reg_remove (sv_reg s) label pub ts\<rparr>)"
  by (blast intro: closed srv_step.intros)+

lemma serveSessionQ:
  assumes "follows E Q env" "\<forall>n. follows E Q (envs n)" "length (rr_pubkey res) = 32"
  shows "serveSession env envs apex ts res sv st = (r, sv', st') \<Longrightarrow> Q sv \<Longrightarrow> Q sv'"
proof -
  assume s: "serveSession env envs apex ts res sv st = (r, sv', st')" and q: "Q sv"
  obtain a sv1 st1 where A: "admitSession env apex ts res sv st = (a, sv1, st1)" by (metis prod_cases3)
  have Q1: "Q sv1" using A yieldQ [OF assms(1) q, of P_add] registryQ(1) [OF yieldQ [OF assms(1) q, of P_add] _ assms(3)]
    by (auto simp: admitSession_def Let_def split: sum.splits prod.splits)
  have D: "Q (dropSession env ts res s)" if "Q s" for s
    unfolding dropSession_def Let_def by (rule registryQ(2) [OF yieldQ [OF assms(1) that] assms(3)])
  show ?thesis using s A Q1 D runControlLoopQ [OF assms(2) _ Q1]
    by (auto simp: serveSession_def Let_def split: option.splits bool.splits prod.splits)
qed

lemma connectHandlerQ:
  assumes "follows E Q env" "\<forall>n. follows E Q (envs n)"
  shows "connectHandler env envs ce apex ts r sv st = (res, sv', st') \<Longrightarrow> Q sv \<Longrightarrow> Q sv'"
proof -
  assume c: "connectHandler env envs ce apex ts r sv st = (res, sv', st')" and q: "Q sv"
  obtain rr sv1 st1 where R: "handleRegister env (peerCertPub r) (ce_remote ce) sv st = (rr, sv1, st1)" by (metis prod_cases3)
  have Q1: "Q sv1" by (rule handleRegisterQ [OF assms(1) R q])
  have "Q sv'" if "rr = Some x" "serveSession env envs apex ts x sv1 st1 = (res, sv', st')" for x
    using serveSessionQ [OF assms _ that(2) Q1] handleRegister_keylen R that(1) by blast
  then show ?thesis using c q R Q1
    by (auto simp: connectHandler_def split: if_splits option.splits)
qed

lemma stepsQ: "(srv_step E)\<^sup>*\<^sup>* s t \<Longrightarrow> Q s \<Longrightarrow> Q t"
  by (induction rule: rtranclp_induct) (auto intro: closed)

lemma identityDeleteQ:
  assumes "Q sv" "runIdentityDelete aenv parsed stateDir (sv_store sv) d = (c, out, s', d')"
  shows "Q (sv\<lparr>sv_store := s'\<rparr>)"
  using assms(2)
proof (cases rule: runIdentityDelete_cases)
  case kept
  then show ?thesis using assms(1) by simp
next
  case (released purge apex u ps)
  show ?thesis by (rule storeQ(4) [OF assms(1) released(5)])
qed

end

text \<open>The states that steps can reach, and the well-formed states.\<close>

interpretation reach: step_closed E "(srv_step E)\<^sup>*\<^sup>* s0" for E s0
  by unfold_locales (rule rtranclp.rtrancl_into_rtrancl)

lemma lim_step_wf: "lim_step l l' \<Longrightarrow> lim_wf l \<Longrightarrow> lim_wf l'"
proof (induction rule: lim_step.induct)
  case (lim_allow rnd now l k ok l')
  then show ?case using AllowAt_inv AllowAt_frame(3)
    by (cases l) (fastforce simp: lim_Allow_def lim_wf_def Let_def split: prod.splits dest: arg_cong [where f = snd])+
next
  case (lim_retry now l k dur l')
  then show ?case using RetryAfterAt_inv RetryAfterAt_frame(3)
    by (cases l) (fastforce simp: lim_RetryAfter_def lim_wf_def Let_def split: prod.splits dest: arg_cong [where f = snd])+
next
  case (lim_cancel l k)
  then show ?case by (cases l) (auto simp: lim_Cancel_def lim_wf_def CancelLatest_inv)
next
  case (lim_prune l now)
  then show ?case by (cases l) (auto simp: lim_wf_def PruneAt_def pruneLocked_inv)
qed

lemma Allow_Reload_inv: "al_inv a \<Longrightarrow> al_inv (fst (Allow_Reload F a))"
  by (auto simp: Allow_Reload_def parseDir_inv Let_def split: sum.splits prod.splits)

lemma srv_step_wf:
  assumes "\<forall>f\<in>E. \<forall>c. C c \<longrightarrow> C (f c)" "server_wf C s" "srv_step E s t"
  shows "server_wf C t"
  using assms(3,2)
proof (induction rule: srv_step.induct)
  case (step_add quote s label pub ts r)
  then show ?case by (auto simp: server_wf_def reg_add_wf reg_add_by_key)
next
  case (step_remove pub s label ts)
  then show ?case by (auto simp: server_wf_def reg_remove_wf reg_remove_by_key split: if_splits)
next
  case (step_cert f s)
  then show ?case using assms(1) by (simp add: server_wf_def)
qed (auto simp: server_wf_def store_step_inv Allow_Reload_inv dest: lim_step_wf)

text \<open>The certificate service keeps its table consistent.\<close>

lemma ensureSANs_inv:
  assumes "cs_inv uni (m_store m)" "ensureSANs uni x env m sans b = (e, m', os)"
  shows "cs_inv uni (m_store m')"
proof (cases "ae_joined env")
  case None
  then show ?thesis using assms(1) ensure_store [OF assms(2)] addEntry_inv by (cases e) auto
next
  case (Some j)
  then show ?thesis using assms by (auto simp: ensureSANs_def addEntry_inv split: sum.splits option.splits if_splits)
qed

lemma service_EnsureName_inv:
  "cs_inv uni (service_store c) \<Longrightarrow> cs_inv uni (service_store (snd (service_EnsureName uni x env rd c l)))"
  by (cases c) (auto simp: Manager_EnsureName_def Static_EnsureName_def Let_def addEntry_inv
      split: sum.splits option.splits if_splits prod.splits intro: ensureSANs_inv)

lemma load_all_inv: "cs_inv uni (fst sn) \<Longrightarrow> cs_inv uni (fst (foldl (load_one uni x rd) sn names))"
  by (induction names arbitrary: sn) (auto simp: load_one_def Let_def addEntry_inv split: sum.splits option.splits)

lemma loadAllFromDir_inv: "cs_inv uni s \<Longrightarrow> loadAllFromDir uni x mk dir rd s = Inr (s', n) \<Longrightarrow> cs_inv uni s'"
  using load_all_inv [of uni "(s, 0)" x rd] by (auto simp: loadAllFromDir_def split: option.splits sum.splits dest!: arg_cong [where f = fst])

lemma service_store_with [simp]: "service_store (with_store c s) = s"
  by (cases c) simp_all

lemma LoadAllFromDisk_inv:
  "cs_inv (cd_uni cd) (service_store c) \<Longrightarrow> cs_inv (cd_uni cd) (service_store (snd (LoadAllFromDisk cd c)))"
  by (auto simp: LoadAllFromDisk_def split: sum.splits prod.splits intro: loadAllFromDir_inv)

lemma service_ops_inv: "f \<in> service_ops uni \<Longrightarrow> cs_inv uni (service_store c) \<Longrightarrow> cs_inv uni (service_store (f c))"
proof (induction rule: service_ops.induct)
  case (op_ensure x env rd l)
  then show ?case by (simp add: service_EnsureName_inv)
next
  case (op_reload cd)
  then show ?case using LoadAllFromDisk_inv [of cd c] by (simp add: reloadCerts_def)
next
  case (op_renew now obt)
  then show ?case by (cases c) (simp_all add: checkAndRenew_def renew_all_inv)
qed

interpretation wf: step_closed "service_ops uni" "server_wf (\<lambda>c. cs_inv uni (service_store c))" for uni
  by unfold_locales (rule srv_step_wf, auto intro: service_ops_inv)

lemma others_follow: "others_step E env \<Longrightarrow> follows E ((srv_step E)\<^sup>*\<^sup>* s0) env"
  by (auto simp: others_step_def follows_def intro: rtranclp_trans)

lemma startServer_parts:
  assumes "startServer env opt ports c = Some (Listening dm)"
  shows "sv_cert (dm_server dm) = snd (LoadAllFromDisk (bt_certs env) c)" "\<exists>p. bt_open env p = Inr (sv_store (dm_server dm))"
    "sv_ip (dm_server dm) = Some (SlidingWindow_New (op_ipLimit opt) Hour)"
    "sv_pub (dm_server dm) = Some (SlidingWindow_New (op_keyLimit opt) (24 * Hour))"
    "sv_refund (dm_server dm) = Some (SlidingWindow_New (op_skewLimit opt) Hour)"
  using assms by (auto simp: startServer_def Let_def split: sum.splits option.splits)

lemma boot_server:
  assumes "boot env opt0 = Some (Listening dm)"
  obtains opt ports c where "startCerts env opt = Inr c" "startServer env opt ports c = Some (Listening dm)"
  using assms by (auto simp: boot_def Let_def split: if_splits sum.splits)

lemma startCerts_inv: "startCerts env opt = Inr c \<Longrightarrow> cs_inv (cd_uni (bt_certs env)) (service_store c)"
proof -
  let ?m = "SetOrderLimit (Manager_New (op_apex opt)) (op_ordersPerHour opt) (op_ordersParallel opt)"
  assume c: "startCerts env opt = Inr c"
  have m: "cs_inv uni (m_store ?m)" for uni by (simp add: SetOrderLimit_def Manager_New_def Let_def newCertStore_inv)
  show ?thesis using c
    by (auto simp: startCerts_def Manager_Ensure_def Let_def newCertStore_inv split: if_splits prod.splits option.splits dest!: ensureSANs_inv [OF m])
qed

lemma SlidingWindow_New_wf: "lim_wf (Some (SlidingWindow_New mx w))"
  by (auto simp: lim_wf_def SlidingWindow_New_def sw_inv_def DefaultMaxKeys_def)

lemma boot_wf:
  assumes "boot env opt0 = Some (Listening dm)" "\<forall>p s. bt_open env p = Inr s \<longrightarrow> store_inv s"
  shows "server_wf (\<lambda>c. cs_inv (cd_uni (bt_certs env)) (service_store c)) (dm_server dm)"
  using assms(1)
proof (cases rule: boot_server)
  case (1 opt ports c)
  note l = startServer_Listening [OF 1(2)] and p = startServer_parts [OF 1(2)]
  have "maps_wf newRegistry" "by_key newRegistry k l = None" for k l
    by (simp_all add: newRegistry_def maps_wf_def by_key_def)
  moreover have "store_inv (sv_store (dm_server dm))" using p(2) assms(2) by blast
  moreover have "al_inv a" if "sv_allow (dm_server dm) = Some a" for a
    using l(1) that by (auto simp: startAllow_def Allow_Load_def al_inv_def split: if_splits sum.splits prod.splits dest!: parseDir_keys)
  ultimately show ?thesis
    using LoadAllFromDisk_inv [OF startCerts_inv [OF 1(1)]] by (simp add: server_wf_def l p SlidingWindow_New_wf)
qed

lemma sighup_steps:
  assumes "cd_uni (hp_certs h) = uni"
  shows "(srv_step (service_ops uni))\<^sup>*\<^sup>* (dm_server dm) (dm_server (fst (sighup h dm)))"
proof -
  let ?E = "service_ops uni" and ?s = "dm_server dm" and ?a = "sv_allow (dm_server (fst (sighup h dm)))"
  have A: "(srv_step ?E)\<^sup>*\<^sup>* ?s (?s\<lparr>sv_allow := ?a\<rparr>)"
  proof (cases "sv_allow ?s")
    case None
    then have "?s\<lparr>sv_allow := ?a\<rparr> = ?s" by (simp add: sighup_arms)
    then show ?thesis by simp
  next
    case (Some a)
    then show ?thesis using step_allow [OF Some, of ?E "hp_allow h"] by (simp add: sighup_arms)
  qed
  have "srv_step ?E (?s\<lparr>sv_allow := ?a\<rparr>) (dm_server (fst (sighup h dm)))"
  proof -
    have "?s\<lparr>sv_allow := ?a, sv_cert := reloadCerts (hp_certs h) (sv_cert ?s)\<rparr> = dm_server (fst (sighup h dm))"
      by (rule server.equality) (simp_all add: sighup_arms)
    then show ?thesis using step_cert [OF op_reload [OF assms], of "?s\<lparr>sv_allow := ?a\<rparr>"] by simp
  qed
  with A show ?thesis by (rule rtranclp.rtrancl_into_rtrancl)
qed

section \<open>Properties\<close>


text \<open>
  C11: the server stays well formed.  If the daemon starts on a database whose keys have the length of an Ed25519 public key, then in
  every state that any interleaving of handlers, SIGHUPs, renewals, prunings and operator commands reaches: the maps of the registry are maps without
  empty inner maps, all keys in the registry, the database and the allowlist have 32 bytes, the three limiters hold at most their budget per
  key and 100000 keys, and every name in the certificate table leads to an entry that the table holds and that carries the name.
\<close>

theorem server_well_typed:
  assumes "boot env opt0 = Some (Listening dm)" "\<forall>p s. bt_open env p = Inr s \<longrightarrow> store_inv s"
    "(srv_step (service_ops (cd_uni (bt_certs env))))\<^sup>*\<^sup>* (dm_server dm) s"
  shows "server_wf (\<lambda>c. cs_inv (cd_uni (bt_certs env)) (service_store c)) s"
  by (rule wf.stepsQ [OF assms(3) boot_wf [OF assms(1,2)]])

lemma svc_env_steps: "others_step (service_ops id) svc_env"
  using step_ip [OF lim_prune] op_ensure by (auto simp: others_step_def svc_env_def)


theorem server_well_typed_witness:
  "\<exists>dm s. boot demo_boot_env demo_options = Some (Listening dm) \<and> owner_of (sv_store s) ''app'' = Some demo_pub
     \<and> server_wf (\<lambda>c. cs_inv id (service_store c)) s"
proof -
  obtain dm where B: "boot demo_boot_env demo_options = Some (Listening dm)" using demo_boot by blast
  let ?s = "(dm_server dm)\<lparr>sv_store := store_step (sv_store (dm_server dm)) (OpPut None ''app'' demo_pub 0)\<rparr>"
  have u: "cd_uni (bt_certs demo_boot_env) = id" by (simp add: demo_boot_env_def demo_certs_def)
  have o: "\<forall>p s. bt_open demo_boot_env p = Inr s \<longrightarrow> store_inv s" by (simp add: demo_boot_env_def store_inv_def)
  have o_open: "bt_open demo_boot_env p = Inr []" for p by (simp add: demo_boot_env_def)
  have e: "sv_store (dm_server dm) = []"
  proof -
    obtain opt ports c where "startServer demo_boot_env opt ports c = Some (Listening dm)" using boot_server [OF B] by blast
    then show ?thesis using startServer_parts(2) by (metis o_open sum.inject(2))
  qed
  have "(srv_step (service_ops id))\<^sup>*\<^sup>* (dm_server dm) ?s" by (rule r_into_rtranclp) (rule step_store)
  from server_well_typed [OF B o, unfolded u, OF this] have "server_wf (\<lambda>c. cs_inv id (service_store c)) ?s" .
  moreover have "owner_of (sv_store ?s) ''app'' = Some demo_pub"
    by (simp add: e Store_Put_def owner_of_def demo_facts PublicKeySize_def)
  ultimately show ?thesis using B by blast
qed

end
