(* ===== verification/Identity_File.thy ===== *)
theory Identity_File
  imports Go_OS
begin

text \<open>
  The client's identity (\<open>internal/tunnelclient/identity.go\<close>): the Ed25519 key comes from an environment variable or
  from a file that is created on the first run.
\<close>

section \<open>Model\<close>

definition IdentityKeyEnv :: string where
  "IdentityKeyEnv = ''SWE_TUNNEL_IDENTITY_KEY''"

text \<open>The environment variable and how the calls of the operating system and of the key generator end.\<close>

record 'k id_env =
  ie_getenv :: string
  ie_read :: "string option"
  ie_mkdir :: "string option"
  ie_generate :: "'k result"
  ie_write :: "wfault option"
  ie_umask :: fmode

definition parseB64Identity :: "'k keykit \<Rightarrow> string \<Rightarrow> 'k result" where
  "parseB64Identity kk s =
     (case StdDecodeString (TrimSpace s) of
        None \<Rightarrow> Inl ''base64 decode''
      | Some pemBytes \<Rightarrow>
          (case kk_pem_Decode kk pemBytes of
             None \<Rightarrow> Inl ''not PEM after base64 decode''
           | Some (_, block, _) \<Rightarrow>
               (case kk_Parse8 kk block of
                  Inl e \<Rightarrow> Inl (''parse PKCS8: '' @ e)
                | Inr (Ed25519Key priv) \<Rightarrow> Inr priv
                | Inr key \<Rightarrow> Inl (''identity is '' @ type_name key @ '', want ed25519.PrivateKey''))))"

definition loadOrCreateIdentity ::
  "'k keykit \<Rightarrow> 'k id_env \<Rightarrow> string \<Rightarrow> disk \<Rightarrow> ('k \<times> bool) result \<times> disk" where
  "loadOrCreateIdentity kk env path d =
     (case ReadFile (ie_read env) d path of
        Inr data \<Rightarrow>
          (case kk_pem_Decode kk data of
             None \<Rightarrow> (Inl ''identity key: not PEM'', d)
           | Some (_, block, _) \<Rightarrow>
               (case kk_Parse8 kk block of
                  Inl e \<Rightarrow> (Inl (''parse PKCS8: '' @ e), d)
                | Inr (Ed25519Key priv) \<Rightarrow> (Inr (priv, False), d)
                | Inr key \<Rightarrow> (Inl (''identity key is '' @ type_name key @ '', want ed25519.PrivateKey''), d)))
      | Inl (OSError e) \<Rightarrow> (Inl (''read identity key: '' @ e), d)
      | Inl ErrNotExist \<Rightarrow>
          (case ie_mkdir env of
             Some e \<Rightarrow> (Inl (''mkdir for identity key: '' @ e), d)
           | None \<Rightarrow>
               (case ie_generate env of
                  Inl e \<Rightarrow> (Inl (''generate key: '' @ e), d)
                | Inr priv \<Rightarrow>
                    (case kk_Marshal8 kk (Ed25519Key priv) of
                       Inl e \<Rightarrow> (Inl (''marshal PKCS8: '' @ e), d)
                     | Inr der \<Rightarrow>
                         (case WriteFile (ie_umask env) (ie_write env) d path
                                 (kk_pem_Encode kk ''PRIVATE KEY'' der) mode600 of
                            (Some e, d1) \<Rightarrow> (Inl (''write identity key: '' @ e), d1)
                          | (None, d1) \<Rightarrow> (Inr (priv, True), d1))))))"

definition LoadOrCreateIdentity :: "'k keykit \<Rightarrow> 'k id_env \<Rightarrow> string \<Rightarrow> disk \<Rightarrow> 'k result \<times> disk" where
  "LoadOrCreateIdentity kk env path d =
     (let (r, d1) = loadOrCreateIdentity kk env path d in (map_sum id fst r, d1))"

definition LoadIdentityStatus ::
  "'k keykit \<Rightarrow> 'k id_env \<Rightarrow> string \<Rightarrow> disk \<Rightarrow> ('k \<times> bool) result \<times> disk" where
  "LoadIdentityStatus kk env filePath d =
     (let envB64 = ie_getenv env in
      if envB64 \<noteq> [] then
        (case parseB64Identity kk envB64 of
           Inl e \<Rightarrow> (Inl (IdentityKeyEnv @ '': '' @ e), d)
         | Inr priv \<Rightarrow> (Inr (priv, False), d))
      else loadOrCreateIdentity kk env filePath d)"

definition LoadIdentity :: "'k keykit \<Rightarrow> 'k id_env \<Rightarrow> string \<Rightarrow> disk \<Rightarrow> 'k result \<times> disk" where
  "LoadIdentity kk env filePath d =
     (let (r, d1) = LoadIdentityStatus kk env filePath d in (map_sum id fst r, d1))"

definition demo_id_env :: "bytes id_env" where
  "demo_id_env = \<lparr>ie_getenv = [], ie_read = None, ie_mkdir = None, ie_generate = Inr ''secret'', ie_write = None, ie_umask = 0x12\<rparr>"

section \<open>Lemmas\<close>

lemma loadOrCreate_disk:
  assumes "loadOrCreateIdentity kk env path d = (r, d')"
  shows "map_of d path \<noteq> None \<Longrightarrow> d' = d" "q \<noteq> path \<Longrightarrow> map_of d' q = map_of d q"
proof -
  show "map_of d path \<noteq> None \<Longrightarrow> d' = d"
    using assms by (auto simp: loadOrCreateIdentity_def ReadFile_def split: option.splits sum.splits anykey.splits os_err.splits)
  show "q \<noteq> path \<Longrightarrow> map_of d' q = map_of d q"
    using assms
    by (auto simp: loadOrCreateIdentity_def split: option.splits sum.splits anykey.splits os_err.splits prod.splits
        dest: WriteFile_other)
qed

text \<open>A key that was returned is the one in the file, in the form in which it is read.\<close>

lemma loadOrCreate_file:
  assumes "pem_roundtrip kk" "key_roundtrip kk" "loadOrCreateIdentity kk env path d = (Inr (priv, g), d')"
  shows "\<exists>f t block rest. map_of d' path = Some f \<and> kk_pem_Decode kk (fl_data f) = Some (t, block, rest)
     \<and> kk_Parse8 kk block = Inr (Ed25519Key priv) \<and> (g \<longleftrightarrow> map_of d path = None)
     \<and> (g \<longrightarrow> fl_mode f = mode600 AND NOT (ie_umask env))"
proof (cases "ReadFile (ie_read env) d path")
  case (Inr data)
  then obtain f where "map_of d path = Some f" "fl_data f = data" by (auto simp: ReadFile_def split: option.splits)
  then show ?thesis using assms(3) Inr
    by (auto simp: loadOrCreateIdentity_def split: option.splits sum.splits anykey.splits)
next
  case (Inl e)
  with assms(3) obtain der where n: "e = ErrNotExist" "kk_Marshal8 kk (Ed25519Key priv) = Inr der" "g"
    and w: "WriteFile (ie_umask env) (ie_write env) d path (kk_pem_Encode kk ''PRIVATE KEY'' der) mode600 = (None, d')"
    by (auto simp: loadOrCreateIdentity_def split: os_err.splits option.splits sum.splits prod.splits)
  have "map_of d path = None" using Inl n by (auto simp: ReadFile_def split: option.splits)
  with WriteFile_ok [OF w] n assms(1,2) show ?thesis by (auto simp: pem_roundtrip_def key_roundtrip_def)
qed

section \<open>Property\<close>

text \<open>
  C31: the identity is stable and nothing is overwritten.  When the environment variable is set it alone
  decides: the disk is not touched, a malformed value is an error and never falls back to the
  file.  An existing file is never changed, nor any other path, whatever fails.  Without
  the variable a key that was returned is in the file: every later run reads the same key,
  \<open>generated\<close> is reported exactly by the run that found no file, a generated file has mode 0600 less the
  umask, and the base64 text of the file works as the value of the variable.
\<close>

theorem identity_stable:
  assumes "pem_roundtrip kk" "key_roundtrip kk" "LoadIdentityStatus kk env path d = (r, d')"
  shows "(ie_getenv env \<noteq> [] \<longrightarrow> d' = d \<and> (\<forall>priv g. r = Inr (priv, g) \<longleftrightarrow> parseB64Identity kk (ie_getenv env) = Inr priv \<and> \<not> g))
    \<and> (map_of d path \<noteq> None \<longrightarrow> d' = d) \<and> (\<forall>q. q \<noteq> path \<longrightarrow> map_of d' q = map_of d q)
    \<and> (\<forall>priv g. ie_getenv env = [] \<longrightarrow> r = Inr (priv, g) \<longrightarrow>
         (g \<longleftrightarrow> map_of d path = None)
       \<and> (\<forall>env2. ie_getenv env2 = [] \<longrightarrow> ie_read env2 = None \<longrightarrow> LoadIdentityStatus kk env2 path d' = (Inr (priv, False), d'))
       \<and> (\<exists>f. map_of d' path = Some f \<and> (g \<longrightarrow> fl_mode f = mode600 AND NOT (ie_umask env))
            \<and> parseB64Identity kk (StdEncodeToString (fl_data f)) = Inr priv))"
proof (cases "ie_getenv env = []")
  case True
  then have L: "loadOrCreateIdentity kk env path d = (r, d')" using assms(3) by (simp add: LoadIdentityStatus_def)
  note disk = loadOrCreate_disk [OF L]
  have "(g \<longleftrightarrow> map_of d path = None)
       \<and> (\<forall>env2. ie_getenv env2 = [] \<longrightarrow> ie_read env2 = None \<longrightarrow> LoadIdentityStatus kk env2 path d' = (Inr (priv, False), d'))
       \<and> (\<exists>f. map_of d' path = Some f \<and> (g \<longrightarrow> fl_mode f = mode600 AND NOT (ie_umask env))
            \<and> parseB64Identity kk (StdEncodeToString (fl_data f)) = Inr priv)" if "r = Inr (priv, g)" for priv g
    using loadOrCreate_file [OF assms(1,2) L [unfolded that]]
    by (auto simp: LoadIdentityStatus_def loadOrCreateIdentity_def ReadFile_def parseB64Identity_def TrimSpace_graph [OF StdEncode_graph])
  with disk True show ?thesis by blast
next
  case False
  then show ?thesis using assms(3) by (auto simp: LoadIdentityStatus_def Let_def split: sum.splits)
qed

theorem identity_stable_witness:
  "\<exists>d' f. LoadIdentityStatus demo_kit demo_id_env ''/id.key'' [] = (Inr (''secret'', True), d')
     \<and> LoadIdentityStatus demo_kit (demo_id_env\<lparr>ie_generate := Inr ''other''\<rparr>) ''/id.key'' d' = (Inr (''secret'', False), d')
     \<and> map_of d' ''/id.key'' = Some f \<and> fl_mode f = mode600 AND NOT 0x12"
proof -
  obtain r d' where L: "LoadIdentityStatus demo_kit demo_id_env ''/id.key'' [] = (r, d')" by fastforce
  then have r: "r = Inr (''secret'', True)"
    by (auto simp: LoadIdentityStatus_def loadOrCreateIdentity_def ReadFile_def demo_id_env_def demo_kit_def WriteFile_def)
  have e: "ie_getenv demo_id_env = []" "ie_umask demo_id_env = 0x12" by (simp_all add: demo_id_env_def)
  note s = identity_stable [OF demo_kit_ok L]
  have "LoadIdentityStatus demo_kit (demo_id_env\<lparr>ie_generate := Inr ''other''\<rparr>) ''/id.key'' d' = (Inr (''secret'', False), d')"
    using s r e by (auto simp: demo_id_env_def)
  with s r e L show ?thesis by metis
qed

end
