(* ===== verification/Events.thy ===== *)
theory Events
  imports Client
begin

text \<open>
  The supervisor protocol (\<open>internal/tunnelclient/events.go\<close>): every event is one line of JSON on standard output.
  \<open>JSONLEmitter.Emit\<close> encodes the payload, wraps it in the envelope with version, time and kind, and
  writes the line; a failure is reported to the logger and swallowed.
\<close>

section \<open>Model\<close>

definition EventSchemaVersion :: int where "EventSchemaVersion = 1"

primrec event_kind :: "event \<Rightarrow> string" where
  "event_kind (EvStarting _ _) = ''starting''"
| "event_kind (EvConnecting _ _) = ''connecting''"
| "event_kind (EvRegisterOK _ _) = ''register_ok''"
| "event_kind (EvRelabel _ _) = ''relabel''"
| "event_kind (EvDisconnected _) = ''disconnected''"
| "event_kind (EvReconnecting _ _) = ''reconnecting''"
| "event_kind (EvDeregisterOK _) = ''deregister_ok''"
| "event_kind (EvError _ _) = ''error''"
| "event_kind (EvFatal _ _ _) = ''fatal''"

definition json_bool :: "bool \<Rightarrow> string" where
  "json_bool b = (if b then ''true'' else ''false'')"

primrec event_fields :: "event \<Rightarrow> (string \<times> string) list" where
  "event_fields (EvStarting u url) = [(''unique'', json_string u), (''server_url'', json_string url)]"
| "event_fields (EvConnecting url n) = [(''server_url'', json_string url), (''attempt'', Itoa n)]"
| "event_fields (EvRegisterOK h u) = [(''hostname'', json_string h), (''unique'', json_string u)]"
| "event_fields (EvRelabel h old) = [(''hostname'', json_string h), (''old_hostname'', json_string old)]"
| "event_fields (EvDisconnected r) = [(''reason'', json_string r)]"
| "event_fields (EvReconnecting ms n) = [(''after_ms'', Itoa ms), (''attempt'', Itoa n)]"
| "event_fields (EvDeregisterOK u) = [(''unique'', json_string u)]"
| "event_fields (EvError m r) = [(''message'', json_string m), (''retryable'', json_bool r)]"
| "event_fields (EvFatal r m n) =
     (if r = [] then [] else [(''reason'', json_string r)]) @ [(''message'', json_string m), (''exit_code'', Itoa n)]"

definition event_data :: "event \<Rightarrow> string" where
  "event_data ev = json_object (event_fields ev)"

text \<open>\<open>envelope\<close>: the raw payload is compacted by the encoder.\<close>

definition envelope :: "string \<Rightarrow> string \<Rightarrow> string \<Rightarrow> string option" where
  "envelope ts kind rawData =
     map_option (\<lambda>raw. json_object [(''v'', Itoa EventSchemaVersion), (''ts'', json_string ts), (''kind'', json_string kind), (''data'', raw)])
       (json_compact rawData)"

text \<open>What became of a write: nothing was written before the error, or a flush failed after it.\<close>

datatype emit_fault = WriteFails string nat | FlushFails string

record emitter =
  em_out :: bytes
  em_reports :: "(string \<times> string) list"

definition report :: "emitter \<Rightarrow> string \<Rightarrow> string \<Rightarrow> emitter" where
  "report e kind err = e\<lparr>em_reports := em_reports e @ [(kind, err)]\<rparr>"

text \<open>\<open>Emit\<close>: \<open>None\<close> is a nil payload; \<open>ts\<close> is the formatted time.\<close>

definition Emit :: "string \<Rightarrow> emit_fault option \<Rightarrow> emitter \<Rightarrow> string \<Rightarrow> string option \<Rightarrow> emitter" where
  "Emit ts flt e kind data =
     (case data of
        None \<Rightarrow> report e kind ''Emit called with nil data''
      | Some rawData \<Rightarrow>
          (case envelope ts kind rawData of
             None \<Rightarrow> report e kind ''marshal envelope''
           | Some env \<Rightarrow>
               (let line = env @ [CHR 0x0A] in
                case flt of
                  Some (WriteFails err n) \<Rightarrow> report (e\<lparr>em_out := em_out e @ take n line\<rparr>) kind (''write: '' @ err)
                | Some (FlushFails err) \<Rightarrow> report (e\<lparr>em_out := em_out e @ line\<rparr>) kind (''flush: '' @ err)
                | None \<Rightarrow> e\<lparr>em_out := em_out e @ line\<rparr>)))"

definition Emit_event :: "string \<times> emit_fault option \<Rightarrow> emitter \<Rightarrow> event \<Rightarrow> emitter" where
  "Emit_event tf e ev = Emit (fst tf) (snd tf) e (event_kind ev) (Some (event_data ev))"

definition emit_all :: "((string \<times> emit_fault option) \<times> event) list \<Rightarrow> emitter \<Rightarrow> emitter" where
  "emit_all evs e = foldl (\<lambda>e (tf, ev). Emit_event tf e ev) e evs"

section \<open>Specification\<close>

text \<open>The line of an event without its newline.\<close>

definition event_line :: "string \<Rightarrow> event \<Rightarrow> string" where
  "event_line ts ev =
     json_object [(''v'', Itoa EventSchemaVersion), (''ts'', json_string ts), (''kind'', json_string (event_kind ev)), (''data'', event_data ev)]"

text \<open>The events that reached the output, when every failed write wrote nothing.\<close>

definition delivered :: "((string \<times> emit_fault option) \<times> event) list \<Rightarrow> ((string \<times> emit_fault option) \<times> event) list" where
  "delivered evs = filter (\<lambda>((ts, flt), ev). case flt of Some (WriteFails _ _) \<Rightarrow> False | _ \<Rightarrow> True) evs"

text \<open>Texts are valid UTF-8 and numbers fit an \<open>int\<close>.\<close>

primrec event_wf :: "event \<Rightarrow> bool" where
  "event_wf (EvStarting u url) \<longleftrightarrow> valid_utf8 u \<and> valid_utf8 url"
| "event_wf (EvConnecting url n) \<longleftrightarrow> valid_utf8 url \<and> int64 n"
| "event_wf (EvRegisterOK h u) \<longleftrightarrow> valid_utf8 h \<and> valid_utf8 u"
| "event_wf (EvRelabel h old) \<longleftrightarrow> valid_utf8 h \<and> valid_utf8 old"
| "event_wf (EvDisconnected r) \<longleftrightarrow> valid_utf8 r"
| "event_wf (EvReconnecting ms n) \<longleftrightarrow> int64 ms \<and> int64 n"
| "event_wf (EvDeregisterOK u) \<longleftrightarrow> valid_utf8 u"
| "event_wf (EvError m r) \<longleftrightarrow> valid_utf8 m"
| "event_wf (EvFatal r m n) \<longleftrightarrow> valid_utf8 r \<and> valid_utf8 m \<and> int64 n"

definition demo_events :: "((string \<times> emit_fault option) \<times> event) list" where
  "demo_events = [((''t1'', None), EvStarting ''app'' ''https://ex.com''), ((''t2'', Some (WriteFails ''EPIPE'' 0)), EvError ''x'' True),
     ((''t3'', None), EvFatal [] (''two'' @ [CHR 0x0A] @ ''lines'') 1)]"

section \<open>Lemmas\<close>

lemma json_text_bool: "json_text 0 (JBool b) (json_bool b)"
  by (auto simp: json_text_def json_bool_def json_space_def json_value_scalar json_scalar_def HasPrefix_def)

lemma compact_ok_bool: "compact_ok (json_bool b)"
  by (simp add: compact_ok_def json_bool_def compact_out json_space_def)

lemma high_not_nl: "128 \<le> (of_char c :: nat) \<Longrightarrow> c \<noteq> CHR 0x0A"
  by auto

lemma utf8_rune_no_nl:
  assumes "0 < utf8_len s" "128 \<le> (of_char (hd s) :: nat)"
  shows "CHR 0x0A \<notin> set (take (utf8_len s) s)"
  using assms(1)
proof (cases rule: utf8_len_cases)
  case (2 c c1 u)
  then have "c \<noteq> CHR 0x0A" "c1 \<noteq> CHR 0x0A" using assms(2) by (auto simp: utf8_cont_def)
  with 2 show ?thesis by (auto simp: utf8_len_def)
next
  case (3 c c1 c2 u)
  then have "c \<noteq> CHR 0x0A" "c1 \<noteq> CHR 0x0A" "c2 \<noteq> CHR 0x0A" using assms(2) by (auto simp: utf8_cont_def utf8_second_ok_def split: if_splits)
  with 3 show ?thesis by (auto simp: utf8_len_def)
next
  case (4 c c1 c2 c3 u)
  then have "c \<noteq> CHR 0x0A" "c1 \<noteq> CHR 0x0A" "c2 \<noteq> CHR 0x0A" "c3 \<noteq> CHR 0x0A"
    using assms(2) by (auto simp: utf8_cont_def utf8_second_ok_def split: if_splits)
  with 4 show ?thesis by (auto simp: utf8_len_def)
qed (use assms(2) in simp)

lemma json_ascii_no_nl: "(of_char c :: nat) < 128 \<Longrightarrow> CHR 0x0A \<notin> set (json_ascii c)"
proof -
  have h: "d < 16 \<Longrightarrow> hex_char d \<noteq> CHR 0x0A" for d using hex_char_plain [of d] by auto
  assume "(of_char c :: nat) < 128"
  then show ?thesis using h [of "of_char c div 16"] h [of "of_char c mod 16"]
    by (auto simp: json_ascii_def Let_def div_less_iff_less_mult)
qed

lemma json_esc_no_nl: "CHR 0x0A \<notin> set (json_esc s)"
proof (induction s rule: json_esc.induct)
  case (1 s)
  show ?case
  proof (cases s)
    case (Cons c cs)
    then show ?thesis
      using 1 json_ascii_no_nl [of c] utf8_rune_no_nl [of s]
      by (subst json_esc.simps) (auto simp: json_line_sep_def)
  qed (simp add: json_esc_Nil)
qed

lemma json_string_no_nl: "CHR 0x0A \<notin> set (json_string s)"
  using json_esc_no_nl by (simp add: json_string_def)

lemma Itoa_no_nl: "CHR 0x0A \<notin> set (Itoa n)"
proof -
  have "CHR 0x0A \<notin> set (nat_digits k)" for k
    using nat_digits_digits [of k] by (auto simp: list_all_iff is_digit_def)
  then show ?thesis by (auto simp: Itoa_def)
qed

lemma Join_set: "set (Join vs s) \<subseteq> \<Union> (set ` set vs) \<union> set s"
  by (induction vs s rule: Join.induct) auto

lemma json_object_no_nl:
  assumes "\<forall>(k, v)\<in>set ms. CHR 0x0A \<notin> set v"
  shows "CHR 0x0A \<notin> set (json_object ms)"
proof -
  have "CHR 0x0A \<notin> set (json_member m)" if "m \<in> set ms" for m
    using assms that json_string_no_nl by (auto simp: json_member_def)
  then show ?thesis using Join_set [of "map json_member ms" "'',''"] by (auto simp: json_object_def)
qed

lemma event_fields_ok:
  "\<forall>(k, v)\<in>set (event_fields ev). is_ascii k \<and> (\<exists>j. json_text 0 j v) \<and> compact_ok v \<and> CHR 0x0A \<notin> set v"
proof -
  have s: "\<exists>j. json_text 0 j (json_string x)" "\<exists>j. json_text 0 j (Itoa n)" "\<exists>j. json_text 0 j (json_bool b)" for x n b
    using json_text_string json_text_int json_text_bool by blast+
  have b: "CHR 0x0A \<notin> set (json_bool b)" for b by (simp add: json_bool_def)
  show ?thesis
    by (cases ev) (auto simp: s b compact_ok_string compact_ok_Itoa compact_ok_bool json_string_no_nl Itoa_no_nl is_ascii_def)
qed

lemma json_object_text:
  assumes "\<forall>(k, v)\<in>set ms. is_ascii k \<and> (\<exists>j. json_text n j v)"
  shows "json_text (Suc n) (JObj ms) (json_object ms)"
proof -
  have "map (apfst ToValidUTF8) ms = ms" using assms by (induction ms) (auto simp: ToValidUTF8_ascii)
  then show ?thesis using json_text_object [of ms n] assms by fastforce
qed

lemma event_data_text: "json_text 1 (JObj (event_fields ev)) (event_data ev)"
  unfolding event_data_def One_nat_def using event_fields_ok [of ev] by (intro json_object_text) fastforce

lemma event_data_parse: "json_parse (event_data ev) = Some (JObj (event_fields ev))"
  by (rule json_parse_text [OF event_data_text]) (simp_all add: maxNestingDepth_def event_data_def json_object_def)

lemma event_envelope: "envelope ts (event_kind ev) (event_data ev) = Some (event_line ts ev)"
proof -
  have "compact_ok (event_data ev)" unfolding event_data_def using event_fields_ok [of ev] by (intro compact_ok_object) fastforce
  then have "json_compact (event_data ev) = Some (event_data ev)"
    by (rule json_compact_id [OF _ event_data_text]) (simp_all add: maxNestingDepth_def event_data_def json_object_def)
  then show ?thesis by (simp add: envelope_def event_line_def)
qed

lemma event_line_no_nl: "CHR 0x0A \<notin> set (event_line ts ev)"
proof -
  have "CHR 0x0A \<notin> set (event_data ev)" unfolding event_data_def using event_fields_ok [of ev] by (intro json_object_no_nl) fastforce
  then show ?thesis unfolding event_line_def by (intro json_object_no_nl) (simp add: json_string_no_nl Itoa_no_nl)
qed

lemma event_line_parse:
  "json_parse (event_line ts ev) =
     Some (JObj [(''v'', ''1''), (''ts'', json_string ts), (''kind'', json_string (event_kind ev)), (''data'', event_data ev)])"
proof -
  have t: "\<exists>j. json_text 1 j (json_string x)" "\<exists>j. json_text 1 j (Itoa n)" for x n
    using json_text_string [of x] json_text_int [of n] unfolding json_text_def by (metis le_trans zero_le)+
  have i: "Itoa EventSchemaVersion = ''1''" by (simp add: EventSchemaVersion_def Itoa_def nat_digits.simps digit_char_def)
  let ?ms = "[(''v'', Itoa EventSchemaVersion), (''ts'', json_string ts), (''kind'', json_string (event_kind ev)), (''data'', event_data ev)]"
  have "json_text (Suc 1) (JObj ?ms) (json_object ?ms)"
    by (rule json_object_text) (use t event_data_text in \<open>auto simp: is_ascii_def\<close>)
  moreover have "Suc 1 \<le> length (json_object ?ms)" by (simp add: json_object_def json_member_def)
  ultimately have "json_parse (json_object ?ms) = Some (JObj ?ms)"
    by (intro json_parse_text [of "Suc 1"]) (simp_all add: maxNestingDepth_def)
  then show ?thesis by (simp add: event_line_def i)
qed

lemma json_string_inj:
  assumes "json_string a = json_string b" "valid_utf8 a" "valid_utf8 b"
  shows "a = b"
proof -
  have "json_parse (json_string x) = Some (JStr (ToValidUTF8 x))" for x
    by (rule json_parse_text [OF json_text_string]) simp_all
  then have "ToValidUTF8 a = ToValidUTF8 b" using assms(1) by (metis json.inject(3) option.inject)
  then show ?thesis using assms(2,3) by (simp add: ToValidUTF8_valid)
qed

lemma Itoa_inj: "Itoa m = Itoa n \<Longrightarrow> int64 m \<Longrightarrow> int64 n \<Longrightarrow> m = n"
  by (metis Atoi_Itoa option.inject)

lemma event_kind_ascii: "valid_utf8 (event_kind ev)"
  by (cases ev) (auto intro!: valid_utf8_ascii simp: is_ascii_def)

lemma event_line_inj:
  assumes "event_line ts ev = event_line ts' ev'" "event_wf ev" "event_wf ev'"
  shows "ev = ev'"
proof -
  have "json_string (event_kind ev) = json_string (event_kind ev')" "event_data ev = event_data ev'"
    using event_line_parse [of ts ev] event_line_parse [of ts' ev'] assms(1) by auto
  then have k: "event_kind ev = event_kind ev'" and f: "event_fields ev = event_fields ev'"
    using json_string_inj event_kind_ascii event_data_parse [of ev] event_data_parse [of ev'] by auto
  have b: "json_bool r = json_bool r' \<Longrightarrow> r = r'" for r r' by (auto simp: json_bool_def split: if_splits)
  show ?thesis
    using k f assms(2,3) by (cases ev; cases ev') (auto dest: json_string_inj Itoa_inj b split: if_splits)
qed

lemma Emit_event_out:
  assumes "\<forall>err n. flt = Some (WriteFails err n) \<longrightarrow> n = 0"
  shows "em_out (Emit_event (ts, flt) e ev) = em_out e @ (case flt of Some (WriteFails _ _) \<Rightarrow> [] | _ \<Rightarrow> event_line ts ev @ [CHR 0x0A])"
    "map fst (em_reports (Emit_event (ts, flt) e ev)) = map fst (em_reports e) @ (if flt = None then [] else [event_kind ev])"
  using assms by (auto simp: Emit_event_def Emit_def event_envelope report_def Let_def split: option.splits emit_fault.splits)

lemma emit_all_out:
  assumes "\<forall>((ts, flt), ev)\<in>set evs. \<forall>err n. flt = Some (WriteFails err n) \<longrightarrow> n = 0"
  shows "em_out (emit_all evs e) = em_out e @ concat (map (\<lambda>((ts, _), ev). event_line ts ev @ [CHR 0x0A]) (delivered evs))
    \<and> map fst (em_reports (emit_all evs e)) = map fst (em_reports e) @ map (event_kind \<circ> snd) (filter (\<lambda>((_, flt), _). flt \<noteq> None) evs)"
  using assms
proof (induction evs arbitrary: e)
  case (Cons x evs)
  obtain ts flt ev where x: "x = ((ts, flt), ev)" by (metis surj_pair)
  have n: "\<forall>err n. flt = Some (WriteFails err n) \<longrightarrow> n = 0" using Cons.prems x by simp
  have "emit_all (x # evs) e = emit_all evs (Emit_event (ts, flt) e ev)" by (simp add: emit_all_def x)
  then show ?case using Cons.IH [of "Emit_event (ts, flt) e ev"] Cons.prems Emit_event_out [OF n, of ts e ev]
    by (auto simp: x delivered_def split: option.splits emit_fault.splits)
qed (simp add: emit_all_def delivered_def)

lemma Split_lines:
  assumes "\<forall>l\<in>set ls. c \<notin> set l"
  shows "Split (concat (map (\<lambda>l. l @ [c]) ls)) c = ls @ [[]]"
  using assms by (induction ls) (auto simp: Split_append)

section \<open>Property\<close>

text \<open>
  C34: one line per event.  Whatever events are emitted at whatever times, as long as a write that fails has written nothing:
  splitting the output at newlines gives exactly the lines of the events whose write succeeded, in order; a line parses to version
  1, the time, the kind and the payload, the payload to the fields of the event; the failures are reported
  with their kinds; and two different events never have the same line.
\<close>

theorem emit_jsonl:
  assumes "\<forall>((ts, flt), ev)\<in>set evs. \<forall>err n. flt = Some (WriteFails err n) \<longrightarrow> n = 0"
    "e' = emit_all evs \<lparr>em_out = [], em_reports = []\<rparr>"
  shows "Split (em_out e') (CHR 0x0A) = map (\<lambda>((ts, _), ev). event_line ts ev) (delivered evs) @ [[]]
    \<and> (\<forall>ts ev. json_parse (event_line ts ev) =
          Some (JObj [(''v'', ''1''), (''ts'', json_string ts), (''kind'', json_string (event_kind ev)), (''data'', event_data ev)])
        \<and> json_parse (event_data ev) = Some (JObj (event_fields ev)))
    \<and> map fst (em_reports e') = map (event_kind \<circ> snd) (filter (\<lambda>((_, flt), _). flt \<noteq> None) evs)
    \<and> (\<forall>ts ev ts' ev'. event_wf ev \<longrightarrow> event_wf ev' \<longrightarrow> event_line ts ev = event_line ts' ev' \<longrightarrow> ev = ev')"
proof -
  let ?ls = "map (\<lambda>((ts, _), ev). event_line ts ev) (delivered evs)"
  have "concat (map (\<lambda>((ts, _), ev). event_line ts ev @ [CHR 0x0A]) (delivered evs)) = concat (map (\<lambda>l. l @ [CHR 0x0A]) ?ls)"
    by (simp add: comp_def case_prod_unfold)
  moreover have "\<forall>l\<in>set ?ls. CHR 0x0A \<notin> set l" using event_line_no_nl by auto
  ultimately show ?thesis
    using emit_all_out [OF assms(1)] Split_lines [of ?ls] event_line_parse event_data_parse event_line_inj assms(2) by auto
qed

theorem emit_jsonl_witness:
  "Split (em_out (emit_all demo_events \<lparr>em_out = [], em_reports = []\<rparr>)) (CHR 0x0A)
     = [event_line ''t1'' (EvStarting ''app'' ''https://ex.com''), event_line ''t3'' (EvFatal [] (''two'' @ [CHR 0x0A] @ ''lines'') 1), []]
   \<and> map fst (em_reports (emit_all demo_events \<lparr>em_out = [], em_reports = []\<rparr>)) = [''error'']"
  using emit_jsonl [of demo_events, OF _ refl] by (simp add: demo_events_def delivered_def)

end
