(* ===== verification/Client_Main.thy ===== *)
theory Client_Main
  imports Events Identity_File
begin

text \<open>
  The client's command (\<open>cmd/swe-swe-tunnel/main.go\<close>): settings from flags and environment, the key, the TLS
  configuration, then \<open>Run\<close>.  The model says which events the supervisor is given, whether \<open>Run\<close> is
  entered and with which key, and the exit code.
\<close>

section \<open>Model\<close>

record client_opts =
  co_server :: string
  co_unique :: string
  co_identityKey :: string
  co_insecure :: bool
  co_clientCert :: string
  co_reportFormat :: string
  co_given :: "string list"

text \<open>\<open>cn_lookupFormat\<close> is \<open>os.LookupEnv\<close> of the report format, which tells an empty variable from none.\<close>

record ('k, 'c) client_env =
  cn_getenv :: "string \<Rightarrow> string"
  cn_lookupFormat :: "string option"
  cn_home :: "string option"
  cn_quote :: "string \<Rightarrow> string"
  cn_kit :: "'k keykit"
  cn_id :: "'k id_env"
  cn_pub :: "'k \<Rightarrow> bytes"
  cn_cert_fault :: "string option"
  cn_X509KeyPair :: "bytes \<Rightarrow> bytes \<Rightarrow> 'c result"
  cn_rounds :: "round_env list"

definition defaultIdentityKey :: "string option \<Rightarrow> string" where
  "defaultIdentityKey home =
     (case home of
        Some h \<Rightarrow> filepath_Join [h, ''.swe-swe-tunnel'', ''identity.key'']
      | None \<Rightarrow> ''.swe-swe-tunnel/identity.key'')"

definition fill :: "string \<Rightarrow> string \<Rightarrow> string" where
  "fill v dflt = (if v = [] then dflt else v)"

definition resolveClient :: "('k, 'c) client_env \<Rightarrow> client_opts \<Rightarrow> client_opts" where
  "resolveClient env opt =
     opt\<lparr>co_server := fill (co_server opt) (cn_getenv env ''SWE_TUNNEL_SERVER''),
         co_unique := fill (co_unique opt) (cn_getenv env ''SWE_TUNNEL_UNIQUE''),
         co_identityKey := fill (fill (co_identityKey opt) (cn_getenv env ''SWE_TUNNEL_KEY'')) (defaultIdentityKey (cn_home env)),
         co_clientCert := fill (co_clientCert opt) (cn_getenv env ''SWE_TUNNEL_CLIENT_CERT''),
         co_reportFormat := (case cn_lookupFormat env of
            Some rf \<Rightarrow> if ''report-format'' \<in> set (co_given opt) then co_reportFormat opt else rf
          | None \<Rightarrow> co_reportFormat opt)\<rparr>"

datatype emitter_kind = NoopEmitter | JSONL

definition buildEmitter :: "(string \<Rightarrow> string) \<Rightarrow> string \<Rightarrow> emitter_kind result" where
  "buildEmitter quote format =
     (if format = [] \<or> format = ''none'' then Inr NoopEmitter
      else if format = ''jsonl'' then Inr JSONL
      else Inl (''unknown format '' @ quote format @ '' (want one of: none, jsonl)''))"

record 'c tls_client =
  tl_Certificates :: "'c list"
  tl_InsecureSkipVerify :: bool

text \<open>\<open>Inr None\<close> is the nil configuration; \<open>priv\<close> is \<open>None\<close> for a nil key.\<close>

definition buildTLSConfig ::
  "'k keykit \<Rightarrow> string option \<Rightarrow> (bytes \<Rightarrow> bytes \<Rightarrow> 'c result) \<Rightarrow> disk \<Rightarrow> string \<Rightarrow> 'k option \<Rightarrow> bool \<Rightarrow> 'c tls_client option result" where
  "buildTLSConfig kk flt pair d clientCertPath priv insecure =
     (if clientCertPath = [] \<and> \<not> insecure then Inr None
      else if clientCertPath \<noteq> [] then
        (case priv of
           None \<Rightarrow> Inl ''identity private key is nil; load identity before buildTLSConfig''
         | Some k \<Rightarrow>
             (case ReadFile flt d clientCertPath of
                Inl e \<Rightarrow> Inl (''read --client-cert '' @ clientCertPath @ '': '' @ os_msg e)
              | Inr certPEM \<Rightarrow>
                  (case kk_Marshal8 kk (Ed25519Key k) of
                     Inl e \<Rightarrow> Inl (''marshal identity key: '' @ e)
                   | Inr pkcs8 \<Rightarrow>
                       (case pair certPEM (kk_pem_Encode kk ''PRIVATE KEY'' pkcs8) of
                          Inl e \<Rightarrow> Inl (''pair cert+key: '' @ e)
                        | Inr c \<Rightarrow> Inr (Some \<lparr>tl_Certificates = [c], tl_InsecureSkipVerify = insecure\<rparr>)))))
      else Inr (Some \<lparr>tl_Certificates = [], tl_InsecureSkipVerify = insecure\<rparr>))"

text \<open>What the process did: its exit code (\<open>None\<close> while it runs), the events, and the key \<open>Run\<close> was entered with.\<close>

record ('k, 'c) outcome_main =
  om_exit :: "nat option"
  om_emitter :: "emitter_kind option"
  om_events :: "event list"
  om_run :: "('k \<times> 'c tls_client option) option"

definition client_run ::
  "('k, 'c) client_env \<Rightarrow> client_opts \<Rightarrow> emitter_kind \<Rightarrow> 'k \<Rightarrow> 'c tls_client option \<Rightarrow> ('k, 'c) outcome_main" where
  "client_run env opt em priv tlsCfg =
     (let ro = \<lparr>ro_Unique = co_unique opt, ro_ServerURL = co_server opt, ro_BackoffMin = 0, ro_BackoffMax = 0,
                ro_RateLimitFloor = 0, ro_MaxAttempts = 0\<rparr>;
          (evs, res) = Run ro (cn_rounds env)
      in \<lparr>om_exit = (case res of ReturnedErr _ \<Rightarrow> Some 1 | ReturnedNil \<Rightarrow> Some 0 | Running \<Rightarrow> None),
          om_emitter = Some em, om_events = evs, om_run = Some (priv, tlsCfg)\<rparr>)"

definition client_main :: "('k, 'c) client_env \<Rightarrow> client_opts \<Rightarrow> disk \<Rightarrow> ('k, 'c) outcome_main \<times> disk" where
  "client_main env opt0 d =
     (let opt = resolveClient env opt0 in
      if co_server opt = [] \<or> co_unique opt = []
      then (\<lparr>om_exit = Some 2, om_emitter = None, om_events = [], om_run = None\<rparr>, d)
      else
        (case buildEmitter (cn_quote env) (co_reportFormat opt) of
           Inl _ \<Rightarrow> (\<lparr>om_exit = Some 2, om_emitter = None, om_events = [], om_run = None\<rparr>, d)
         | Inr em \<Rightarrow>
             (case LoadIdentityStatus (cn_kit env) (cn_id env) (co_identityKey opt) d of
                (Inl e, d1) \<Rightarrow>
                  (\<lparr>om_exit = Some 1, om_emitter = Some em,
                    om_events = [EvFatal ''identity_error'' (''identity key '' @ cn_quote env (co_identityKey opt) @ '': '' @ e) 1],
                    om_run = None\<rparr>, d1)
              | (Inr (priv, generated), d1) \<Rightarrow>
                  if generated then
                    (\<lparr>om_exit = Some 1, om_emitter = Some em,
                      om_events = [EvFatal ''identity_generated''
                         (''generated new identity '' @ co_identityKey opt @ ''; allowlist pubkey ''
                          @ EncodeToString (cn_pub env priv) @ '' then restart'') 1],
                      om_run = None\<rparr>, d1)
                  else
                    (case buildTLSConfig (cn_kit env) (cn_cert_fault env) (cn_X509KeyPair env) d1 (co_clientCert opt) (Some priv) (co_insecure opt) of
                       Inl e \<Rightarrow> (\<lparr>om_exit = Some 1, om_emitter = Some em, om_events = [EvFatal [] (''tls config: '' @ e) 1], om_run = None\<rparr>, d1)
                     | Inr tlsCfg \<Rightarrow> (client_run env opt em priv tlsCfg, d1)))))"

definition demo_client_env :: "(bytes, unit) client_env" where
  "demo_client_env = \<lparr>cn_getenv = (\<lambda>_. []), cn_lookupFormat = Some ''jsonl'', cn_home = Some ''/h'', cn_quote = id, cn_kit = demo_kit,
     cn_id = demo_id_env, cn_pub = id, cn_cert_fault = None, cn_X509KeyPair = (\<lambda>_ _. Inr ()), cn_rounds = []\<rparr>"

definition demo_client_opts :: client_opts where
  "demo_client_opts = \<lparr>co_server = ''https://ex.com'', co_unique = ''app'', co_identityKey = ''/id.key'', co_insecure = False,
     co_clientCert = [], co_reportFormat = ''none'', co_given = []\<rparr>"

section \<open>Lemmas\<close>

lemma Run_fatal:
  "Run ro rds = (evs, res) \<Longrightarrow>
     (case res of ReturnedErr e \<Rightarrow> evs \<noteq> [] \<and> is_fatal (last evs) \<and> (\<forall>x\<in>set (butlast evs). \<not> is_fatal x)
      | _ \<Rightarrow> \<forall>x\<in>set evs. \<not> is_fatal x)"
  using run_loop_fatal [of ro 1 rds]
  by (auto simp: Run_def split: prod.splits run_result.splits if_splits)

text \<open>The three ways the process can go.\<close>

lemma client_main_cases:
  assumes "client_main env opt0 d = (om, d')" "opt = resolveClient env opt0"
  obtains (usage) "om_emitter om = None" "om_run om = None" "d' = d"
  | (fatal) r m where "om_events om = [EvFatal r m 1]" "om_exit om = Some 1" "om_run om = None"
      "d' = snd (LoadIdentityStatus (cn_kit env) (cn_id env) (co_identityKey opt) d)"
  | (run) em priv cfg where "om = client_run env opt em priv cfg"
      "LoadIdentityStatus (cn_kit env) (cn_id env) (co_identityKey opt) d = (Inr (priv, False), d')"
  using assms by (auto simp: client_main_def Let_def split: if_splits sum.splits prod.splits)

lemma client_run_fatal:
  "let om = client_run env opt em priv cfg in
   (om_exit om = Some 1 \<longleftrightarrow> om_events om \<noteq> [] \<and> is_fatal (last (om_events om))) \<and> (\<forall>x\<in>set (butlast (om_events om)). \<not> is_fatal x)"
proof -
  let ?ro = "\<lparr>ro_Unique = co_unique opt, ro_ServerURL = co_server opt, ro_BackoffMin = 0, ro_BackoffMax = 0, ro_RateLimitFloor = 0, ro_MaxAttempts = 0\<rparr>"
  obtain evs res where R: "Run ?ro (cn_rounds env) = (evs, res)" by fastforce
  show ?thesis
    using Run_fatal [OF R] R by (cases res) (auto simp: client_run_def Let_def dest: in_set_butlastD)
qed

lemma LoadIdentity_not_generated:
  "LoadIdentityStatus kk env p d = (Inr (priv, False), d') \<Longrightarrow> d' = d"
  by (auto simp: LoadIdentityStatus_def loadOrCreateIdentity_def Let_def
      split: if_splits sum.splits option.splits anykey.splits os_err.splits prod.splits)

text \<open>The run after the one that generated the key.\<close>

lemma LoadIdentity_again:
  assumes "pem_roundtrip kk" "key_roundtrip kk" "LoadIdentityStatus kk env p d = (Inr (priv, True), d')" "ie_read env2 = None" "ie_getenv env2 = ie_getenv env"
  shows "LoadIdentityStatus kk env2 p d' = (Inr (priv, False), d')"
proof -
  have e: "ie_getenv env = []" and L: "loadOrCreateIdentity kk env p d = (Inr (priv, True), d')"
    using assms(3) by (auto simp: LoadIdentityStatus_def Let_def split: if_splits sum.splits)
  from loadOrCreate_file [OF assms(1,2) L] show ?thesis
    using assms(4,5) e by (auto simp: LoadIdentityStatus_def loadOrCreateIdentity_def ReadFile_def)
qed

section \<open>Properties\<close>

text \<open>
  C35: the supervisor is told.  Once the emitter exists the client ends with exit code 1 exactly if its last event is \<open>fatal\<close>,
  and no other event is: it is told about every failure and about no failure that is not one.
  \<open>Run\<close> is entered only with a key that the environment or the disk had before the process started, and then nothing on
  the disk was changed; a freshly generated key is reported and never used to connect.  The run after that one, with the key
  file readable and the TLS files in order, enters \<open>Run\<close> with exactly this key.
\<close>

theorem client_main_reports:
  assumes "client_main env opt0 d = (om, d')" "pem_roundtrip (cn_kit env)" "key_roundtrip (cn_kit env)"
  shows "(om_emitter om \<noteq> None \<longrightarrow>
      (om_exit om = Some 1 \<longleftrightarrow> om_events om \<noteq> [] \<and> is_fatal (last (om_events om)))
    \<and> (\<forall>x. x \<in> set (butlast (om_events om)) \<longrightarrow> \<not> is_fatal x))
   \<and> (\<forall>priv cfg. om_run om = Some (priv, cfg) \<longrightarrow> d' = d
        \<and> LoadIdentityStatus (cn_kit env) (cn_id env) (co_identityKey (resolveClient env opt0)) d = (Inr (priv, False), d))
   \<and> (\<forall>priv d1 env2 em. LoadIdentityStatus (cn_kit env) (cn_id env) (co_identityKey (resolveClient env opt0)) d = (Inr (priv, True), d1) \<longrightarrow>
        co_server (resolveClient env opt0) \<noteq> [] \<longrightarrow> co_unique (resolveClient env opt0) \<noteq> [] \<longrightarrow>
        buildEmitter (cn_quote env) (co_reportFormat (resolveClient env opt0)) = Inr em \<longrightarrow>
        env2 = env\<lparr>cn_id := (cn_id env)\<lparr>ie_read := None\<rparr>\<rparr> \<longrightarrow> co_clientCert (resolveClient env opt0) = [] \<longrightarrow>
        om_run om = None \<and> om_exit om = Some 1 \<and> d' = d1
      \<and> (\<exists>cfg. om_run (fst (client_main env2 opt0 d1)) = Some (priv, cfg)))"
proof (intro conjI allI impI)
  have A: "(om_exit om = Some 1 \<longleftrightarrow> om_events om \<noteq> [] \<and> is_fatal (last (om_events om)))
      \<and> (\<forall>x. x \<in> set (butlast (om_events om)) \<longrightarrow> \<not> is_fatal x)" if e: "om_emitter om \<noteq> None"
  proof (rule client_main_cases [OF assms(1) refl], goal_cases)
    case 3
    then show ?case using client_run_fatal by (metis (no_types, lifting))
  qed (use e in simp_all)
  show "om_exit om = Some 1 \<longleftrightarrow> om_events om \<noteq> [] \<and> is_fatal (last (om_events om))" if "om_emitter om \<noteq> None"
    using A [OF that] by blast
  show "\<not> is_fatal x" if "om_emitter om \<noteq> None" "x \<in> set (butlast (om_events om))" for x
    using A [OF that(1)] that(2) by blast
next
  fix priv cfg
  assume r: "om_run om = Some (priv, cfg)"
  have B: "d' = d \<and> LoadIdentityStatus (cn_kit env) (cn_id env) (co_identityKey (resolveClient env opt0)) d = (Inr (priv, False), d)"
  proof (rule client_main_cases [OF assms(1) refl], goal_cases)
    case (3 em priv' cfg')
    then have "priv' = priv" using r by (simp add: client_run_def Let_def split: prod.splits)
    then show ?case using 3 LoadIdentity_not_generated [OF 3(2)] by simp
  qed (use r in simp_all)
  show "d' = d" "LoadIdentityStatus (cn_kit env) (cn_id env) (co_identityKey (resolveClient env opt0)) d = (Inr (priv, False), d)"
    using B by blast+
next
  fix priv d1 env2 em
  assume g: "LoadIdentityStatus (cn_kit env) (cn_id env) (co_identityKey (resolveClient env opt0)) d = (Inr (priv, True), d1)"
    and n: "co_server (resolveClient env opt0) \<noteq> []" "co_unique (resolveClient env opt0) \<noteq> []"
      "buildEmitter (cn_quote env) (co_reportFormat (resolveClient env opt0)) = Inr em"
      "env2 = env\<lparr>cn_id := (cn_id env)\<lparr>ie_read := None\<rparr>\<rparr>" "co_clientCert (resolveClient env opt0) = []"
  show "om_run om = None" "om_exit om = Some 1" "d' = d1" using assms(1) g n by (auto simp: client_main_def Let_def)
  have o: "resolveClient env2 opt0 = resolveClient env opt0" by (simp add: resolveClient_def n(4))
  have "LoadIdentityStatus (cn_kit env2) (cn_id env2) (co_identityKey (resolveClient env2 opt0)) d1 = (Inr (priv, False), d1)"
    unfolding o using LoadIdentity_again [OF assms(2,3) g, of "cn_id env2"] n(4) by simp
  then show "\<exists>cfg. om_run (fst (client_main env2 opt0 d1)) = Some (priv, cfg)"
    using n o by (auto simp: client_main_def Let_def buildTLSConfig_def client_run_def split: prod.splits)
qed

theorem client_main_reports_witness:
  "\<exists>om d' cfg. client_main demo_client_env demo_client_opts [] = (om, d') \<and> om_exit om = Some 1 \<and> om_run om = None
     \<and> is_fatal (last (om_events om))
     \<and> om_run (fst (client_main demo_client_env demo_client_opts d')) = Some (''secret'', cfg)"
proof -
  obtain om d' where M: "client_main demo_client_env demo_client_opts [] = (om, d')" by fastforce
  have kk: "cn_kit demo_client_env = demo_kit" "cn_id demo_client_env = demo_id_env" by (simp_all add: demo_client_env_def)
  have same: "demo_client_env\<lparr>cn_id := demo_id_env\<lparr>ie_read := None\<rparr>\<rparr> = demo_client_env"
    by (simp add: demo_client_env_def demo_id_env_def)
  have o: "resolveClient demo_client_env demo_client_opts = demo_client_opts\<lparr>co_reportFormat := ''jsonl''\<rparr>"
    by (simp add: resolveClient_def demo_client_env_def demo_client_opts_def fill_def)
  have b: "buildEmitter (cn_quote demo_client_env) ''jsonl'' = Inr JSONL" by (simp add: buildEmitter_def)
  obtain d1 where L: "LoadIdentityStatus demo_kit demo_id_env ''/id.key'' [] = (Inr (''secret'', True), d1)"
    by (simp add: LoadIdentityStatus_def loadOrCreateIdentity_def ReadFile_def demo_id_env_def demo_kit_def WriteFile_def)
  note r = client_main_reports [OF M, unfolded kk o, OF demo_kit_ok]
  have c: "co_identityKey (demo_client_opts\<lparr>co_reportFormat := ''jsonl''\<rparr>) = ''/id.key''" "co_server (demo_client_opts\<lparr>co_reportFormat := ''jsonl''\<rparr>) \<noteq> []"
    "co_unique (demo_client_opts\<lparr>co_reportFormat := ''jsonl''\<rparr>) \<noteq> []" "co_clientCert (demo_client_opts\<lparr>co_reportFormat := ''jsonl''\<rparr>) = []"
    "co_reportFormat (demo_client_opts\<lparr>co_reportFormat := ''jsonl''\<rparr>) = ''jsonl''"
    by (simp_all add: demo_client_opts_def)
  from r [THEN conjunct2, THEN conjunct2, rule_format, of "''secret''" d1 JSONL demo_client_env] L c b same
  have 1: "om_run om = None" "om_exit om = Some 1" "d' = d1" "\<exists>cfg. om_run (fst (client_main demo_client_env demo_client_opts d1)) = Some (''secret'', cfg)"
    by simp_all
  moreover have "om_emitter om \<noteq> None"
    using M L b c unfolding client_main_def o Let_def kk by (simp only: c if_False simp_thms b sum.case L prod.case if_True) auto
  ultimately show ?thesis using M r by blast
qed

end
