(* ===== verification/Fake_Server.thy ===== *)
theory Fake_Server
  imports Client_Server "HOL-Library.Word"
begin

text \<open>
  The fake server of the client's tests (\<open>internal/tunneldfake/fake.go\<close>).  The model is used for one question: does a client see
  from the fake what it sees from the real server?

  The HTTP test server, yamux and the hijacked connection appear by what their calls return (\<open>fake_conn\<close>); \<open>fc_yield\<close> is what the test
  does to the fake at the points where the handler accesses its state.
\<close>

section \<open>Model\<close>

record fake_server =
  fk_apex :: string
  fk_registers :: "32 word"
  fk_killAfter :: int
  fk_denyQueue :: "(string \<times> int) list"

definition fake_Start :: "string \<Rightarrow> fake_server" where
  "fake_Start apex = \<lparr>fk_apex = (if apex = [] then ''tunnel.test'' else apex), fk_registers = 0, fk_killAfter = 0, fk_denyQueue = []\<rparr>"

definition Registrations :: "fake_server \<Rightarrow> int" where
  "Registrations s = sint (fk_registers s)"

definition KillNextSession :: "fake_server \<Rightarrow> fake_server" where
  "KillNextSession s = s\<lparr>fk_killAfter := sint (fk_registers s) + 1\<rparr>"

definition DenyNextRegisterWithRetryAfter :: "fake_server \<Rightarrow> string \<Rightarrow> int \<Rightarrow> fake_server" where
  "DenyNextRegisterWithRetryAfter s reason retryAfterSec = s\<lparr>fk_denyQueue := fk_denyQueue s @ [(reason, retryAfterSec)]\<rparr>"

definition DenyNextRegister :: "fake_server \<Rightarrow> string \<Rightarrow> fake_server" where
  "DenyNextRegister s reason = s\<lparr>fk_denyQueue := fk_denyQueue s @ [(reason, 0)]\<rparr>"

definition nextDeny :: "fake_server \<Rightarrow> (string \<times> int) option \<times> fake_server" where
  "nextDeny s = (case fk_denyQueue s of [] \<Rightarrow> (None, s) | d # q \<Rightarrow> (Some d, s\<lparr>fk_denyQueue := q\<rparr>))"

datatype fake_point = F_deny | F_add | F_kill

record fake_conn =
  fc_hijacker :: bool
  fc_hijack :: "string option"
  fc_write101 :: bool
  fc_flush :: bool
  fc_yamux :: bool
  fc_accept :: bool
  fc_yield :: "fake_point \<Rightarrow> fake_server \<Rightarrow> fake_server"

text \<open>How a connection ends: an HTTP error, dropped without an answer, refused, closed as armed, or served (with or without a Deregister).\<close>

datatype fake_out = FHttp nat string | FDropped | FDenied | FKilled | FServed bool

text \<open>Lines 260-271: everything but a Deregister is ignored.\<close>

function fake_loop :: "stream \<Rightarrow> bool \<times> stream" where
  "fake_loop st =
     (case ReadFrame st of
        (Inl _, st1) \<Rightarrow> (False, st1)
      | (Inr fr, st1) \<Rightarrow>
          if f_Type fr = KindDeregister then (True, snd (WriteMessage st1 KindDeregisterOK MDeregisterOK))
          else fake_loop st1)"
  by pat_completeness auto
termination
  by (relation "measure (\<lambda>st. length (s_in st))") (auto dest!: ReadFrame_consumes [OF sym])

declare fake_loop.simps [simp del]

text \<open>Lines 233-271: the answer to a decoded Register.\<close>

definition fake_register :: "fake_conn \<Rightarrow> Register \<Rightarrow> fake_server \<Rightarrow> stream \<Rightarrow> fake_out \<times> fake_server \<times> stream" where
  "fake_register fc reg s st =
     (case nextDeny (fc_yield fc F_deny s) of
        (Some (reason, retry), s1) \<Rightarrow>
          (FDenied, s1, snd (WriteMessage st KindDeny (MDeny \<lparr>d_Reason = reason, d_RetryAfterSec = retry\<rparr>)))
      | (None, s1) \<Rightarrow>
          (let hostname = TunnelLabel (r_Unique reg) @ ''.'' @ fk_apex s1 in
           case WriteMessage st KindRegisterOK (MRegisterOK \<lparr>rok_Hostname = hostname\<rparr>) of
             (Some _, st1) \<Rightarrow> (FDropped, s1, st1)
           | (None, st1) \<Rightarrow>
               (let s2 = fc_yield fc F_add s1;
                    registered = fk_registers s2 + 1;
                    s3 = fc_yield fc F_kill (s2\<lparr>fk_registers := registered\<rparr>)
                in if fk_killAfter s3 \<noteq> 0 \<and> sint registered = fk_killAfter s3 then (FKilled, s3, st1)
                   else (case fake_loop st1 of (dr, st2) \<Rightarrow> (FServed dr, s3, st2)))))"

definition fake_handleConnect :: "fake_conn \<Rightarrow> http_req \<Rightarrow> fake_server \<Rightarrow> stream \<Rightarrow> fake_out \<times> fake_server \<times> stream" where
  "fake_handleConnect fc r s st =
     (if q_Method r \<noteq> ''POST'' then (FHttp 405 ''method'', s, st)
      else if \<not> EqualFold (q_Upgrade r) UpgradeProtocol then (FHttp 400 ''upgrade'', s, st)
      else if \<not> fc_hijacker fc then (FHttp 500 ''no hijack'', s, st)
      else if fc_hijack fc \<noteq> None then (FHttp 500 (''hijack: '' @ the (fc_hijack fc)), s, st)
      else if \<not> (fc_write101 fc \<and> fc_flush fc \<and> fc_yamux fc \<and> fc_accept fc) then (FDropped, s, st)
      else
        (case ReadFrame st of
           (Inl _, st1) \<Rightarrow> (FDropped, s, st1)
         | (Inr frame, st1) \<Rightarrow>
             if f_Type frame \<noteq> KindRegister then (FDropped, s, st1)
             else
               (case DecodePayload Unmarshal_Register frame of
                  Inl _ \<Rightarrow> (FDropped, s, st1)
                | Inr reg \<Rightarrow> fake_register fc reg s st1)))"

section \<open>Specification\<close>

text \<open>A connection on which every call succeeds, with a test that leaves the fake alone.\<close>

definition fake_open :: fake_conn where
  "fake_open = \<lparr>fc_hijacker = True, fc_hijack = None, fc_write101 = True, fc_flush = True, fc_yamux = True, fc_accept = True, fc_yield = (\<lambda>_ s. s)\<rparr>"

definition fake_reply :: "fake_server \<Rightarrow> string \<Rightarrow> message" where
  "fake_reply s u =
     (case fk_denyQueue s of
        (r, n) # _ \<Rightarrow> MDeny \<lparr>d_Reason = r, d_RetryAfterSec = n\<rparr>
      | [] \<Rightarrow> MRegisterOK \<lparr>rok_Hostname = TunnelLabel u @ ''.'' @ fk_apex s\<rparr>)"

definition fake_armed :: fake_conn where
  "fake_armed = fake_open\<lparr>fc_yield := (\<lambda>p s. if p = F_add then KillNextSession s else s)\<rparr>"

section \<open>Lemmas\<close>

lemma ReadFrame_Nil: "s_in st = [] \<Longrightarrow> \<exists>e. ReadFrame st = (Inl e, st)"
  by (cases st) (auto simp: ReadFrame_def ReadFull_def)

lemma fake_loop_Nil: "s_in st = [] \<Longrightarrow> fake_loop st = (False, st)"
  using ReadFrame_Nil [of st] by (subst fake_loop.simps) auto

lemma frame_bytes_Deny_retry:
  "length r \<le> 400 \<Longrightarrow> int64 n \<Longrightarrow> length (frame_bytes (MDeny \<lparr>d_Reason = r, d_RetryAfterSec = n\<rparr>)) \<le> MaxFrameBytes + 4"
  using length_json_string [of r] length_Itoa [of n]
  by (simp add: frame_bytes_def json_object_def json_member_def KindDeny_def MaxFrameBytes_def
      json_string_def json_esc_ascii json_esc_Nil json_ascii_def)

lemma fake_handleConnect_open:
  assumes "fc_hijacker fc" "fc_hijack fc = None" "fc_write101 fc" "fc_flush fc" "fc_yamux fc" "fc_accept fc"
    "q_Method r = ''POST''" "EqualFold (q_Upgrade r) UpgradeProtocol"
    "msg_wf (MRegister m)" "length (frame_bytes (MRegister m)) \<le> MaxFrameBytes + 4"
  shows "fake_handleConnect fc r s \<lparr>s_in = frame_bytes (MRegister m), s_out = [], s_cap = None\<rparr>
    = fake_register fc m s \<lparr>s_in = [], s_out = [], s_cap = None\<rparr>"
  using assms ReadFrame_frame_bytes [OF assms(10), of "\<lparr>s_in = frame_bytes (MRegister m), s_out = [], s_cap = None\<rparr>" "[]"]
    DecodePayload_msgs(1) [OF assms(9)]
  by (simp add: fake_handleConnect_def del: json_Marshal.simps)

lemma admitSession_reply:
  "admitSession env apex ts res sv st = (Some True, sv', st') \<Longrightarrow>
     s_out st' = s_out st @ frame_bytes (MRegisterOK \<lparr>rok_Hostname = rr_label res @ ''.'' @ apex\<rparr>)"
  using WriteMessage_cases [of st "MRegisterOK \<lparr>rok_Hostname = rr_label res @ ''.'' @ apex\<rparr>"]
  by (auto simp: admitSession_def Let_def simp del: json_Marshal.simps split: sum.splits prod.splits)

section \<open>Properties\<close>

text \<open>
  The fake is a faithful peer.  Let the client register a well-shaped name.  With nothing queued, the fake writes byte for byte the
  reply with which the real server accepts a new name (\<open>client_registers\<close>) under the same apex, counts the registration and then closes the connection exactly if
  this registration was armed.  With refusals queued, it sends the oldest one, removes it, counts nothing, and the client reports its reason and waiting time.
\<close>

theorem fake_conforms:
  fixes env :: "'c reg_env"
  assumes "ValidateUnique quote u = None" "length pub = 32" "\<forall>m. length (sign m) = 64" "int64 ts" "length (fk_apex s) \<le> 300" "is_ascii (fk_apex s)"
    "\<forall>(r, n)\<in>set (fk_denyQueue s). length r \<le> 400 \<and> valid_utf8 r \<and> int64 n"
    "q_Method rq = ''POST''" "EqualFold (q_Upgrade rq) UpgradeProtocol"
  shows "\<exists>c2s out s' res. let s2c = frame_bytes (fake_reply s u) in
      fake_handleConnect fake_open rq s \<lparr>s_in = c2s, s_out = [], s_cap = None\<rparr> = (out, s', \<lparr>s_in = [], s_out = s2c, s_cap = None\<rparr>)
    \<and> registerWithServer tx sign pub ts u \<lparr>s_in = s2c, s_out = [], s_cap = None\<rparr> = (res, \<lparr>s_in = [], s_out = c2s, s_cap = None\<rparr>)
    \<and> (case fk_denyQueue s of
          [] \<Rightarrow> res = Inr (TunnelLabel u @ ''.'' @ fk_apex s) \<and> s' = s\<lparr>fk_registers := fk_registers s + 1\<rparr>
               \<and> out = (if fk_killAfter s \<noteq> 0 \<and> fk_killAfter s = sint (fk_registers s + 1) then FKilled else FServed False)
        | (r, n) # q \<Rightarrow> res = Inl (cerr_of_deny \<lparr>de_Reason = r, de_Op = ''register'', de_RetryAfter = wrap64 (n * Second)\<rparr>)
               \<and> s' = s\<lparr>fk_denyQueue := q\<rparr> \<and> out = FDenied)
    \<and> (fk_denyQueue s = [] \<longrightarrow> (\<forall>sess rr sv sv' st st'. rr_label rr = TunnelLabel u \<and> admitSession env (fk_apex s) sess rr sv st = (Some True, sv', st')
          \<longrightarrow> s_out st' = s_out st @ s2c))"
proof -
  let ?m = "register_msg pub (sign (RegisterSigningPayload pub u ts)) u ts" and ?h = "TunnelLabel u @ ''.'' @ fk_apex s"
  let ?c2s = "frame_bytes (MRegister ?m)" and ?rep = "fake_reply s u" and ?e = "\<lparr>s_in = [], s_out = [], s_cap = None\<rparr>"
  have sl: "length (sign (RegisterSigningPayload pub u ts)) = 64" using assms(3) by blast
  note wf = register_msg_wf [OF assms(1,2) sl assms(4)]
  have u: "length u \<le> 54" "is_ascii u" using ValidateUnique_shape(1) [OF assms(1)] ValidateUnique_ascii [OF assms(1)] by auto
  have hl: "length ?h \<le> 400" "valid_utf8 ?h"
    using u assms(5,6) by (auto simp: TunnelLabel_def is_ascii_def intro!: valid_utf8_ascii)
  have small: "length (frame_bytes ?rep) \<le> MaxFrameBytes + 4"
    using hl(1) assms(7) frame_bytes_RegisterOK_small frame_bytes_Deny_retry
    by (auto simp: fake_reply_def split: list.splits prod.splits)
  have W: "WriteMessage ?e (kind_of ?rep) ?rep = (None, \<lparr>s_in = [], s_out = frame_bytes ?rep, s_cap = None\<rparr>)"
    using WriteMessage_open [OF _ small, of ?e] by simp
  have K: "kind_of ?rep \<noteq> KindChallenge"
    by (auto simp: fake_reply_def KindDeny_def KindChallenge_def KindRegisterOK_def split: list.splits)
  note C = client_told [where u = u and pub = pub and sign = sign and ts = ts and rest = "[]", OF wf(2) small K, of tx, simplified]
  have r: "r_Unique ?m = u" by (simp add: register_msg_def)
  have F: "fake_handleConnect fake_open rq s \<lparr>s_in = ?c2s, s_out = [], s_cap = None\<rparr> = fake_register fake_open ?m s ?e"
    by (rule fake_handleConnect_open) (use assms(8,9) wf in \<open>simp_all add: fake_open_def del: json_Marshal.simps\<close>)
  have A: "fk_denyQueue s = [] \<longrightarrow> (\<forall>sess rr sv sv' st st'. rr_label rr = TunnelLabel u \<and> admitSession env (fk_apex s) sess rr sv st = (Some True, sv', st')
          \<longrightarrow> s_out st' = s_out st @ frame_bytes ?rep)"
    by (auto simp: fake_reply_def dest: admitSession_reply)
  show ?thesis
  proof (cases "fk_denyQueue s")
    case Nil
    have "fake_reply s u = MRegisterOK \<lparr>rok_Hostname = ?h\<rparr>" using Nil by (simp add: fake_reply_def)
    then show ?thesis
      using A C F W Nil finishRegister_OK [OF hl, of tx]
      by (intro exI [of _ ?c2s]) (auto simp: fake_register_def fake_open_def nextDeny_def r fake_loop_Nil Let_def simp del: json_Marshal.simps)
  next
    case (Cons d q)
    obtain x n where d: "d = (x, n)" by (cases d)
    have "fake_reply s u = MDeny \<lparr>d_Reason = x, d_RetryAfterSec = n\<rparr>" using Cons d by (simp add: fake_reply_def)
    moreover have "valid_utf8 x" "int64 n" using assms(7) Cons d by auto
    ultimately show ?thesis
      using A C F W Cons d finishRegister_Deny [of x n tx]
      by (intro exI [of _ ?c2s]) (auto simp: fake_register_def fake_open_def nextDeny_def Let_def simp del: json_Marshal.simps)
  qed
qed

text \<open>
  A race in arming.  The reply is written before the registration is counted.  A test that calls \<open>KillNextSession\<close> as soon as its client
  has connected can therefore close the connection it has just made instead of the next one.
\<close>

theorem kill_hits_current:
  assumes "fc_yield fc = (\<lambda>p s. if p = F_add then KillNextSession s else s)" "fk_denyQueue s = []" "sint (fk_registers s) = n" "0 \<le> n" "n < 2 ^ 31 - 1"
    "length (fk_apex s) \<le> 300" "length (r_Unique reg) \<le> 54" "s_cap st = None"
  shows "\<exists>st'. fake_register fc reg s st = (FKilled, s\<lparr>fk_registers := fk_registers s + 1, fk_killAfter := n + 1\<rparr>, st')
    \<and> s_out st' = s_out st @ frame_bytes (MRegisterOK \<lparr>rok_Hostname = TunnelLabel (r_Unique reg) @ ''.'' @ fk_apex s\<rparr>)"
proof -
  let ?m = "MRegisterOK \<lparr>rok_Hostname = TunnelLabel (r_Unique reg) @ ''.'' @ fk_apex s\<rparr>"
  have small: "length (frame_bytes ?m) \<le> MaxFrameBytes + 4" using assms(6,7) by (intro frame_bytes_RegisterOK_small) (simp add: TunnelLabel_def)
  have W: "WriteMessage st KindRegisterOK ?m = (None, st\<lparr>s_out := s_out st @ frame_bytes ?m\<rparr>)"
    using WriteMessage_open [OF assms(8) small] by simp
  have "sint (fk_registers s + 1) = signed_take_bit 31 (n + 1)" by (simp add: sint_word_ariths assms(3))
  also have "\<dots> = n + 1" using assms(4,5) by (intro signed_take_bit_int_eq_self) auto
  finally have "sint (fk_registers s + 1) = n + 1" .
  then show ?thesis using W assms(1-5) by (auto simp: fake_register_def nextDeny_def KillNextSession_def Let_def)
qed

theorem fake_conforms_witness:
  "\<exists>c2s s'. fake_handleConnect fake_open demo_req (DenyNextRegister (fake_Start ''ex.com'') ''rate_limited:ip'') \<lparr>s_in = c2s, s_out = [], s_cap = None\<rparr>
     = (FDenied, s', \<lparr>s_in = [], s_out = frame_bytes (MDeny \<lparr>d_Reason = ''rate_limited:ip'', d_RetryAfterSec = 0\<rparr>), s_cap = None\<rparr>) \<and> fk_denyQueue s' = []"
proof -
  let ?s = "DenyNextRegister (fake_Start ''ex.com'') ''rate_limited:ip''"
  have s: "fk_apex ?s = ''ex.com''" "fk_denyQueue ?s = [(''rate_limited:ip'', 0)]" by (simp_all add: DenyNextRegister_def fake_Start_def)
  have a: "is_ascii ''ex.com''" "valid_utf8 ''rate_limited:ip''" by (auto simp: is_ascii_def intro!: valid_utf8_ascii)
  have "EqualFold UpgradeProtocol UpgradeProtocol" by code_simp
  then have q: "q_Method demo_req = ''POST''" "EqualFold (q_Upgrade demo_req) UpgradeProtocol" by (simp_all add: demo_req_def)
  have u: "ValidateUnique id ''app'' = None" using demo_facts(2) [of 0] by (simp add: demo_env_reg_def)
  have i: "\<forall>(r, n)\<in>set (fk_denyQueue ?s). length r \<le> 400 \<and> valid_utf8 r \<and> int64 n" using a by (simp add: s)
  from fake_conforms [OF u demo_facts(3), of "\<lambda>_. demo_sig" 1700000000 ?s demo_req demo_text "demo_env_reg 0", OF _ _ _ _ i q] a demo_facts(4)
  obtain c2s s' where "fake_handleConnect fake_open demo_req ?s \<lparr>s_in = c2s, s_out = [], s_cap = None\<rparr>
      = (FDenied, s', \<lparr>s_in = [], s_out = frame_bytes (fake_reply ?s ''app''), s_cap = None\<rparr>)" "s' = ?s\<lparr>fk_denyQueue := []\<rparr>"
    by (auto simp: s Let_def)
  then show ?thesis by (intro exI [of _ c2s] exI [of _ s']) (simp add: fake_reply_def s)
qed

theorem kill_hits_current_witness:
  "\<exists>st'. fake_register fake_armed (register_msg demo_pub demo_sig ''app'' 1700000000) (fake_Start ''ex.com'') \<lparr>s_in = [], s_out = [], s_cap = None\<rparr>
     = (FKilled, (fake_Start ''ex.com'')\<lparr>fk_registers := 1, fk_killAfter := 1\<rparr>, st')"
  using kill_hits_current [of fake_armed "fake_Start ''ex.com''" 0 "register_msg demo_pub demo_sig ''app'' 1700000000" "\<lparr>s_in = [], s_out = [], s_cap = None\<rparr>"]
  by (fastforce simp: fake_armed_def fake_Start_def register_msg_def)

end
