(* ===== verification/Version.thy ===== *)
theory Version
  imports Prelude
begin

text \<open>
  The build identifier that the binaries print (\<open>internal/version/version.go\<close>).  The settings that the toolchain stamps into a binary are a
  list of keys and values; \<open>None\<close> if the binary has none.
\<close>

section \<open>Model\<close>

record vcs_info =
  vi_rev :: string
  vi_modified :: bool
  vi_when :: string

text \<open>One round of the loop over \<open>info.Settings\<close>.\<close>

definition vcs_setting :: "vcs_info \<Rightarrow> string \<times> string \<Rightarrow> vcs_info" where
  "vcs_setting i s =
     (let (key, value) = s in
      if key = ''vcs.revision'' then i\<lparr>vi_rev := value\<rparr>
      else if key = ''vcs.modified'' then i\<lparr>vi_modified := (value = ''true'')\<rparr>
      else if key = ''vcs.time'' \<and> length value \<ge> 10 then i\<lparr>vi_when := take 10 value\<rparr>
      else i)"

definition version_String :: "string \<Rightarrow> (string \<times> string) list option \<Rightarrow> string" where
  "version_String version info =
     (if TrimSpace version \<noteq> [] then TrimSpace version
      else
        (case info of
           None \<Rightarrow> ''unknown''
         | Some settings \<Rightarrow>
             (let i = foldl vcs_setting \<lparr>vi_rev = [], vi_modified = False, vi_when = []\<rparr> settings in
              if vi_rev i = [] then ''unknown''
              else
                (let rv = take 7 (vi_rev i);
                     out = (if vi_when i \<noteq> [] then vi_when i @ '' '' @ rv else rv)
                 in if vi_modified i then out @ ''-dirty'' else out))))"

section \<open>Lemmas\<close>

text \<open>Each field is set by its own key.\<close>

lemma vcs_fields:
  assumes "distinct (map fst ss)"
  shows "foldl vcs_setting i ss =
    i\<lparr>vi_rev := (case map_of ss ''vcs.revision'' of Some v \<Rightarrow> v | None \<Rightarrow> vi_rev i),
      vi_modified := (case map_of ss ''vcs.modified'' of Some v \<Rightarrow> v = ''true'' | None \<Rightarrow> vi_modified i),
      vi_when := (case map_of ss ''vcs.time'' of Some v \<Rightarrow> if length v \<ge> 10 then take 10 v else vi_when i | None \<Rightarrow> vi_when i)\<rparr>"
  using assms
proof (induction ss arbitrary: i)
  case (Cons s ss)
  obtain k v where s: "s = (k, v)" by (cases s)
  have n: "map_of ss k = None" using Cons.prems s by (simp add: map_of_eq_None_iff)
  show ?case using Cons n s by (auto simp: vcs_setting_def split: option.splits)
qed simp

section \<open>Properties\<close>

text \<open>
  The identifier of a build from a checkout is the day of the commit, a space and the first seven characters of its hash, with a
  mark if the checkout had changes, in whatever order the toolchain lists its settings; an injected version has precedence.
\<close>

theorem version_String_stamped:
  assumes "distinct (map fst ss)" "map_of ss ''vcs.revision'' = Some sha" "length sha \<ge> 7" "map_of ss ''vcs.time'' = Some t" "length t \<ge> 10"
    "TrimSpace v = []"
  shows "version_String v (Some ss) = take 10 t @ '' '' @ take 7 sha @ (if map_of ss ''vcs.modified'' = Some ''true'' then ''-dirty'' else [])"
proof -
  have "take 10 t \<noteq> []" "sha \<noteq> []" using assms(3,5) by auto
  then show ?thesis
    using assms vcs_fields [OF assms(1)] by (auto simp: version_String_def Let_def split: option.splits)
qed

theorem version_String_stamped_witness:
  "version_String [] (Some [(''vcs.time'', ''2026-05-03T07:38:34Z''), (''vcs.revision'', ''0123456789abcdef''), (''vcs.modified'', ''true'')])
     = ''2026-05-03 0123456-dirty''"
  using version_String_stamped [of "[(''vcs.time'', ''2026-05-03T07:38:34Z''), (''vcs.revision'', ''0123456789abcdef''), (''vcs.modified'', ''true'')]"
      "''0123456789abcdef''" "''2026-05-03T07:38:34Z''" "[]"]
  by (simp add: TrimSpace_graph)

end
