(* ===== verification/Lifecycle.thy ===== *)
theory Lifecycle
  imports Client_Server
begin

text \<open>
  The life of a tunnel, with both programs running: \<open>Run\<close> and \<open>Connect\<close> of the client against \<open>connectHandler\<close> of the server.  Each side
  reads exactly what the other one writes.
\<close>

section \<open>Specification\<close>

text \<open>A correct client of the key \<open>pub\<close> with a clock that the server accepts.\<close>

definition honest :: "'c reg_env \<Rightarrow> string \<Rightarrow> bytes \<Rightarrow> (bytes \<Rightarrow> bytes) \<Rightarrow> int \<Rightarrow> bool" where
  "honest env u pub sign ts \<longleftrightarrow> ValidateUnique (re_quote env) u = None \<and> length pub = 32 \<and> (\<forall>m. length (sign m) = 64)
     \<and> (\<forall>m. re_verify env pub m (sign m)) \<and> int64 ts \<and> \<not> clockSkewed (re_now env P_now) ts"

text \<open>A limiter that admits \<open>n\<close> more events of a key, and a caller that the gates before the store let through that often.\<close>

definition tokens :: "nat \<Rightarrow> SlidingWindow option \<Rightarrow> string \<Rightarrow> bool" where
  "tokens n l key \<longleftrightarrow> (case l of None \<Rightarrow> True | Some s \<Rightarrow> sw_max s \<le> 0 \<or> int (length (samples_of s key)) + int n \<le> sw_max s)"

definition let_in :: "nat \<Rightarrow> http_req \<Rightarrow> conn_env \<Rightarrow> bytes \<Rightarrow> 'c server \<Rightarrow> bool" where
  "let_in n r ce pub sv \<longleftrightarrow> (peerCertPub r = None \<or> peerCertPub r = Some pub) \<and> (\<forall>a. sv_allow sv = Some a \<longrightarrow> Allow_Contains a pub)
     \<and> tokens n (sv_ip sv) (ip_key (ce_remote ce))"

text \<open>No faults, and no interference before the session ends.\<close>

definition calm :: "'c reg_env \<Rightarrow> bool" where
  "calm env \<longleftrightarrow> (\<forall>p s. p \<noteq> P_remove \<longrightarrow> re_yield env p s = s) \<and> (\<forall>p. re_fault env p = None)"

definition upgraded :: "http_req \<Rightarrow> conn_env \<Rightarrow> bool" where
  "upgraded r ce \<longleftrightarrow> q_Method r = ''POST'' \<and> EqualFold (q_Connection r) ''upgrade'' \<and> EqualFold (q_Upgrade r) UpgradeProtocol
     \<and> ce_hijacker ce \<and> ce_hijack ce \<and> ce_deadline ce \<and> ce_write101 ce \<and> ce_flush ce \<and> ce_yamux ce \<and> ce_accept ce \<and> ce_clear ce \<and> ce_readDeadline ce"

text \<open>A network that works, seen from the client.\<close>

definition dialled :: "connect_opts \<Rightarrow> dial_env \<Rightarrow> bool" where
  "dialled opts de \<longleftrightarrow> (\<exists>url. de_url de = Inr url \<and> su_Scheme url = ''https'' \<and> de_dial de (dial_addr url) (dial_timeout opts) = None
     \<and> de_handshake de (dial_name opts url) = None \<and> de_build de (connect_path url) = None)
     \<and> de_write de = None \<and> de_read de = None \<and> de_status de = 101 \<and> EqualFold (de_upgrade de) UpgradeProtocol \<and> de_yamux de = None \<and> de_open de = None"

text \<open>A control stream, the frames that cross it, the client's session, and the delays of the reconnect loop in milliseconds.\<close>

abbreviation wire :: "bytes \<Rightarrow> bytes \<Rightarrow> stream" where
  "wire inp out \<equiv> \<lparr>s_in = inp, s_out = out, s_cap = None\<rparr>"

abbreviation reg_frame :: "bytes \<Rightarrow> (bytes \<Rightarrow> bytes) \<Rightarrow> string \<Rightarrow> int \<Rightarrow> bytes" where
  "reg_frame pub sign u ts \<equiv> frame_bytes (MRegister (register_msg pub (sign (RegisterSigningPayload pub u ts)) u ts))"

abbreviation dereg_msg :: "(bytes \<Rightarrow> bytes) \<Rightarrow> string \<Rightarrow> int \<Rightarrow> Deregister" where
  "dereg_msg sign u ts \<equiv> \<lparr>dr_Unique = u, dr_Timestamp = ts, dr_Sig = EncodeToString (sign (DeregisterSigningPayload u ts))\<rparr>"

abbreviation taken :: "string \<Rightarrow> string" where
  "taken u \<equiv> ''label '' @ ([CHR 0x22] @ TunnelLabel u @ [CHR 0x22]) @ '' already connected''"

abbreviation ok_frame :: "string \<Rightarrow> string \<Rightarrow> bytes" where
  "ok_frame u apex \<equiv> frame_bytes (MRegisterOK \<lparr>rok_Hostname = TunnelLabel u @ ''.'' @ apex\<rparr>)"

abbreviation taken_frame :: "string \<Rightarrow> bytes" where
  "taken_frame u \<equiv> frame_bytes (MDeny \<lparr>d_Reason = taken u, d_RetryAfterSec = 0\<rparr>)"

abbreviation session_of :: "string \<Rightarrow> string \<Rightarrow> gotime \<Rightarrow> (bytes \<Rightarrow> bytes) \<Rightarrow> stream \<Rightarrow> Session" where
  "session_of u apex now sign st \<equiv> \<lparr>ses_hostname = TunnelLabel u @ ''.'' @ apex, ses_unique = u, ses_registeredAt = now, ses_priv = Some sign, ses_ctrl = Some st\<rparr>"

abbreviation delay_ms :: "run_opts \<Rightarrow> int \<Rightarrow> int" where
  "delay_ms ro attempt \<equiv> to_ms (backoffDuration attempt (or_default (ro_BackoffMin ro) Second) (or_default (ro_BackoffMax ro) (30 * Second)))"

text \<open>A sample run.\<close>

definition demo_quoting :: "nat reg_env" where
  "demo_quoting = (demo_env_reg (1700000000 * Second))\<lparr>re_quote := \<lambda>s. [CHR 0x22] @ s @ [CHR 0x22]\<rparr>"

definition demo_racing :: "nat reg_env" where
  "demo_racing = (demo_env_reg (1700000000 * Second))\<lparr>re_yield := \<lambda>p s. if p = P_remove
     then fst (snd (connectHandler demo_quoting (\<lambda>_. demo_quoting) demo_conn ''ex.com'' 8 demo_req s
       \<lparr>s_in = frame_bytes (MRegister (register_msg demo_pub demo_sig ''app'' 1700000000)), s_out = [], s_cap = None\<rparr>)) else s\<rparr>"

definition demo_dial :: dial_env where
  "demo_dial = \<lparr>de_url = Inr \<lparr>su_Scheme = ''https'', su_Host = ''ex.com'', su_Hostname = ''ex.com'', su_Path = []\<rparr>, de_dial = (\<lambda>_ _. None), de_handshake = (\<lambda>_. None),
     de_build = (\<lambda>_. None), de_write = None, de_read = None, de_status = 101, de_statusText = ''101 Switching Protocols'', de_body = [], de_upgrade = UpgradeProtocol,
     de_yamux = None, de_open = None, de_now = 0\<rparr>"

definition demo_connect :: connect_opts where
  "demo_connect = \<lparr>cp_Unique = ''app'', cp_PrivateKey = Some (\<lambda>_. demo_sig), cp_ServerName = None, cp_DialTimeout = 0\<rparr>"

section \<open>The client's side\<close>

lemma honest_wf:
  assumes "honest env u pub sign ts"
  shows "msg_wf (MRegister (register_msg pub (sign (RegisterSigningPayload pub u ts)) u ts))" "length (reg_frame pub sign u ts) \<le> MaxFrameBytes + 4"
    "msg_wf (MDeregister (dereg_msg sign u ts))" "length (frame_bytes (MDeregister (dereg_msg sign u ts))) \<le> MaxFrameBytes + 4"
    "ValidateUnique q u = None" "length u \<le> 54" "is_ascii u"
proof -
  have h: "ValidateUnique (re_quote env) u = None" "length pub = 32" "length (sign m) = 64" "int64 ts" for m
    using assms by (auto simp: honest_def)
  from register_msg_wf [OF h(1,2) h(3) h(4)]
  show "msg_wf (MRegister (register_msg pub (sign (RegisterSigningPayload pub u ts)) u ts))" "length (reg_frame pub sign u ts) \<le> MaxFrameBytes + 4" .
  show u: "length u \<le> 54" "is_ascii u" using ValidateUnique_shape(1) [OF h(1)] ValidateUnique_ascii [OF h(1)] by auto
  show "ValidateUnique q u = None" using h(1) by (auto simp: ValidateUnique_def split: if_splits)
  show "msg_wf (MDeregister (dereg_msg sign u ts))" using u h(4) by (simp add: valid_utf8_ascii EncodeToString_ascii)
  have l: "length (EncodeToString (sign m)) \<le> 200" for m using length_EncodeToString [of "sign m"] h(3) [of m] by simp
  show "length (frame_bytes (MDeregister (dereg_msg sign u ts))) \<le> MaxFrameBytes + 4"
    using u(1) h(4) l by (intro frame_bytes_Deregister_small) simp_all
qed

lemma Connect_told:
  assumes "honest env u pub sign ts" "dialled opts de" "cp_Unique opts = u" "cp_PrivateKey opts = Some sign"
    "length (frame_bytes m) \<le> MaxFrameBytes + 4" "kind_of m \<noteq> KindChallenge"
  shows "Connect tx opts pub ts de (wire (frame_bytes m @ rest) []) =
    (case finishRegister tx \<lparr>f_Type = kind_of m, f_Payload = json_Marshal m\<rparr> (wire rest (reg_frame pub sign u ts)) of
       (Inl e, st1) \<Rightarrow> (Inl (cerr_wrap ''register: '' e), st1)
     | (Inr h, st1) \<Rightarrow>
         (Inr \<lparr>ses_hostname = h, ses_unique = u, ses_registeredAt = de_now de, ses_priv = Some sign, ses_ctrl = Some st1\<rparr>, st1))"
proof -
  have "registerWithServer tx sign pub ts u (wire (frame_bytes m @ rest) [])
      = finishRegister tx \<lparr>f_Type = kind_of m, f_Payload = json_Marshal m\<rparr> (wire rest (reg_frame pub sign u ts))"
    by (rule client_told [where u = u and pub = pub and sign = sign and ts = ts, OF honest_wf(2) [OF assms(1)] assms(5,6)])
  then show ?thesis
    using assms(2-4) honest_wf(5) [OF assms(1), of "et_quote tx"]
    by (auto simp: Connect_def dialled_def Let_def simp del: json_Marshal.simps split: prod.splits sum.splits)
qed

section \<open>The server's side\<close>

lemma calm_simps:
  assumes "calm env"
  shows "re_yield env P_ip s = s" "re_yield env P_allow s = s" "re_yield env P_get s = s" "re_yield env P_pub s = s" "re_yield env P_ensure s = s"
    "re_yield env P_put s = s" "re_yield env P_touch s = s" "re_yield env P_add s = s" "re_yield env P_delete s = s" "re_fault env p = None"
  using assms by (simp_all add: calm_def)

lemma tokens_Allow:
  assumes "tokens (Suc n) l key"
  shows "\<exists>l'. lim_Allow rnd now l key = (True, l') \<and> tokens n l' key"
proof (cases l)
  case None
  then show ?thesis by (simp add: lim_Allow_def tokens_def)
next
  case (Some s)
  have "fst (AllowAt rnd s key now) \<and> tokens n (Some (snd (AllowAt rnd s key now))) key"
  proof (cases "sw_max s \<le> 0")
    case True
    then show ?thesis by (simp add: AllowAt_def tokens_def)
  next
    case False
    have l: "int (length (drop_aged (now - sw_window s) (samples_of s key))) + int (Suc n) \<le> sw_max s"
      using assms Some False drop_aged_length [of "now - sw_window s" "samples_of s key"] by (simp add: tokens_def)
    have "samples_of (t\<lparr>sw_seen := AList.update key ss (sw_seen t)\<rparr>) key = ss" for t :: SlidingWindow and ss
      by (simp add: samples_of_def update_conv')
    then show ?thesis using l False AllowAt_frame(1) [of rnd s key now]
      by (simp add: AllowAt_def Let_def tokens_def)
  qed
  then show ?thesis using Some by (simp add: lim_Allow_def Let_def split_beta prod_eq_iff)
qed

text \<open>A Register of a correct client reaches the store, and what happens there when its key owns the name and when the name is free.\<close>

lemma register_reaches_store:
  assumes "calm env" "honest env u pub sign ts" "let_in (Suc n) r ce pub sv"
  obtains l m where "handleRegister env (peerCertPub r) (ce_remote ce) sv (wire (reg_frame pub sign u ts @ rest) [])
      = registerLookup env (ip_key (ce_remote ce)) m pub (sv\<lparr>sv_ip := l\<rparr>) (wire rest [])"
    "r_Unique m = u" "let_in n r ce pub (sv\<lparr>sv_ip := l\<rparr>)" "\<not> (case sv_allow sv of None \<Rightarrow> False | Some a \<Rightarrow> \<not> Allow_Contains a pub)" "length pub = 32"
proof -
  let ?m = "register_msg pub (sign (RegisterSigningPayload pub u ts)) u ts"
  have h: "ValidateUnique (re_quote env) u = None" "length pub = 32" "\<And>m. length (sign m) = 64" "\<And>m. re_verify env pub m (sign m)" "int64 ts"
    "\<not> clockSkewed (re_now env P_now) ts" using assms(2) by (auto simp: honest_def)
  have g: "peerCertPub r = None \<or> peerCertPub r = Some pub" "\<forall>a. sv_allow sv = Some a \<longrightarrow> Allow_Contains a pub"
    "tokens (Suc n) (sv_ip sv) (ip_key (ce_remote ce))" using assms(3) by (auto simp: let_in_def)
  obtain l where l: "lim_Allow (re_rnd env P_ip) (re_now env P_ip) (sv_ip sv) (ip_key (ce_remote ce)) = (True, l)" "tokens n l (ip_key (ce_remote ce))"
    using tokens_Allow [OF g(3)] by blast
  have "handleRegister env (peerCertPub r) (ce_remote ce) sv (wire (reg_frame pub sign u ts @ rest) [])
      = registerLookup env (ip_key (ce_remote ce)) ?m pub (sv\<lparr>sv_ip := l\<rparr>) (wire rest [])"
    using handleRegister_honest [OF _ h(1,2,3,5,6,4) g(1), where st = "wire (reg_frame pub sign u ts @ rest) []" and rest = rest and sv = sv] l(1)
    by (simp add: calm_simps [OF assms(1)])
  then show ?thesis
    by (rule that) (use g l(2) h(2) in \<open>auto simp: let_in_def register_msg_def split: option.splits\<close>)
qed

lemma register_owned:
  assumes "calm env" "honest env u pub sign ts" "let_in (Suc n) r ce pub sv" "owner_of (sv_store sv) u = Some pub"
  shows "\<exists>sv' res. handleRegister env (peerCertPub r) (ce_remote ce) sv (wire (reg_frame pub sign u ts @ rest) []) = (Some res, sv', wire rest [])
    \<and> rr_label res = TunnelLabel u \<and> rr_pubkey res = pub \<and> rr_unique res = u \<and> let_in n r ce pub sv'
    \<and> owner_of (sv_store sv') = owner_of (sv_store sv) \<and> sv_reg sv' = sv_reg sv"
  using assms(1-3)
proof (cases rule: register_reaches_store [where rest = rest])
  case (1 l m)
  note y = calm_simps [OF assms(1)]
  obtain row where row: "map_of (sv_store sv) u = Some row" "row_pubkey row = pub" using assms(4) by (auto simp: owner_of_def)
  have G: "Store_Get None (sv_store sv) u = Inr (to_entry u row)" "e_Pubkey (to_entry u row) = pub"
    using row by (simp_all add: Store_Get_def to_entry_def)
  have t: "owner_of (snd (Store_Touch None (sv_store sv) u (re_now env P_now))) = owner_of (sv_store sv)" by (rule ids.touch_owner)
  show ?thesis unfolding 1(1) using G t 1(2-4)
    by (auto simp: registerLookup_def y Let_def split_beta result_of_def let_in_def)
qed

lemma register_fresh:
  assumes "calm env" "honest env u pub sign ts" "let_in (Suc n) r ce pub sv" "owner_of (sv_store sv) u = None"
    "fst (lim_Allow (re_rnd env P_pub) (re_now env P_pub) (sv_pub sv) pub)" "\<not> re_gone env" "fst (re_ensure env (sv_cert sv) (TunnelLabel u)) = None"
  shows "\<exists>sv' res. handleRegister env (peerCertPub r) (ce_remote ce) sv (wire (reg_frame pub sign u ts @ rest) []) = (Some res, sv', wire rest [])
    \<and> rr_label res = TunnelLabel u \<and> rr_pubkey res = pub \<and> rr_unique res = u \<and> let_in n r ce pub sv'
    \<and> owner_of (sv_store sv') = (owner_of (sv_store sv))(u \<mapsto> pub) \<and> sv_reg sv' = sv_reg sv"
  using assms(1-3)
proof (cases rule: register_reaches_store [where rest = rest])
  case (1 l m)
  note y = calm_simps [OF assms(1)]
  obtain l' c where l': "lim_Allow (re_rnd env P_pub) (re_now env P_pub) (sv_pub sv) pub = (True, l')" "re_ensure env (sv_cert sv) (TunnelLabel u) = (None, c)"
    using assms(5,7) by (metis prod.collapse)
  obtain s' where P: "Store_Put None (sv_store sv) u pub (re_now env P_now) = (None, s')"
    using 1(5) assms(4) by (auto simp: Store_Put_def PublicKeySize_def owner_of_def)
  have G: "Store_Get None (sv_store sv) u = Inl ErrNotFound" using assms(4) by (auto simp: Store_Get_def owner_of_def)
  show ?thesis unfolding 1(1) using G P ids.put_ok [OF P] 1(2-4) l' assms(6)
    by (auto simp: registerLookup_def registerNew_def issueName_def claimName_def y Let_def result_of_def let_in_def)
qed

lemma frame_bytes_DeregisterOK_small: "length (frame_bytes MDeregisterOK) \<le> MaxFrameBytes + 4"
  by (simp add: frame_bytes_def json_object_def json_member_def KindDeregisterOK_def MaxFrameBytes_def
      json_string_def json_esc_ascii json_esc_Nil json_ascii_def)

text \<open>The control loop, when the client says nothing more and when it deregisters.\<close>

lemma loop_end: "s_in st = [] \<Longrightarrow> runControlLoop envs n u k sv st = (False, sv, st)"
  by (cases st) (simp add: runControlLoop.simps [of envs] ReadFrame_def ReadFull_def)

lemma loop_deregister:
  assumes "calm (envs n)" "honest (envs n) u pub sign ts"
  shows "\<exists>s. runControlLoop envs n u pub sv (wire (frame_bytes (MDeregister (dereg_msg sign u ts)) @ rest) out)
      = (True, sv\<lparr>sv_store := s\<rparr>, wire rest (out @ frame_bytes MDeregisterOK)) \<and> owner_of s = (owner_of (sv_store sv))(u := None)"
proof -
  let ?d = "dereg_msg sign u ts" and ?st = "wire (frame_bytes (MDeregister (dereg_msg sign u ts)) @ rest) out"
  note y = calm_simps [OF assms(1)] and wf = honest_wf [OF assms(2)]
  have R: "ReadFrame ?st = (Inr \<lparr>f_Type = KindDeregister, f_Payload = json_Marshal (MDeregister ?d)\<rparr>, wire rest out)"
    using ReadFrame_frame_bytes [OF wf(4), of ?st rest] by simp
  have D: "DecodePayload Unmarshal_Deregister \<lparr>f_Type = KindDeregister, f_Payload = json_Marshal (MDeregister ?d)\<rparr> = Inr ?d"
    by (rule DecodePayload_msgs(3) [OF wf(3)])
  obtain s where S: "Store_Delete None (sv_store sv) u = (None, s)" by (auto simp: Store_Delete_def)
  have W: "WriteMessage (wire rest out) KindDeregisterOK MDeregisterOK = (None, wire rest (out @ frame_bytes MDeregisterOK))"
    using WriteMessage_open [OF _ frame_bytes_DeregisterOK_small, of "wire rest out"] by simp
  have v: "re_verify (envs n) pub (DeregisterSigningPayload u ts) (sign (DeregisterSigningPayload u ts))"
    "length (sign (DeregisterSigningPayload u ts)) = 64" "\<not> clockSkewed (re_now (envs n) P_now) ts"
    using assms(2) by (auto simp: honest_def)
  have "handleDeregister (envs n) \<lparr>f_Type = KindDeregister, f_Payload = json_Marshal (MDeregister ?d)\<rparr> u pub sv (wire rest out)
      = (True, sv\<lparr>sv_store := s\<rparr>, wire rest (out @ frame_bytes MDeregisterOK))"
    using D S W v by (simp add: handleDeregister_def SignatureSize_def y del: json_Marshal.simps)
  then have "runControlLoop envs n u pub sv ?st = (True, sv\<lparr>sv_store := s\<rparr>, wire rest (out @ frame_bytes MDeregisterOK))"
    using R by (simp add: runControlLoop.simps [of envs n u pub sv ?st] del: json_Marshal.simps)
  then show ?thesis using ids.del_ok [OF S] by blast
qed

text \<open>A registered client becomes a session, unless its label is taken.\<close>

lemma connect_serves:
  assumes "calm env" "upgraded r ce" "handleRegister env (peerCertPub r) (ce_remote ce) sv (wire inp []) = (Some res, sv1, wire rest [])"
    "rr_label res = TunnelLabel u" "rr_pubkey res = pub" "rr_unique res = u" "reg_get (sv_reg sv1) (TunnelLabel u) = None"
    "length (TunnelLabel u @ ''.'' @ apex) \<le> 400"
  shows "\<exists>rg. reg_add (re_quote env) (sv_reg sv1) (TunnelLabel u) pub ts = Inr rg
    \<and> connectHandler env envs ce apex ts r sv (wire inp []) =
       (case runControlLoop envs 0 u pub (sv1\<lparr>sv_reg := rg\<rparr>) (wire rest (frame_bytes (MRegisterOK \<lparr>rok_Hostname = TunnelLabel u @ ''.'' @ apex\<rparr>))) of
          (d, sv2, st2) \<Rightarrow> (Served d, dropSession env ts res sv2, st2))"
proof -
  let ?m = "MRegisterOK \<lparr>rok_Hostname = TunnelLabel u @ ''.'' @ apex\<rparr>"
  obtain rg where rg: "reg_add (re_quote env) (sv_reg sv1) (TunnelLabel u) pub ts = Inr rg"
    using assms(7) by (auto simp: reg_add_def reg_get_def Let_def)
  have W: "WriteMessage (wire rest []) KindRegisterOK ?m = (None, wire rest (frame_bytes ?m))"
    using WriteMessage_open [OF _ frame_bytes_RegisterOK_small [OF assms(8)], of "wire rest []"] by simp
  have A: "admitSession env apex ts res sv1 (wire rest []) = (Some True, sv1\<lparr>sv_reg := rg\<rparr>, wire rest (frame_bytes ?m))"
    using rg W by (simp add: admitSession_def assms(4,5) calm_simps [OF assms(1)])
  then show ?thesis
    using rg assms(2,3) by (simp add: connectHandler_def upgraded_def serveSession_def assms(5,6) split_beta)
qed

lemma connect_refused:
  assumes "calm env" "upgraded r ce" "handleRegister env (peerCertPub r) (ce_remote ce) sv (wire inp []) = (Some res, sv1, wire rest [])"
    "rr_label res = TunnelLabel u" "reg_get (sv_reg sv1) (TunnelLabel u) = Some old" "length (''label '' @ re_quote env (TunnelLabel u) @ '' already connected'') \<le> 400"
  shows "connectHandler env envs ce apex ts r sv (wire inp []) = (Refused, sv1, wire rest
    (frame_bytes (MDeny \<lparr>d_Reason = ''label '' @ re_quote env (TunnelLabel u) @ '' already connected'', d_RetryAfterSec = 0\<rparr>)))"
proof -
  let ?m = "MDeny \<lparr>d_Reason = ''label '' @ re_quote env (TunnelLabel u) @ '' already connected'', d_RetryAfterSec = 0\<rparr>"
  have W: "WriteMessage (wire rest []) KindDeny ?m = (None, wire rest (frame_bytes ?m))"
    using WriteMessage_open [OF _ frame_bytes_Deny_small [OF assms(6)], of "wire rest []"] by simp
  have "admitSession env apex ts res sv1 (wire rest []) = (None, sv1, wire rest (frame_bytes ?m))"
    using W assms(4,5) by (simp add: admitSession_def reg_add_def reg_get_def calm_simps [OF assms(1)] sendDeny_def)
  then show ?thesis using assms(2,3) by (simp add: connectHandler_def upgraded_def serveSession_def)
qed

section \<open>What the client makes of a refusal\<close>

lemma HasPrefix_sep: "c \<notin> set p \<Longrightarrow> HasPrefix (A @ c # B) p \<longleftrightarrow> HasPrefix A p"
  by (induction A arbitrary: p) (case_tac p; auto simp: HasPrefix_def)+

lemma Contains_sep: "c \<notin> set p \<Longrightarrow> p \<noteq> [] \<Longrightarrow> Contains (A @ c # B) p \<longleftrightarrow> Contains A p \<or> Contains B p"
proof (induction A)
  case Nil
  then show ?case by (cases p) (auto simp: HasPrefix_def)
next
  case (Cons a A)
  then show ?case using HasPrefix_sep [of c p "a # A" B] by auto
qed

lemma Contains_set: "Contains s p \<Longrightarrow> set p \<subseteq> set s"
proof (induction s)
  case (Cons a s)
  then show ?case using set_take_subset [of "length p" "a # s"] by (auto simp: HasPrefix_def)
qed simp

text \<open>The label is still taken: an error that \<open>Run\<close> retries.\<close>

lemma Contains_taken:
  assumes "ValidateUnique q u = None"
    "list_all (\<lambda>p. CHR 0x22 \<notin> set p \<and> CHR '' '' \<in> set p
      \<and> \<not> Contains ''register: server denied register: label '' p \<and> \<not> Contains '' already connected'' p) ps"
  shows "\<not> list_ex (Contains (''register: server denied register: label '' @ CHR 0x22 # TunnelLabel u @ CHR 0x22 # '' already connected'')) ps"
proof -
  have c: "CHR '' '' \<notin> set (TunnelLabel u)" using ValidateUnique_shape(2) [OF assms(1)]
    by (fastforce simp: TunnelLabel_def re_az09_dash_def re_az09_def re_az_def is_digit_def list_all_iff)
  have "\<not> Contains (A @ CHR 0x22 # TunnelLabel u @ CHR 0x22 # B) p"
    if "CHR 0x22 \<notin> set p" "CHR '' '' \<in> set p" "\<not> Contains A p" "\<not> Contains B p" for p A B
    using that c Contains_set [of "TunnelLabel u" p] Contains_sep [OF that(1)] by (cases "p = []") auto
  then show ?thesis using assms(2) unfolding list_all_iff list_ex_iff by blast
qed

lemma taken_retried:
  assumes "ValidateUnique q u = None"
  shows "run_permanent (cerr_wrap ''register: '' (cerr_of_deny \<lparr>de_Reason = taken u, de_Op = ''register'', de_RetryAfter = 0\<rparr>)) = None"
    "length (taken u) \<le> 400" "valid_utf8 (taken u)"
proof -
  let ?e = "cerr_wrap ''register: '' (cerr_of_deny \<lparr>de_Reason = taken u, de_Op = ''register'', de_RetryAfter = 0\<rparr>)"
  have m: "ce_msg ?e = ''register: server denied register: label '' @ CHR 0x22 # TunnelLabel u @ CHR 0x22 # '' already connected''"
    "ce_deny ?e = Some \<lparr>de_Reason = taken u, de_Op = ''register'', de_RetryAfter = 0\<rparr>"
    by (simp_all add: cerr_wrap_def cerr_of_deny_def DenyError_Error_def)
  have t: "\<not> isPermanentTLSError (Some ?e)" unfolding isPermanentTLSError_def option.case m
    by (subst Contains_taken [OF assms], code_simp)+ simp
  show "length (taken u) \<le> 400" using ValidateUnique_shape(1) [OF assms] by (simp add: TunnelLabel_def)
  show "valid_utf8 (taken u)" using ValidateUnique_ascii [OF assms] by (intro valid_utf8_ascii) (simp add: is_ascii_def TunnelLabel_def)
  have d: "\<not> DenyError_IsPermanent \<lparr>de_Reason = taken u, de_Op = ''register'', de_RetryAfter = 0\<rparr>"
    by (simp add: DenyError_IsPermanent_def HasPrefix_def)
  show "run_permanent ?e = None" using t d unfolding run_permanent_def m by simp
qed

section \<open>The three attempts\<close>

lemma dropSession_calm:
  "sv_store (dropSession env ts res sv) = sv_store (re_yield env P_remove sv)" "sv_ip (dropSession env ts res sv) = sv_ip (re_yield env P_remove sv)"
  "sv_allow (dropSession env ts res sv) = sv_allow (re_yield env P_remove sv)"
  "reg_get (sv_reg (re_yield env P_remove sv)) (rr_label res) = Some ts \<Longrightarrow> reg_get (sv_reg (dropSession env ts res sv)) (rr_label res) = None"
  by (simp_all add: dropSession_def Let_def reg_get_def reg_remove_sessions)

lemma let_in_cong: "let_in n r ce pub sv \<Longrightarrow> sv_ip sv' = sv_ip sv \<Longrightarrow> sv_allow sv' = sv_allow sv \<Longrightarrow> let_in n r ce pub sv'"
  by (simp add: let_in_def)

text \<open>The client's view: it is given a session, or told that the label is taken.\<close>

lemma host_small:
  assumes "honest env u pub sign ts" "length apex \<le> 300" "is_ascii apex"
  shows "length (TunnelLabel u @ ''.'' @ apex) \<le> 400" "valid_utf8 (TunnelLabel u @ ''.'' @ apex)"
  using honest_wf(6,7) [OF assms(1)] assms(2,3) by (auto simp: TunnelLabel_def is_ascii_def intro!: valid_utf8_ascii)

lemma client_gets_session:
  assumes "honest env u pub sign ts" "dialled opts de" "cp_Unique opts = u" "cp_PrivateKey opts = Some sign" "length apex \<le> 300" "is_ascii apex"
  shows "Connect tx opts pub ts de (wire (ok_frame u apex @ rest) [])
    = (Inr (session_of u apex (de_now de) sign (wire rest (reg_frame pub sign u ts))), wire rest (reg_frame pub sign u ts))"
proof -
  note h = host_small [OF assms(1,5,6)]
  have k: "kind_of (MRegisterOK \<lparr>rok_Hostname = TunnelLabel u @ ''.'' @ apex\<rparr>) \<noteq> KindChallenge" by (simp add: KindRegisterOK_def KindChallenge_def)
  show ?thesis
    unfolding Connect_told [OF assms(1-4) frame_bytes_RegisterOK_small [OF h(1)] k] finishRegister_OK [OF h] by simp
qed

lemma client_is_told_taken:
  assumes "honest env u pub sign ts" "dialled opts de" "cp_Unique opts = u" "cp_PrivateKey opts = Some sign"
  shows "Connect tx opts pub ts de (wire (taken_frame u) [])
    = (Inl (cerr_wrap ''register: '' (cerr_of_deny \<lparr>de_Reason = taken u, de_Op = ''register'', de_RetryAfter = 0\<rparr>)), wire [] (reg_frame pub sign u ts))"
proof -
  note h = taken_retried(2,3) [OF honest_wf(5) [OF assms(1), of id]]
  have k: "kind_of (MDeny \<lparr>d_Reason = taken u, d_RetryAfterSec = 0\<rparr>) \<noteq> KindChallenge" by (simp add: KindDeny_def KindChallenge_def)
  have i: "int64 0" by simp
  show ?thesis
    using Connect_told [OF assms(1-4) frame_bytes_Deny_small [OF h(1)] k, of tx "[]"] finishRegister_Deny [OF h(2) i, of tx]
    by (simp add: wrap64_def del: json_Marshal.simps)
qed

lemma client_deregisters:
  assumes "honest env u pub sign ts"
  shows "Session_Deregister tx ts c (session_of u apex now sign (wire (frame_bytes MDeregisterOK) out))
    = (None, session_of u apex now sign (wire [] (out @ frame_bytes (MDeregister (dereg_msg sign u ts)))))"
proof -
  let ?in = "frame_bytes MDeregisterOK" and ?d = "MDeregister (dereg_msg sign u ts)"
  have W: "WriteMessage (wire ?in out) KindDeregister ?d = (None, wire ?in (out @ frame_bytes ?d))"
    using WriteMessage_open [OF _ honest_wf(4) [OF assms], of "wire ?in out"] by simp
  have R: "ReadFrame (wire ?in (out @ frame_bytes ?d)) = (Inr \<lparr>f_Type = KindDeregisterOK, f_Payload = json_Marshal MDeregisterOK\<rparr>, wire [] (out @ frame_bytes ?d))"
    using ReadFrame_frame_bytes [OF frame_bytes_DeregisterOK_small, of "wire ?in (out @ frame_bytes ?d)" "[]"] by simp
  show ?thesis using W R by (simp add: Session_Deregister_def del: json_Marshal.simps)
qed

text \<open>The server's view: a fresh name is served until the client falls silent, a taken label is refused, an owned name is served and given up.\<close>

lemma reg_get_add: "reg_add q rg l pub ts = Inr rg' \<Longrightarrow> reg_get rg' l = Some ts"
  using reg_add_sessions by (simp add: reg_get_def)

lemma server_serves_fresh:
  assumes "calm env" "honest env u pub sign ts" "let_in (Suc n) r ce pub sv" "owner_of (sv_store sv) u = None" "upgraded r ce"
    "fst (lim_Allow (re_rnd env P_pub) (re_now env P_pub) (sv_pub sv) pub)" "\<not> re_gone env" "fst (re_ensure env (sv_cert sv) (TunnelLabel u)) = None"
    "reg_get (sv_reg sv) (TunnelLabel u) = None" "length apex \<le> 300" "is_ascii apex"
  obtains mid res where "connectHandler env envs ce apex s1 r sv (wire (reg_frame pub sign u ts) []) = (Served False, dropSession env s1 res mid, wire [] (ok_frame u apex))"
    "rr_label res = TunnelLabel u" "rr_pubkey res = pub" "let_in n r ce pub mid" "owner_of (sv_store mid) u = Some pub" "reg_get (sv_reg mid) (TunnelLabel u) = Some s1"
proof -
  obtain sv' res where H: "handleRegister env (peerCertPub r) (ce_remote ce) sv (wire (reg_frame pub sign u ts) []) = (Some res, sv', wire [] [])"
    and res: "rr_label res = TunnelLabel u" "rr_pubkey res = pub" "rr_unique res = u" and l: "let_in n r ce pub sv'"
    and ow: "owner_of (sv_store sv') = (owner_of (sv_store sv))(u \<mapsto> pub)" and rg: "sv_reg sv' = sv_reg sv"
    using register_fresh [OF assms(1-4,6-8), of "[]"] by auto
  obtain g where g: "reg_add (re_quote env) (sv_reg sv') (TunnelLabel u) pub s1 = Inr g"
    and C: "connectHandler env envs ce apex s1 r sv (wire (reg_frame pub sign u ts) []) = (case runControlLoop envs 0 u pub (sv'\<lparr>sv_reg := g\<rparr>) (wire [] (ok_frame u apex)) of
          (d, sv2, st2) \<Rightarrow> (Served d, dropSession env s1 res sv2, st2))"
    using connect_serves [OF assms(1,5) H res _ host_small(1) [OF assms(2,10,11)], of s1 envs] assms(9) rg by auto
  have "connectHandler env envs ce apex s1 r sv (wire (reg_frame pub sign u ts) []) = (Served False, dropSession env s1 res (sv'\<lparr>sv_reg := g\<rparr>), wire [] (ok_frame u apex))"
    using C by (simp add: loop_end)
  then show ?thesis using res l ow reg_get_add [OF g] by (intro that [of res "sv'\<lparr>sv_reg := g\<rparr>"]) (auto intro: let_in_cong)
qed

lemma server_refuses_taken:
  assumes "calm env" "honest env u pub sign ts" "let_in (Suc n) r ce pub sv" "owner_of (sv_store sv) u = Some pub" "upgraded r ce"
    "reg_get (sv_reg sv) (TunnelLabel u) = Some old" "re_quote env (TunnelLabel u) = [CHR 0x22] @ TunnelLabel u @ [CHR 0x22]"
  obtains sv' where "connectHandler env envs ce apex s2 r sv (wire (reg_frame pub sign u ts) []) = (Refused, sv', wire [] (taken_frame u))"
    "let_in n r ce pub sv'" "owner_of (sv_store sv') u = Some pub" "reg_get (sv_reg sv') (TunnelLabel u) = Some old"
proof -
  obtain sv' res where H: "handleRegister env (peerCertPub r) (ce_remote ce) sv (wire (reg_frame pub sign u ts) []) = (Some res, sv', wire [] [])"
    and res: "rr_label res = TunnelLabel u" and l: "let_in n r ce pub sv'"
    and ow: "owner_of (sv_store sv') = owner_of (sv_store sv)" and rg: "sv_reg sv' = sv_reg sv"
    using register_owned [OF assms(1-4), of "[]"] by auto
  have g: "reg_get (sv_reg sv') (TunnelLabel u) = Some old" using assms(6) rg by simp
  have len: "length (''label '' @ re_quote env (TunnelLabel u) @ '' already connected'') \<le> 400"
    using taken_retried(2) [OF honest_wf(5) [OF assms(2), of id]] unfolding assms(7) .
  show ?thesis
    by (rule that [OF connect_refused [OF assms(1,5) H res g len, unfolded assms(7)] l _ g]) (simp add: ow assms(4))
qed

lemma server_serves_leaving:
  assumes "calm env" "calm (envs 0)" "re_yield env P_remove = id" "honest env u pub sign ts" "honest (envs 0) u pub sign t2" "let_in (Suc n) r ce pub sv"
    "owner_of (sv_store sv) u = Some pub" "upgraded r ce" "reg_get (sv_reg sv) (TunnelLabel u) = None" "length apex \<le> 300" "is_ascii apex"
  obtains sv' where "connectHandler env envs ce apex s3 r sv (wire (reg_frame pub sign u ts @ frame_bytes (MDeregister (dereg_msg sign u t2))) [])
      = (Served True, sv', wire [] (ok_frame u apex @ frame_bytes MDeregisterOK))"
    "owner_of (sv_store sv') u = None" "reg_get (sv_reg sv') (TunnelLabel u) = None"
proof -
  let ?d = "frame_bytes (MDeregister (dereg_msg sign u t2))"
  obtain sv1 res where H: "handleRegister env (peerCertPub r) (ce_remote ce) sv (wire (reg_frame pub sign u ts @ ?d) []) = (Some res, sv1, wire ?d [])"
    and res: "rr_label res = TunnelLabel u" "rr_pubkey res = pub" "rr_unique res = u" and rg: "sv_reg sv1 = sv_reg sv"
    using register_owned [OF assms(1,4,6,7), of ?d] by auto
  obtain g where g: "reg_add (re_quote env) (sv_reg sv1) (TunnelLabel u) pub s3 = Inr g"
    and C: "connectHandler env envs ce apex s3 r sv (wire (reg_frame pub sign u ts @ ?d) []) = (case runControlLoop envs 0 u pub (sv1\<lparr>sv_reg := g\<rparr>) (wire ?d (ok_frame u apex)) of
          (d, sv2, st2) \<Rightarrow> (Served d, dropSession env s3 res sv2, st2))"
    using connect_serves [OF assms(1,8) H res _ host_small(1) [OF assms(4,10,11)], of s3 envs] assms(9) rg by auto
  obtain st where L: "runControlLoop envs 0 u pub (sv1\<lparr>sv_reg := g\<rparr>) (wire ?d (ok_frame u apex)) = (True, sv1\<lparr>sv_reg := g, sv_store := st\<rparr>, wire [] (ok_frame u apex @ frame_bytes MDeregisterOK))"
    and ow: "owner_of st = (owner_of (sv_store sv1))(u := None)"
    using loop_deregister [where n = 0 and envs = envs, OF assms(2,5), of "sv1\<lparr>sv_reg := g\<rparr>" "[]" "ok_frame u apex"] by auto
  show ?thesis using C L ow reg_get_add [OF g] dropSession_calm(4) [of env "sv1\<lparr>sv_reg := g, sv_store := st\<rparr>" res s3] res assms(3)
    by (intro that [of "dropSession env s3 res (sv1\<lparr>sv_reg := g, sv_store := st\<rparr>)"]) (simp_all add: dropSession_calm)
qed

section \<open>Properties\<close>

lemma Run_lifecycle:
  assumes "run_permanent err = None" "retry_delay ro 2 err = backoffDuration 2 (or_default (ro_BackoffMin ro) Second) (or_default (ro_BackoffMax ro) (30 * Second))"
    "ro_Unique ro = u" "ro_MaxAttempts ro \<le> 0 \<or> 2 < ro_MaxAttempts ro"
  shows "Run ro [\<lparr>rd_connect = Inr h1, rd_cancelled = False, rd_end = ServeDone (Serve ServeClosed), rd_slept = True\<rparr>,
              \<lparr>rd_connect = Inl err, rd_cancelled = False, rd_end = ServeDone None, rd_slept = True\<rparr>,
              \<lparr>rd_connect = Inr h3, rd_cancelled = False, rd_end = CtxDone None, rd_slept = False\<rparr>]
      = ([EvStarting u (ro_ServerURL ro), EvConnecting (ro_ServerURL ro) 1, EvRegisterOK h1 u, EvDisconnected ''session closed'', EvReconnecting (delay_ms ro 1) 2,
          EvConnecting (ro_ServerURL ro) 2, EvError (ce_msg err) True, EvReconnecting (delay_ms ro 2) 3,
          EvConnecting (ro_ServerURL ro) 3, EvRegisterOK h3 u, EvDeregisterOK u], ReturnedNil)"
  using assms by (auto simp: Run_def run_round_def)

text \<open>
  C16: a tunnel survives the loss of its connection, and leaves no trace once its client leaves.  Let a correct client of a key register a name that nobody
  owns with a server that lets it in and has no faults.  (1) The server claims the name and serves the session until the control stream ends; the client is
  given the session of \<open>{unique}-tunnel.{apex}\<close>.  (2) The client's next attempt comes while the server still holds the old session, just before it
  drops it: the attempt is refused because the label is connected, and the refusal is one that the client retries.  The old session is dropped all the same.
  (3) The third attempt is served without a new claim, and when the client's context ends its Deregister is answered: the name is owned by nobody, the label is
  free and the client's \<open>Deregister\<close> returns no error.  Each side reads exactly what the other one wrote.  Through all this \<open>Run\<close> emits exactly the
  eleven expected events, waiting twice by its backoff schedule, with the attempts 1, 2 and 3, and returns nil.
\<close>

theorem client_lifecycle:
  assumes calm: "calm env1" "calm env2" "calm env3" "calm (envs3 0)"
    and honest: "honest env1 u pub sign t1" "honest env2 u pub sign t2" "honest env3 u pub sign t3" "honest (envs3 0) u pub sign t4"
    and race: "re_yield env1 P_remove = (\<lambda>s. fst (snd (connectHandler env2 envs2 ce apex s2 r s (wire (reg_frame pub sign u t2) []))))"
    and last: "re_yield env3 P_remove = id"
    and quoted: "re_quote env2 (TunnelLabel u) = [CHR 0x22] @ TunnelLabel u @ [CHR 0x22]"
    and server: "upgraded r ce" "let_in 3 r ce pub sv" "owner_of (sv_store sv) u = None" "reg_get (sv_reg sv) (TunnelLabel u) = None"
      "fst (lim_Allow (re_rnd env1 P_pub) (re_now env1 P_pub) (sv_pub sv) pub)" "\<not> re_gone env1" "fst (re_ensure env1 (sv_cert sv) (TunnelLabel u)) = None"
      "length apex \<le> 300" "is_ascii apex"
    and client: "dialled opts d1" "dialled opts d2" "dialled opts d3" "cp_Unique opts = u" "cp_PrivateKey opts = Some sign"
      "ro_Unique ro = u" "ro_MaxAttempts ro \<le> 0 \<or> 2 < ro_MaxAttempts ro"
  shows "\<exists>out1 out2 out3 mid sv1 sv2 ses1 err ses3 ses4.
      connectHandler env1 envs1 ce apex s1 r sv (wire (reg_frame pub sign u t1) []) = (Served False, sv1, wire [] out1)
    \<and> Connect tx opts pub t1 d1 (wire out1 []) = (Inr ses1, wire [] (reg_frame pub sign u t1))
    \<and> connectHandler env2 envs2 ce apex s2 r mid (wire (reg_frame pub sign u t2) []) = (Refused, re_yield env1 P_remove mid, wire [] out2)
    \<and> owner_of (sv_store mid) u = Some pub \<and> reg_get (sv_reg (re_yield env1 P_remove mid)) (TunnelLabel u) = Some s1
    \<and> sv1 = (re_yield env1 P_remove mid)\<lparr>sv_reg := reg_remove (sv_reg (re_yield env1 P_remove mid)) (TunnelLabel u) pub s1\<rparr>
    \<and> Connect tx opts pub t2 d2 (wire out2 []) = (Inl err, wire [] (reg_frame pub sign u t2)) \<and> run_permanent err = None
    \<and> owner_of (sv_store sv1) u = Some pub \<and> reg_get (sv_reg sv1) (TunnelLabel u) = None
    \<and> connectHandler env3 envs3 ce apex s3 r sv1 (wire (reg_frame pub sign u t3 @ frame_bytes (MDeregister (dereg_msg sign u t4))) []) = (Served True, sv2, wire [] out3)
    \<and> Connect tx opts pub t3 d3 (wire out3 []) = (Inr ses3, the (ses_ctrl ses3))
    \<and> Session_Deregister tx t4 c ses3 = (None, ses4)
    \<and> ses_ctrl ses4 = Some (wire [] (reg_frame pub sign u t3 @ frame_bytes (MDeregister (dereg_msg sign u t4))))
    \<and> owner_of (sv_store sv2) u = None \<and> reg_get (sv_reg sv2) (TunnelLabel u) = None
    \<and> ses_hostname ses1 = TunnelLabel u @ ''.'' @ apex \<and> ses_hostname ses3 = ses_hostname ses1
    \<and> Run ro [\<lparr>rd_connect = Inr (ses_hostname ses1), rd_cancelled = False, rd_end = ServeDone (Serve ServeClosed), rd_slept = True\<rparr>,
              \<lparr>rd_connect = Inl err, rd_cancelled = False, rd_end = ServeDone None, rd_slept = True\<rparr>,
              \<lparr>rd_connect = Inr (ses_hostname ses3), rd_cancelled = False, rd_end = CtxDone (fst (Session_Deregister tx t4 c ses3)), rd_slept = False\<rparr>]
      = ([EvStarting u (ro_ServerURL ro), EvConnecting (ro_ServerURL ro) 1, EvRegisterOK (ses_hostname ses1) u, EvDisconnected ''session closed'', EvReconnecting (delay_ms ro 1) 2,
          EvConnecting (ro_ServerURL ro) 2, EvError (ce_msg err) True, EvReconnecting (delay_ms ro 2) 3,
          EvConnecting (ro_ServerURL ro) 3, EvRegisterOK (ses_hostname ses3) u, EvDeregisterOK u], ReturnedNil)"
proof -
  let ?ok = "ok_frame u apex" and ?R = "reg_frame pub sign u" and ?D = "frame_bytes (MDeregister (dereg_msg sign u t4))"
  let ?err = "cerr_wrap ''register: '' (cerr_of_deny \<lparr>de_Reason = taken u, de_Op = ''register'', de_RetryAfter = 0\<rparr>)"
  have n: "let_in (Suc 2) r ce pub sv" using server(2) by (simp add: numeral_eq_Suc)
  obtain mid res where A: "connectHandler env1 envs1 ce apex s1 r sv (wire (?R t1) []) = (Served False, dropSession env1 s1 res mid, wire [] ?ok)"
    and res: "rr_label res = TunnelLabel u" "rr_pubkey res = pub" and l: "let_in 2 r ce pub mid"
    and ow: "owner_of (sv_store mid) u = Some pub" and g: "reg_get (sv_reg mid) (TunnelLabel u) = Some s1"
    by (rule server_serves_fresh [OF calm(1) honest(1) n server(3,1,5,6,7,4,8,9), of envs1 s1])
  have l1: "let_in (Suc 1) r ce pub mid" using l by (simp add: numeral_eq_Suc)
  obtain sv' where B: "connectHandler env2 envs2 ce apex s2 r mid (wire (?R t2) []) = (Refused, sv', wire [] (taken_frame u))"
    and l': "let_in 1 r ce pub sv'" and ow': "owner_of (sv_store sv') u = Some pub" and g': "reg_get (sv_reg sv') (TunnelLabel u) = Some s1"
    by (rule server_refuses_taken [OF calm(2) honest(2) l1 ow server(1) g quoted, of envs2 apex s2])
  have y: "re_yield env1 P_remove mid = sv'" by (simp add: race B)
  let ?sv1 = "dropSession env1 s1 res mid"
  have s1: "let_in (Suc 0) r ce pub ?sv1" "owner_of (sv_store ?sv1) u = Some pub" "reg_get (sv_reg ?sv1) (TunnelLabel u) = None"
    using l' ow' dropSession_calm(4) [of env1 mid res s1] res g' by (auto simp: dropSession_calm y intro: let_in_cong [of _ _ _ _ sv'])
  obtain sv2 where C: "connectHandler env3 envs3 ce apex s3 r ?sv1 (wire (?R t3 @ ?D) []) = (Served True, sv2, wire [] (?ok @ frame_bytes MDeregisterOK))"
    and s2: "owner_of (sv_store sv2) u = None" "reg_get (sv_reg sv2) (TunnelLabel u) = None"
    by (rule server_serves_leaving [where n = 0 and envs = envs3, OF calm(3,4) last honest(3,4) s1(1,2) server(1) s1(3) server(8,9), of s3])
  note c1 = client_gets_session [OF honest(1) client(1,4,5) server(8,9), of tx "[]", unfolded append_Nil2]
  note c2 = client_is_told_taken [OF honest(2) client(2,4,5), of tx]
  note c3 = client_gets_session [OF honest(3) client(3,4,5) server(8,9), of tx "frame_bytes MDeregisterOK"]
  note c4 = client_deregisters [OF honest(4), of tx c apex "de_now d3" "?R t3"]
  have w: "retry_delay ro 2 ?err = backoffDuration 2 (or_default (ro_BackoffMin ro) Second) (or_default (ro_BackoffMax ro) (30 * Second))"
    by (simp add: retry_delay_def Let_def cerr_wrap_def cerr_of_deny_def IsRateLimit_def HasPrefix_def)
  have p: "run_permanent ?err = None" by (rule taken_retried(1) [OF honest_wf(5) [OF honest(1), of id]])
  let ?ses = "\<lambda>d st. session_of u apex (de_now d) sign st"
  have f: "ses_hostname (?ses d st) = TunnelLabel u @ ''.'' @ apex" "the (ses_ctrl (?ses d st)) = st" "ses_ctrl (?ses d st) = Some st" for d st by simp_all
  have D: "?sv1 = sv'\<lparr>sv_reg := reg_remove (sv_reg sv') (TunnelLabel u) pub s1\<rparr>" by (simp add: dropSession_def y res)
  show ?thesis
    by (rule exI [of _ ?ok], rule exI [of _ "taken_frame u"], rule exI [of _ "?ok @ frame_bytes MDeregisterOK"], rule exI [of _ mid], rule exI [of _ ?sv1],
        rule exI [of _ sv2], rule exI [of _ "?ses d1 (wire [] (?R t1))"], rule exI [of _ ?err],
        rule exI [of _ "?ses d3 (wire (frame_bytes MDeregisterOK) (?R t3))"], rule exI [of _ "?ses d3 (wire [] (?R t3 @ ?D))"], unfold y f c4 prod.sel option.sel)
      (intro conjI A B C D c1 c2 c3 c4 p ow g' s1 s2 refl Run_lifecycle [OF p w client(6,7)])
qed

theorem client_lifecycle_witness:
  "\<exists>sv1 sv2 out1 out3 ses1. connectHandler demo_racing (\<lambda>_. demo_racing) demo_conn ''ex.com'' 7 demo_req demo_server
        (wire (reg_frame demo_pub (\<lambda>_. demo_sig) ''app'' 1700000000) []) = (Served False, sv1, wire [] out1)
    \<and> Connect demo_text demo_connect demo_pub 1700000000 demo_dial (wire out1 []) = (Inr ses1, wire [] (reg_frame demo_pub (\<lambda>_. demo_sig) ''app'' 1700000000))
    \<and> ses_hostname ses1 = ''app-tunnel.ex.com'' \<and> owner_of (sv_store sv1) ''app'' = Some demo_pub
    \<and> connectHandler (demo_env_reg (1700000000 * Second)) (\<lambda>_. demo_env_reg (1700000000 * Second)) demo_conn ''ex.com'' 9 demo_req sv1
        (wire (reg_frame demo_pub (\<lambda>_. demo_sig) ''app'' 1700000000 @ frame_bytes (MDeregister (dereg_msg (\<lambda>_. demo_sig) ''app'' 1700000000))) [])
        = (Served True, sv2, wire [] out3)
    \<and> owner_of (sv_store sv2) ''app'' = None \<and> reg_get (sv_reg sv2) (TunnelLabel ''app'') = None"
proof -
  let ?e = "demo_env_reg (1700000000 * Second)" and ?q = demo_quoting and ?ro = "demo_opts\<lparr>ro_MaxAttempts := 0\<rparr>"
  have calm: "calm demo_racing" "calm ?q" "calm ?e"
    by (simp_all add: calm_def demo_racing_def demo_quoting_def demo_env_reg_def)
  have V: "ValidateUnique q ''app'' = None" for q using demo_facts(2) [of 0] by (auto simp: ValidateUnique_def split: if_splits)
  have h: "honest env ''app'' demo_pub (\<lambda>_. demo_sig) 1700000000" if "re_verify env = re_verify ?e" "re_now env = re_now ?e" for env :: "nat reg_env"
    using demo_facts(3-6) that V by (simp add: honest_def)
  have h3: "honest demo_racing ''app'' demo_pub (\<lambda>_. demo_sig) 1700000000" "honest ?q ''app'' demo_pub (\<lambda>_. demo_sig) 1700000000"
    "honest ?e ''app'' demo_pub (\<lambda>_. demo_sig) 1700000000"
    by (rule h; simp add: demo_racing_def demo_quoting_def)+
  have r: "re_yield demo_racing P_remove = (\<lambda>s. fst (snd (connectHandler ?q (\<lambda>_. ?q) demo_conn ''ex.com'' 8 demo_req s (wire (reg_frame demo_pub (\<lambda>_. demo_sig) ''app'' 1700000000) []))))"
    "re_yield ?e P_remove = id" "re_quote ?q (TunnelLabel ''app'') = [CHR 0x22] @ TunnelLabel ''app'' @ [CHR 0x22]"
    by (simp_all add: demo_racing_def demo_quoting_def demo_env_reg_def fun_eq_iff)
  have E: "EqualFold ''Upgrade'' ''upgrade''" "EqualFold UpgradeProtocol UpgradeProtocol" by code_simp+
  have u: "upgraded demo_req demo_conn" "let_in 3 demo_req demo_conn demo_pub demo_server" "\<not> re_gone demo_racing"
    "owner_of (sv_store demo_server) ''app'' = None" "reg_get (sv_reg demo_server) (TunnelLabel ''app'') = None"
    "fst (re_ensure demo_racing (sv_cert demo_server) (TunnelLabel ''app'')) = None" "is_ascii ''ex.com''"
    by (simp_all add: E upgraded_def demo_req_def demo_conn_def let_in_def peerCertPub_def tokens_def demo_server_def samples_of_def SlidingWindow_New_def
        demo_racing_def demo_env_reg_def owner_of_def reg_get_def newRegistry_def is_ascii_def)
  have d: "dialled demo_connect demo_dial" "cp_Unique demo_connect = ''app''" "cp_PrivateKey demo_connect = Some (\<lambda>_. demo_sig)"
    "ro_Unique ?ro = ''app''" "ro_MaxAttempts ?ro \<le> 0 \<or> 2 < ro_MaxAttempts ?ro" "length ''ex.com'' \<le> 300"
    by (simp_all add: E dialled_def demo_dial_def demo_connect_def demo_opts_def)
  show ?thesis
    using client_lifecycle [where ?envs1.0 = "\<lambda>_. demo_racing" and ?s1.0 = 7 and ?s3.0 = 9 and c = None and tx = demo_text and ?envs3.0 = "\<lambda>_. ?e" and ro = ?ro,
        OF calm(1,2,3,3) h3(1,2,3,3) r u(1,2,4,5) demo_facts(10) u(3,6) d(6) u(7) d(1,1,1-5)]
    unfolding TunnelLabel_def [of "''app''"] append.simps by (elim exE conjE) (intro exI conjI; (assumption | simp))
qed

end
