(* ===== verification/Front.thy ===== *)
theory Front
  imports Client_Server Go_OS
begin

text \<open>
  The two public listeners of the server: the request multiplexers that \<open>main\<close> builds (\<open>cmd/swe-swe-tunneld/main.go\<close>), the hello page behind the router
  and the registration listener.  \<open>http.ServeMux\<close> is modelled for patterns without host, method and named wildcards, which are the ones the program
  has: path cleaning, the redirects, and the matching of decoded path segments with a trailing slash as a wildcard.  A response is its
  status and its body; a redirect is the path it leads to.
\<close>

section \<open>http.ServeMux\<close>

text \<open>\<open>url.PathUnescape\<close>, and the fallback of the multiplexer to the original.\<close>

fun PathUnescape :: "string \<Rightarrow> string option" where
  "PathUnescape [] = Some []"
| "PathUnescape (c # s) =
     (if c = CHR 0x25 then
        (case s of
           a # b # t \<Rightarrow>
             (case (hex_val a, hex_val b) of
                (Some x, Some y) \<Rightarrow> map_option (\<lambda>r. char_of (16 * x + y) # r) (PathUnescape t)
              | _ \<Rightarrow> None)
         | _ \<Rightarrow> None)
      else map_option (\<lambda>r. c # r) (PathUnescape s))"

definition pathUnescape :: "string \<Rightarrow> string" where
  "pathUnescape s = (case PathUnescape s of None \<Rightarrow> s | Some u \<Rightarrow> u)"

definition cleanPath :: "string \<Rightarrow> string" where
  "cleanPath p0 =
     (if p0 = [] then ''/''
      else (let p = (if HasPrefix p0 ''/'' then p0 else ''/'' @ p0); np = Clean p
            in if last p = CHR ''/'' \<and> np \<noteq> ''/'' then np @ ''/'' else np))"

text \<open>The segments of a path as \<open>firstSegment\<close> takes them off: a lone slash at the end is the segment \<open>/\<close>.\<close>

function path_segs :: "string \<Rightarrow> string list" where
  "path_segs p =
     (if p = [] then []
      else if p = ''/'' then [''/'']
      else pathUnescape (takeWhile (\<lambda>c. c \<noteq> CHR ''/'') (tl p)) # path_segs (dropWhile (\<lambda>c. c \<noteq> CHR ''/'') (tl p)))"
  by auto
termination
  by (relation "measure length") (auto simp: le_less_trans [OF length_dropWhile_le] less_le_trans)

declare path_segs.simps [simp del]

text \<open>A pattern: its literal segments and whether it ends in a slash.\<close>

definition parse_pattern :: "string \<Rightarrow> string list \<times> bool" where
  "parse_pattern s = (let segs = Split (tl s) (CHR ''/'') in if last segs = [] then (butlast segs, True) else (segs, False))"

text \<open>The routing tree as the patterns that are left at a node, with the pattern each one began as.\<close>

type_synonym node = "(string list \<times> bool \<times> string) list"

definition mux_tree :: "string list \<Rightarrow> node" where
  "mux_tree pats = map (\<lambda>s. (fst (parse_pattern s), snd (parse_pattern s), s)) pats"

definition findChild :: "string \<Rightarrow> node \<Rightarrow> node" where
  "findChild seg n = map (\<lambda>(s, m, p). (tl s, m, p)) (filter (\<lambda>(s, m, p). s \<noteq> [] \<and> hd s = seg) n)"

definition node_pattern :: "bool \<Rightarrow> node \<Rightarrow> string option" where
  "node_pattern multi n = map_option (\<lambda>(s, m, p). p) (List.find (\<lambda>(s, m, p). s = [] \<and> m = multi) n)"

fun matchPath :: "node \<Rightarrow> string list \<Rightarrow> string option" where
  "matchPath n [] = node_pattern False n"
| "matchPath n (seg # rest) =
     (case matchPath (findChild seg n) rest of Some p \<Rightarrow> Some p | None \<Rightarrow> node_pattern True n)"

definition exactMatch :: "string option \<Rightarrow> string \<Rightarrow> bool" where
  "exactMatch n path =
     (case n of
        None \<Rightarrow> False
      | Some pat \<Rightarrow>
          (let (segs, multi) = parse_pattern pat
           in if \<not> multi then True
              else if path \<noteq> [] \<and> last path \<noteq> CHR ''/'' then False
              else length segs + 1 = length (filter (\<lambda>c. c = CHR ''/'') path)))"

section \<open>Requests\<close>

text \<open>
  A request as the multiplexer sees it: the method, the request URI, the escaped path of the parsed URL, the keys of the peer certificates, and
  the parts that the router and the proxies use.
\<close>

record front_req =
  fr_Method :: string
  fr_URI :: string
  fr_Path :: string
  fr_Peer :: "peer_key list option"
  fr_rq :: request

definition URL_Path :: "front_req \<Rightarrow> string" where
  "URL_Path r = pathUnescape (fr_Path r)"

datatype mux_out = MuxBad | MuxRedirect string | MuxNotFound | MuxHandler string

definition matchOrRedirect :: "string list \<Rightarrow> string \<Rightarrow> string option \<Rightarrow> string option + string" where
  "matchOrRedirect pats path u =
     (let n = matchPath (mux_tree pats) (path_segs path) in
      if \<not> exactMatch n path \<and> u \<noteq> None \<and> \<not> HasSuffix path ''/'' \<and> path \<noteq> []
         \<and> exactMatch (matchPath (mux_tree pats) (path_segs (path @ ''/''))) (path @ ''/'')
      then Inr (cleanPath (the u) @ ''/'') else Inl n)"

definition found :: "string option \<Rightarrow> mux_out" where
  "found n = (case n of None \<Rightarrow> MuxNotFound | Some p \<Rightarrow> MuxHandler p)"

definition ServeMux :: "string list \<Rightarrow> front_req \<Rightarrow> mux_out" where
  "ServeMux pats r =
     (if fr_URI r = ''*'' then MuxBad
      else if fr_Method r = ''CONNECT'' then
        (case matchOrRedirect pats (fr_Path r) (Some (URL_Path r)) of
           Inr u \<Rightarrow> MuxRedirect u
         | Inl _ \<Rightarrow> (case matchOrRedirect pats (fr_Path r) None of Inr u \<Rightarrow> MuxRedirect u | Inl n \<Rightarrow> found n))
      else
        (let path = cleanPath (fr_Path r) in
         case matchOrRedirect pats path (Some (URL_Path r)) of
           Inr u \<Rightarrow> MuxRedirect u
         | Inl n \<Rightarrow> if path \<noteq> fr_Path r then MuxRedirect path else found n))"

section \<open>The listeners\<close>

datatype front_out =
    Respond nat string
  | Redirect string
  | ToConnect http_req
  | Routed route_out

definition page_not_found :: string where
  "page_not_found = ''404 page not found\<newline>''"

definition hello_text :: "string \<Rightarrow> string" where
  "hello_text apex = ''swe-swe-tunnel\<newline>apex: '' @ apex @ ''\<newline>https://github.com/choonkeat/swe-swe-tunnel\<newline>''"

definition mux_serve :: "mux_out \<Rightarrow> (string \<Rightarrow> front_out) \<Rightarrow> front_out" where
  "mux_serve m handle =
     (case m of
        MuxBad \<Rightarrow> Respond 400 []
      | MuxRedirect u \<Rightarrow> Redirect u
      | MuxNotFound \<Rightarrow> Respond 404 page_not_found
      | MuxHandler p \<Rightarrow> handle p)"

definition helloHandler :: "string \<Rightarrow> front_req \<Rightarrow> front_out" where
  "helloHandler apex r =
     mux_serve (ServeMux [''/'', ''/healthz''] r)
       (\<lambda>p. if p = ''/healthz'' then Respond 200 ''ok\<newline>''
            else if URL_Path r \<noteq> ''/'' then Respond 404 page_not_found
            else Respond 200 (hello_text apex))"

definition connect_req :: "front_req \<Rightarrow> http_req" where
  "connect_req r = \<lparr>q_Method = fr_Method r, q_Connection = Header_Get (rq_Header (fr_rq r)) ''Connection'',
     q_Upgrade = Header_Get (rq_Header (fr_rq r)) ''Upgrade'', q_PeerCerts = fr_Peer r\<rparr>"

definition main_handler ::
  "(string \<Rightarrow> string) \<Rightarrow> (bytes \<Rightarrow> bytes) \<Rightarrow> registry \<Rightarrow> string \<Rightarrow> PortSet option \<Rightarrow> front_req \<Rightarrow> front_out" where
  "main_handler uni sha reg apex ports r =
     mux_serve (ServeMux [''/v1/connect'', ''/''] r)
       (\<lambda>p. if p = ''/v1/connect'' then ToConnect (connect_req r)
            else (case route uni sha reg apex ports (fr_rq r) of
                    Fallback q \<Rightarrow> helloHandler apex (r\<lparr>fr_rq := q\<rparr>)
                  | x \<Rightarrow> Routed x))"

definition register_handler :: "front_req \<Rightarrow> front_out" where
  "register_handler r =
     mux_serve (ServeMux [''/v1/connect'', ''/healthz''] r)
       (\<lambda>p. if p = ''/v1/connect'' then ToConnect (connect_req r) else Respond 200 ''ok\<newline>'')"

section \<open>Clean paths\<close>

lemma HasSuffix_last: "p \<noteq> [] \<Longrightarrow> HasSuffix p [c] \<longleftrightarrow> last p = c"
  by (cases p rule: rev_cases) (auto simp: HasSuffix_def HasPrefix_def)

lemma Clean_rooted:
  assumes "HasPrefix p ''/''"
  shows "Clean p = ''/'' @ Join (rev (components p)) ''/''" "clean_stack True (components p)"
proof -
  have "p \<noteq> []" using assms by (auto simp: HasPrefix_def)
  then show "Clean p = ''/'' @ Join (rev (components p)) ''/''" using assms by (simp add: Clean_def components_def)
  have "components p = foldl (clean_step True) [] (Split p (CHR ''/''))" using assms by (simp add: components_def)
  then show "clean_stack True (components p)"
    by (simp only:) (intro clean_stack_fold; auto simp: clean_stack_def dest: Split_parts_free)
qed

lemma Join_last:
  assumes "xs \<noteq> []" "\<forall>c\<in>set xs. c \<noteq> [] \<and> CHR ''/'' \<notin> set c"
  shows "Join xs ''/'' \<noteq> []" "last (Join xs ''/'') \<noteq> CHR ''/''"
proof -
  obtain ys y where xs: "xs = ys @ [y]" using assms(1) by (cases xs rule: rev_cases) auto
  then have y: "y \<noteq> []" "CHR ''/'' \<notin> set y" using assms(2) by auto
  then have "last y \<noteq> CHR ''/''" by (metis last_in_set)
  then show "Join xs ''/'' \<noteq> []" "last (Join xs ''/'') \<noteq> CHR ''/''" using xs y Join_snoc [of ys y "''/''"] by (cases "ys = []"; simp)+
qed

text \<open>A redirect to the clean path leads to a path that needs no further redirect.\<close>

lemma cleanPath_idem: "cleanPath (cleanPath p) = cleanPath p"
proof -
  have *: "cleanPath (cleanPath p) = cleanPath p" if h: "HasPrefix p ''/''" for p
  proof -
    define st where "st = components p"
    have st: "\<forall>c\<in>set (rev st). c \<noteq> [] \<and> CHR ''/'' \<notin> set c" using Clean_rooted(2) [OF h] by (auto simp: st_def clean_stack_def)
    have p: "p \<noteq> []" using h by (auto simp: HasPrefix_def)
    define np where "np = Clean p"
    have np: "np = ''/'' @ Join (rev st) ''/''" using Clean_rooted(1) [OF h] by (simp add: np_def st_def)
    have c: "components np = st" "HasPrefix np ''/''" using components_Clean [OF p] h by (simp_all add: np_def st_def)
    have h': "HasPrefix (np @ ''/'') ''/''" using np by (simp add: HasPrefix_def)
    have c': "components (np @ ''/'') = st"
      using c h' Split_append_sep [of np "CHR ''/''" "[]"] by (simp add: components_def)
    have C: "Clean np = np" "Clean (np @ ''/'') = np"
      using Clean_rooted(1) [OF c(2)] Clean_rooted(1) [OF h'] c(1) c' np by simp_all
    have l: "np \<noteq> ''/'' \<Longrightarrow> last np \<noteq> CHR ''/''" using np Join_last [of "rev st"] st by (cases "st = []") auto
    have "cleanPath p = (if last p = CHR ''/'' \<and> np \<noteq> ''/'' then np @ ''/'' else np)" using p h by (simp add: cleanPath_def np_def Let_def)
    then show ?thesis using C c(2) h' l np by (auto simp: cleanPath_def)
  qed
  show ?thesis
  proof (cases "p = []")
    case True
    then show ?thesis by (simp add: cleanPath_def) code_simp
  next
    case False
    then have "cleanPath p = cleanPath (if HasPrefix p ''/'' then p else ''/'' @ p)" "HasPrefix (if HasPrefix p ''/'' then p else ''/'' @ p) ''/''"
      by (auto simp: cleanPath_def HasPrefix_def)
    then show ?thesis using * by metis
  qed
qed

lemma cleanPath_rooted: "HasPrefix (cleanPath p) ''/''"
proof -
  have "\<exists>t. Clean q = CHR ''/'' # t" if "HasPrefix q ''/''" for q using Clean_rooted(1) [OF that] by simp
  moreover have "HasPrefix (''/'' @ p) ''/''" by (simp add: HasPrefix_def)
  ultimately obtain t t' where "HasPrefix p ''/'' \<Longrightarrow> Clean p = CHR ''/'' # t" "Clean (''/'' @ p) = CHR ''/'' # t'" by metis
  then show ?thesis by (auto simp: cleanPath_def Let_def HasPrefix_def)
qed

section \<open>Matching\<close>

lemma path_segs_Nil [simp]: "path_segs [] = []"
  by (simp add: path_segs.simps)

lemma path_segs_eq_Nil [simp]: "path_segs p = [] \<longleftrightarrow> p = []"
  by (subst path_segs.simps) simp

lemma path_segs_slash: "p \<noteq> [] \<Longrightarrow> last (path_segs (p @ ''/'')) = ''/''"
proof (induction p rule: path_segs.induct)
  case (1 p)
  obtain c q where p: "p = c # q" using 1(2) by (cases p) auto
  show ?case
  proof (cases "CHR ''/'' \<in> set q")
    case False
    then have "dropWhile (\<lambda>c. c \<noteq> CHR ''/'') (q @ ''/'') = ''/''" by (subst dropWhile_append2) auto
    then show ?thesis using p by (subst path_segs.simps) (simp add: path_segs.simps [of "''/''"])
  next
    case True
    have d: "dropWhile (\<lambda>c. c \<noteq> CHR ''/'') (q @ ''/'') = dropWhile (\<lambda>c. c \<noteq> CHR ''/'') q @ ''/''" using True by (simp add: dropWhile_append1)
    have n: "dropWhile (\<lambda>c. c \<noteq> CHR ''/'') q \<noteq> []" using True by (auto simp: dropWhile_eq_Nil_conv)
    have "p \<noteq> ''/''" using p True by auto
    from 1(1) [OF 1(2) this] have "last (path_segs (dropWhile (\<lambda>c. c \<noteq> CHR ''/'') q @ ''/'')) = ''/''" using n p by simp
    then show ?thesis using p d by (subst path_segs.simps) simp
  qed
qed

lemma patterns:
  "parse_pattern ''/'' = ([], True)" "parse_pattern ''/healthz'' = ([''healthz''], False)" "parse_pattern ''/v1/connect'' = ([''v1'', ''connect''], False)"
  by code_simp+

lemma matchPath_empty [simp]: "matchPath [] segs = None"
  by (induction segs) (simp_all add: node_pattern_def findChild_def)

text \<open>
  A multiplexer whose only pattern that ends in a slash is \<open>/\<close>, given by the handler of each list of decoded segments: it never redirects to a
  path with a slash added.
\<close>

locale plain_mux =
  fixes pats :: "string list" and table :: "string list \<Rightarrow> string option"
  assumes match: "matchPath (mux_tree pats) segs = table segs"
    and slash: "last segs = ''/'' \<Longrightarrow> table segs \<in> {None, Some ''/''}"
begin

lemma no_slash_redirect:
  assumes "path = [] \<or> HasPrefix path ''/''"
  shows "matchOrRedirect pats path u = Inl (table (path_segs path))"
proof (cases path)
  case (Cons c t)
  have "table (path_segs (path @ ''/'')) \<in> {None, Some ''/''}" using path_segs_slash [of path] Cons by (intro slash) simp
  then have "\<not> exactMatch (table (path_segs (path @ ''/''))) (path @ ''/'')"
    using Cons assms by (auto simp: exactMatch_def patterns HasPrefix_def)
  then show ?thesis by (simp add: matchOrRedirect_def match)
qed (use match [of "[]"] in \<open>simp add: matchOrRedirect_def\<close>)

lemma serve:
  assumes "fr_Path r = [] \<or> HasPrefix (fr_Path r) ''/''"
  shows "ServeMux pats r =
    (if fr_URI r = ''*'' then MuxBad
     else if fr_Method r \<noteq> ''CONNECT'' \<and> cleanPath (fr_Path r) \<noteq> fr_Path r then MuxRedirect (cleanPath (fr_Path r))
     else found (table (path_segs (fr_Path r))))"
  using no_slash_redirect [OF assms] no_slash_redirect [OF disjI2 [OF cleanPath_rooted]] by (auto simp: ServeMux_def Let_def)

end

interpretation main_mux: plain_mux "[''/v1/connect'', ''/'']"
  "\<lambda>segs. if segs = [''v1'', ''connect''] then Some ''/v1/connect'' else if segs = [] then None else Some ''/''"
proof
  fix segs show "matchPath (mux_tree [''/v1/connect'', ''/'']) segs =
      (if segs = [''v1'', ''connect''] then Some ''/v1/connect'' else if segs = [] then None else Some ''/'')"
  proof (cases segs)
    case (Cons a t)
    then show ?thesis by (cases t; cases "tl t") (auto simp: mux_tree_def patterns findChild_def node_pattern_def)
  qed (simp add: mux_tree_def patterns node_pattern_def)
qed auto

interpretation hello_mux: plain_mux "[''/'', ''/healthz'']"
  "\<lambda>segs. if segs = [''healthz''] then Some ''/healthz'' else if segs = [] then None else Some ''/''"
proof
  fix segs show "matchPath (mux_tree [''/'', ''/healthz'']) segs = (if segs = [''healthz''] then Some ''/healthz'' else if segs = [] then None else Some ''/'')"
  proof (cases segs)
    case (Cons a t)
    then show ?thesis by (cases t) (auto simp: mux_tree_def patterns findChild_def node_pattern_def)
  qed (simp add: mux_tree_def patterns node_pattern_def)
qed auto

interpretation register_mux: plain_mux "[''/v1/connect'', ''/healthz'']"
  "\<lambda>segs. if segs = [''v1'', ''connect''] then Some ''/v1/connect'' else if segs = [''healthz''] then Some ''/healthz'' else None"
proof
  fix segs show "matchPath (mux_tree [''/v1/connect'', ''/healthz'']) segs =
      (if segs = [''v1'', ''connect''] then Some ''/v1/connect'' else if segs = [''healthz''] then Some ''/healthz'' else None)"
  proof (cases segs)
    case (Cons a t)
    then show ?thesis by (cases t; cases "tl t") (auto simp: mux_tree_def patterns findChild_def node_pattern_def)
  qed (simp add: mux_tree_def patterns node_pattern_def)
qed auto

section \<open>Properties\<close>

text \<open>
  C18: what the two listeners do with a request, as a table.  A path that is not clean is redirected to its clean form, which is not redirected again.  The
  control endpoint is reached by exactly the paths whose decoded segments are \<open>v1/connect\<close>, whatever the host and the method; every other request of the
  main listener is the router's, and the requests that the router does not take are answered by the hello handler.  On the registration listener
  there is nothing but the control endpoint and the health check: no request on it is routed into a tunnel.
\<close>

theorem front_door:
  assumes "fr_Path r = [] \<or> HasPrefix (fr_Path r) ''/''"
  shows "main_handler uni sha reg apex ports r =
      (if fr_URI r = ''*'' then Respond 400 []
       else if fr_Method r \<noteq> ''CONNECT'' \<and> cleanPath (fr_Path r) \<noteq> fr_Path r then Redirect (cleanPath (fr_Path r))
       else if path_segs (fr_Path r) = [''v1'', ''connect''] then ToConnect (connect_req r)
       else if fr_Path r = [] then Respond 404 page_not_found
       else (case route uni sha reg apex ports (fr_rq r) of
               Fallback q \<Rightarrow> if path_segs (fr_Path r) = [''healthz''] then Respond 200 ''ok\<newline>''
                             else if pathUnescape (fr_Path r) = ''/'' then Respond 200 (hello_text apex) else Respond 404 page_not_found
             | x \<Rightarrow> Routed x))
    \<and> register_handler r =
      (if fr_URI r = ''*'' then Respond 400 []
       else if fr_Method r \<noteq> ''CONNECT'' \<and> cleanPath (fr_Path r) \<noteq> fr_Path r then Redirect (cleanPath (fr_Path r))
       else if path_segs (fr_Path r) = [''v1'', ''connect''] then ToConnect (connect_req r)
       else if path_segs (fr_Path r) = [''healthz''] then Respond 200 ''ok\<newline>''
       else Respond 404 page_not_found)
    \<and> cleanPath (cleanPath (fr_Path r)) = cleanPath (fr_Path r)"
proof (intro conjI cleanPath_idem)
  have H: "helloHandler apex (r\<lparr>fr_rq := q\<rparr>) = (if path_segs (fr_Path r) = [''healthz''] then Respond 200 ''ok\<newline>''
      else if pathUnescape (fr_Path r) = ''/'' then Respond 200 (hello_text apex) else Respond 404 page_not_found)"
    if "fr_URI r \<noteq> ''*''" "fr_Method r = ''CONNECT'' \<or> cleanPath (fr_Path r) = fr_Path r" "fr_Path r \<noteq> []" for q
    using that assms hello_mux.serve [of "r\<lparr>fr_rq := q\<rparr>"] by (auto simp: helloHandler_def mux_serve_def found_def URL_Path_def)
  show "main_handler uni sha reg apex ports r =
      (if fr_URI r = ''*'' then Respond 400 []
       else if fr_Method r \<noteq> ''CONNECT'' \<and> cleanPath (fr_Path r) \<noteq> fr_Path r then Redirect (cleanPath (fr_Path r))
       else if path_segs (fr_Path r) = [''v1'', ''connect''] then ToConnect (connect_req r)
       else if fr_Path r = [] then Respond 404 page_not_found
       else (case route uni sha reg apex ports (fr_rq r) of
               Fallback q \<Rightarrow> if path_segs (fr_Path r) = [''healthz''] then Respond 200 ''ok\<newline>''
                             else if pathUnescape (fr_Path r) = ''/'' then Respond 200 (hello_text apex) else Respond 404 page_not_found
             | x \<Rightarrow> Routed x))"
    using H main_mux.serve [OF assms] by (auto simp: main_handler_def mux_serve_def found_def split: route_out.splits)
  show "register_handler r =
      (if fr_URI r = ''*'' then Respond 400 []
       else if fr_Method r \<noteq> ''CONNECT'' \<and> cleanPath (fr_Path r) \<noteq> fr_Path r then Redirect (cleanPath (fr_Path r))
       else if path_segs (fr_Path r) = [''v1'', ''connect''] then ToConnect (connect_req r)
       else if path_segs (fr_Path r) = [''healthz''] then Respond 200 ''ok\<newline>''
       else Respond 404 page_not_found)"
    using register_mux.serve [OF assms] by (auto simp: register_handler_def mux_serve_def found_def)
qed

theorem front_door_witness:
  "main_handler id id demo_registry ''ex.com'' None \<lparr>fr_Method = ''GET'', fr_URI = ''/v%31/connect'', fr_Path = ''/v%31/connect'', fr_Peer = None,
       fr_rq = demo_request ''80.app-tunnel.ex.com'' []\<rparr>
     = ToConnect \<lparr>q_Method = ''GET'', q_Connection = [], q_Upgrade = [], q_PeerCerts = None\<rparr>
   \<and> register_handler \<lparr>fr_Method = ''GET'', fr_URI = ''/a//b'', fr_Path = ''/a//b'', fr_Peer = None, fr_rq = demo_request ''80.app-tunnel.ex.com'' []\<rparr>
     = Redirect ''/a/b''"
proof -
  let ?q = "\<lambda>p. \<lparr>fr_Method = ''GET'', fr_URI = p, fr_Path = p, fr_Peer = None, fr_rq = demo_request ''80.app-tunnel.ex.com'' []\<rparr>"
  have c: "cleanPath ''/v%31/connect'' = ''/v%31/connect''" "path_segs ''/v%31/connect'' = [''v1'', ''connect'']" "cleanPath ''/a//b'' = ''/a/b''"
    "connect_req (?q x) = \<lparr>q_Method = ''GET'', q_Connection = [], q_Upgrade = [], q_PeerCerts = None\<rparr>" for x
    by (simp_all add: connect_req_def demo_request_def Header_Get_def) code_simp+
  show ?thesis using front_door [of "?q ''/v%31/connect''" id id demo_registry "''ex.com''" None] front_door [of "?q ''/a//b''"] c
    by (simp add: HasPrefix_def)
qed

end
