(* ===== verification/Echo.thy ===== *)
theory Echo
  imports Front
begin

text \<open>
  The echo server that the end-to-end tests put behind a tunnel (\<open>examples/echo/main.go\<close>), and a request on its whole way: the public listener, the router,
  the tunnel, the client's dispatcher and this server.  A response is its status, the headers that the handler sets and its body.
\<close>

section \<open>Escaping\<close>

text \<open>\<open>[]rune(s)\<close>, each rune as its encoding; a byte that starts none is U+FFFD.\<close>

function runes :: "string \<Rightarrow> string list" where
  "runes s =
     (if s = [] then []
      else if utf8_len s = 0 then replacement # runes (drop 1 s)
      else take (utf8_len s) s # runes (drop (utf8_len s) s))"
  by auto
termination
  by (relation "measure length") auto

declare runes.simps [simp del]

definition html_rune :: "string \<Rightarrow> string" where
  "html_rune c =
     (if c = ''<'' then ''&lt;''
      else if c = ''>'' then ''&gt;''
      else if c = ''&'' then ''&amp;''
      else if c = [CHR 0x22] then ''&quot;''
      else c)"

definition htmlEscape :: "string \<Rightarrow> string" where
  "htmlEscape s = concat (map html_rune (runes s))"

section \<open>Handlers\<close>

record echo_req =
  er_front :: front_req
  er_URL :: string
  er_Body :: bytes

record response =
  rs_Status :: nat
  rs_Header :: headers
  rs_Body :: bytes

definition http_Error :: "string \<Rightarrow> nat \<Rightarrow> response" where
  "http_Error msg code = \<lparr>rs_Status = code,
     rs_Header = [(''Content-Type'', [''text/plain; charset=utf-8'']), (''X-Content-Type-Options'', [''nosniff''])], rs_Body = msg @ ''\<newline>''\<rparr>"

text \<open>The page, with the quotation marks and the dash written as bytes.\<close>

definition index_head :: string where
  "index_head = ''<!doctype html>\<newline><html><body style='' @ [CHR 0x22] @ ''font-family:sans-serif;padding:2em'' @ [CHR 0x22]
     @ ''>\<newline><h1>swe-swe-tunnel echo server</h1>\<newline><p>Routes:</p>\<newline><ul>\<newline>  <li><code>GET /healthz</code></li>\<newline>  <li><code>POST /echo</code> ''
     @ [CHR 0xE2, CHR 0x80, CHR 0x94] @ '' echoes the request body</li>\<newline>  <li><code>/ws</code> '' @ [CHR 0xE2, CHR 0x80, CHR 0x94]
     @ '' WebSocket echo</li>\<newline></ul>\<newline><h2>What this request looked like</h2>\<newline><pre>''"

definition index_page :: "echo_req \<Rightarrow> string" where
  "index_page r =
     (let f = er_front r; q = fr_rq f in
      index_head
      @ ''Host:            '' @ htmlEscape (rq_Host q)
      @ ''\<newline>Method:          '' @ fr_Method f
      @ ''\<newline>URL:             '' @ htmlEscape (er_URL r)
      @ ''\<newline>RemoteAddr:      '' @ rq_RemoteAddr q
      @ ''\<newline>X-Forwarded-For: '' @ Header_Get (rq_Header q) ''X-Forwarded-For''
      @ ''\<newline>X-Forwarded-Proto: '' @ Header_Get (rq_Header q) ''X-Forwarded-Proto''
      @ ''\<newline>X-Forwarded-Host:  '' @ htmlEscape (Header_Get (rq_Header q) ''X-Forwarded-Host'')
      @ ''</pre>\<newline></body></html>'')"

definition indexHandler :: "echo_req \<Rightarrow> response" where
  "indexHandler r =
     (if URL_Path (er_front r) \<noteq> ''/'' then http_Error ''404 page not found'' 404
      else \<lparr>rs_Status = 200, rs_Header = [(''Content-Type'', [''text/html; charset=utf-8''])], rs_Body = index_page r\<rparr>)"

definition echoHTTP :: "echo_req \<Rightarrow> response" where
  "echoHTTP r =
     (if fr_Method (er_front r) \<noteq> ''POST'' then http_Error ''POST required'' 405
      else (let ct = Header_Get (rq_Header (fr_rq (er_front r))) ''Content-Type'' in
            \<lparr>rs_Status = 200, rs_Header = (if ct \<noteq> [] then [(''Content-Type'', [ct])] else []), rs_Body = er_Body r\<rparr>))"

text \<open>
  \<open>echoWS\<close>: what each read of the connection returns, until one fails, and how many writes succeed; the result is what was written.
\<close>

fun echoWS :: "bytes option list \<Rightarrow> nat \<Rightarrow> bytes list" where
  "echoWS (Some chunk # reads) (Suc n) = chunk # echoWS reads n"
| "echoWS _ _ = []"

datatype echo_out = EchoBad | EchoRedirect string | EchoRespond response | EchoWS

definition echo_mux :: "echo_req \<Rightarrow> echo_out" where
  "echo_mux r =
     (case ServeMux [''/'', ''/healthz'', ''/echo'', ''/ws''] (er_front r) of
        MuxBad \<Rightarrow> EchoBad
      | MuxRedirect u \<Rightarrow> EchoRedirect u
      | MuxNotFound \<Rightarrow> EchoRespond (http_Error ''404 page not found'' 404)
      | MuxHandler p \<Rightarrow>
          if p = ''/ws'' then EchoWS
          else EchoRespond
            (if p = ''/healthz'' then \<lparr>rs_Status = 200, rs_Header = [], rs_Body = ''ok\<newline>''\<rparr>
             else if p = ''/echo'' then echoHTTP r
             else indexHandler r))"

section \<open>Specification\<close>

text \<open>What a browser reads: the four entities decoded.\<close>

function html_unescape :: "string \<Rightarrow> string" where
  "html_unescape s =
     (if s = [] then []
      else if HasPrefix s ''&lt;'' then CHR ''<'' # html_unescape (drop 4 s)
      else if HasPrefix s ''&gt;'' then CHR ''>'' # html_unescape (drop 4 s)
      else if HasPrefix s ''&amp;'' then CHR ''&'' # html_unescape (drop 5 s)
      else if HasPrefix s ''&quot;'' then CHR 0x22 # html_unescape (drop 6 s)
      else hd s # html_unescape (tl s))"
  by auto
termination
  by (relation "measure length") auto

declare html_unescape.simps [simp del]

section \<open>Escaping\<close>

lemma runes_concat: "concat (runes s) = ToValidUTF8 s"
  by (induction s rule: runes.induct) (subst runes.simps, subst ToValidUTF8.simps, simp)

lemma runes_shape: "c \<in> set (runes s) \<Longrightarrow> c \<noteq> [] \<and> ((\<exists>x. c = [x] \<and> (of_char x :: nat) < 128) \<or> (\<forall>x\<in>set c. 128 \<le> (of_char x :: nat)))"
proof (induction s rule: runes.induct)
  case (1 s)
  have t: "(\<exists>x. take (utf8_len s) s = [x] \<and> (of_char x :: nat) < 128) \<or> (\<forall>x\<in>set (take (utf8_len s) s). 128 \<le> (of_char x :: nat))"
    if "0 < utf8_len s" using that by (cases rule: utf8_len_cases) (auto simp: utf8_len_def utf8_cont_def utf8_second_ok_def split: if_splits)
  have r: "replacement \<noteq> []" "\<forall>x\<in>set replacement. 128 \<le> (of_char x :: nat)" by (auto simp: replacement_def)
  show ?case
    using 1(1,2) 1(3) [unfolded runes.simps [of s]] t r by (auto split: if_splits)
qed

lemma unescape_rune:
  assumes "(\<exists>x. c = [x]) \<or> (\<forall>x\<in>set c. 128 \<le> (of_char x :: nat))"
  shows "html_unescape (html_rune c @ t) = c @ html_unescape t"
proof -
  have plain: "html_unescape (x # t) = x # html_unescape t" if "x \<noteq> CHR ''&''" for x t
    using that by (subst html_unescape.simps) (simp add: HasPrefix_def)
  have high: "html_unescape (c @ t) = c @ html_unescape t" if "\<forall>x\<in>set c. 128 \<le> (of_char x :: nat)" for c t
    using that
  proof (induction c)
    case (Cons x c)
    then have "x \<noteq> CHR ''&''" by auto
    then show ?case using plain Cons by simp
  qed simp
  consider "c = ''<''" | "c = ''>''" | "c = ''&''" | "c = [CHR 0x22]" | "c \<notin> {''<'', ''>'', ''&'', [CHR 0x22]}" by blast
  then show ?thesis
  proof cases
    case 5
    then have "html_rune c = c" by (simp add: html_rune_def)
    then show ?thesis using assms high plain 5 by auto
  qed (subst html_unescape.simps; simp add: html_rune_def HasPrefix_def)+
qed

lemma html_rune_safe:
  assumes "(\<exists>x. c = [x]) \<or> (\<forall>x\<in>set c. 128 \<le> (of_char x :: nat))"
  shows "set (html_rune c) \<inter> {CHR ''<'', CHR ''>'', CHR 0x22} = {}"
  using assms by (auto simp: html_rune_def split: if_splits)

lemma concat_free: "(\<And>c. c \<in> set cs \<Longrightarrow> set (f c) \<inter> S = {}) \<Longrightarrow> set (concat (map f cs)) \<inter> S = {}"
  by auto

lemma page_infix: "\<exists>pre post. a @ b @ c @ d @ e @ f @ g @ h @ i @ j @ x @ k @ y @ l = pre @ x @ k @ y @ post"
  by (rule exI [of _ "a @ b @ c @ d @ e @ f @ g @ h @ i @ j"], rule exI [of _ l]) simp

section \<open>The multiplexer\<close>

interpretation echo_mux: plain_mux "[''/'', ''/healthz'', ''/echo'', ''/ws'']"
  "\<lambda>segs. if segs = [''healthz''] then Some ''/healthz'' else if segs = [''echo''] then Some ''/echo''
     else if segs = [''ws''] then Some ''/ws'' else if segs = [] then None else Some ''/''"
proof
  have pat: "parse_pattern ''/echo'' = ([''echo''], False)" "parse_pattern ''/ws'' = ([''ws''], False)" by code_simp+
  fix segs show "matchPath (mux_tree [''/'', ''/healthz'', ''/echo'', ''/ws'']) segs =
      (if segs = [''healthz''] then Some ''/healthz'' else if segs = [''echo''] then Some ''/echo''
       else if segs = [''ws''] then Some ''/ws'' else if segs = [] then None else Some ''/'')"
  proof (cases segs)
    case (Cons a t)
    then show ?thesis by (cases t) (auto simp: mux_tree_def patterns pat findChild_def node_pattern_def)
  qed (simp add: mux_tree_def patterns pat node_pattern_def)
qed auto

section \<open>Properties\<close>

text \<open>
  Escaped text is inert and faithful.  The result of \<open>htmlEscape\<close> has no angle bracket and no quotation mark, and a browser that decodes the
  entities reads the text back, except that invalid UTF-8 is replaced.  The page of the echo server contains two values that are not escaped: a caller that
  reaches the server directly gets its \<open>X-Forwarded-For\<close> and \<open>X-Forwarded-Proto\<close> back as they are.
\<close>

theorem htmlEscape_inert:
  "html_unescape (htmlEscape s) = ToValidUTF8 s \<and> set (htmlEscape s) \<inter> {CHR ''<'', CHR ''>'', CHR 0x22} = {}
   \<and> (\<exists>pre post. index_page r = pre @ Header_Get (rq_Header (fr_rq (er_front r))) ''X-Forwarded-For''
        @ ''\<newline>X-Forwarded-Proto: '' @ Header_Get (rq_Header (fr_rq (er_front r))) ''X-Forwarded-Proto'' @ post)"
proof (intro conjI)
  have "html_unescape (concat (map html_rune cs)) = concat cs"
    if "\<forall>c\<in>set cs. (\<exists>x. c = [x]) \<or> (\<forall>x\<in>set c. 128 \<le> (of_char x :: nat))" for cs
    using that
  proof (induction cs)
    case (Cons c cs)
    then show ?case using unescape_rune [of c "concat (map html_rune cs)"] by simp
  qed (simp add: html_unescape.simps)
  moreover have sh: "\<forall>c\<in>set (runes s). (\<exists>x. c = [x]) \<or> (\<forall>x\<in>set c. 128 \<le> (of_char x :: nat))" using runes_shape by blast
  ultimately show "html_unescape (htmlEscape s) = ToValidUTF8 s" by (simp add: htmlEscape_def runes_concat)
  show "set (htmlEscape s) \<inter> {CHR ''<'', CHR ''>'', CHR 0x22} = {}"
    unfolding htmlEscape_def by (rule concat_free, rule html_rune_safe, rule sh [rule_format])
  show "\<exists>pre post. index_page r = pre @ Header_Get (rq_Header (fr_rq (er_front r))) ''X-Forwarded-For''
        @ ''\<newline>X-Forwarded-Proto: '' @ Header_Get (rq_Header (fr_rq (er_front r))) ''X-Forwarded-Proto'' @ post"
    unfolding index_page_def Let_def
    by (rule page_infix)
qed

text \<open>
  C17: a request makes the whole way.  Let a name be registered and connected, and a visitor ask for a permitted port of it on the public listener.
  Then the request is handed to the session of that name, crosses the tunnel, is forwarded to exactly that port of the client's target, and an echo server there
  answers \<open>POST /echo\<close> with the visitor's body under the visitor's content type, and \<open>/healthz\<close> with \<open>ok\<close>.  The conditions are that the visitor
  asks for no unprintable protocol switch, does not declare its content type hop-by-hop, and that no round trip fails.
\<close>

theorem echo_through_tunnel:
  assumes "ValidateUnique q u = None" "plain_host apex" "1 \<le> n" "n \<le> 65535" "ports = None \<or> Set_Permits ports n"
    "reg_get reg (TunnelLabel u) = Some ts" "rq_Host (fr_rq r) = Itoa n @ ''.'' @ TunnelLabel u @ ''.'' @ apex"
    "fr_URI r = fr_Path r" "is_print (upgradeType (rq_Header (fr_rq r)))"
    "''Content-Type'' \<notin> CanonicalKey ` set (connection_named (rq_Header (fr_rq r)))"
    "fr_Method r = ''POST'' \<and> fr_Path r = ''/echo'' \<or> fr_Path r = ''/healthz''"
  shows "\<exists>q1 t q2. main_handler uni sha reg apex ports r = Routed (Proxied ts q1) \<and> newSessionProxy quote None q1 = Inr t
    \<and> PortDispatchHandler uni target None t = Forward (JoinHostPort target (Itoa n)) q2
    \<and> echo_mux \<lparr>er_front = r\<lparr>fr_rq := q2\<rparr>, er_URL = url, er_Body = body\<rparr> = EchoRespond
        (if fr_Path r = ''/echo'' then
           \<lparr>rs_Status = 200, rs_Header = (let ct = Header_Get (rq_Header (fr_rq r)) ''Content-Type'' in if ct = [] then [] else [(''Content-Type'', [ct])]), rs_Body = body\<rparr>
         else \<lparr>rs_Status = 200, rs_Header = [], rs_Body = ''ok\<newline>''\<rparr>)"
proof -
  have p: "cleanPath ''/echo'' = ''/echo''" "cleanPath ''/healthz'' = ''/healthz''" "path_segs ''/echo'' = [''echo'']" "path_segs ''/healthz'' = [''healthz'']"
    "CanonicalKey ''Content-Type'' = ''Content-Type''" "''Content-Type'' \<notin> set hopHeaders" "''Content-Type'' \<notin> set forwarding"
    by code_simp+
  have fp: "fr_Path r = ''/echo'' \<or> fr_Path r = ''/healthz''" using assms(11) by blast
  have hp: "fr_Path r = [] \<or> HasPrefix (fr_Path r) ''/''" using fp by (auto simp: HasPrefix_def)
  let ?q1 = "injectClientIdentityHeaders sha (fr_rq r)"
  have R: "route uni sha reg apex ports (fr_rq r) = Proxied ts ?q1" by (rule route_delivers [OF assms(1-7)])
  note i = route_injected [OF R]
  have M: "main_handler uni sha reg apex ports r = Routed (Proxied ts ?q1)"
    using main_mux.serve [OF hp] fp p R assms(8) by (auto simp: main_handler_def mux_serve_def found_def)
  obtain t where t: "newSessionProxy quote None ?q1 = Inr t" using assms(9) by (simp add: newSessionProxy_def i(3))
  note t' = newSessionProxy_Inr [OF t]
  obtain pl l where h: "normalizeHost uni (rq_Host (fr_rq r)) = pl @ ''.'' @ l @ ''.'' @ ToLower uni apex" "CHR ''.'' \<notin> set pl"
    using route_Proxied [OF R] by blast
  have ph: "plain_host (Itoa n @ ''.'' @ TunnelLabel u @ ''.'' @ apex)"
    using assms(2,3) Itoa_plain [of n] TunnelLabel_plain [OF assms(1)] by (intro plain_host_append) auto
  have pf: "portFromHost uni (rq_Host t) = Itoa n"
    using portFromHost_normal [of uni "rq_Host t" "Itoa n" "TunnelLabel u @ ''.'' @ apex"] plain_host_normal(2) [OF ph, of uni] assms(7) t'(2)
      Itoa_no_sign [of n "CHR ''.''"] assms(3) by simp
  have a: "Atoi (Itoa n) = Some n" using assms(3,4) by (intro Atoi_Itoa) auto
  obtain q2 where F: "PortDispatchHandler uni target None t = Forward (JoinHostPort target (Itoa n)) q2"
    using pf a t'(3) by (auto simp: PortDispatchHandler_def Let_def Atoi_def HasPrefix_def)
  have ct: "map_of (rq_Header q2) ''Content-Type'' = map_of (rq_Header (fr_rq r)) ''Content-Type''"
    using delivered_headers(1) [OF t F, of "''Content-Type''"] p(6,7) assms(10) by (simp add: i(2) inject_headers)
  have E: "ServeMux [''/'', ''/healthz'', ''/echo'', ''/ws''] (r\<lparr>fr_rq := q2\<rparr>) = MuxHandler (fr_Path r)"
    using echo_mux.serve [of "r\<lparr>fr_rq := q2\<rparr>"] fp hp p assms(8) by (auto simp: found_def)
  have "echo_mux \<lparr>er_front = r\<lparr>fr_rq := q2\<rparr>, er_URL = url, er_Body = body\<rparr> = EchoRespond
        (if fr_Path r = ''/echo'' then
           \<lparr>rs_Status = 200, rs_Header = (let ct = Header_Get (rq_Header (fr_rq r)) ''Content-Type'' in if ct = [] then [] else [(''Content-Type'', [ct])]), rs_Body = body\<rparr>
         else \<lparr>rs_Status = 200, rs_Header = [], rs_Body = ''ok\<newline>''\<rparr>)"
    using fp assms(11) E ct by (auto simp: echo_mux_def echoHTTP_def Let_def Header_Get_def p(5))
  then show ?thesis using M t F by blast
qed

theorem echo_through_tunnel_witness:
  "\<exists>q1 t q2. main_handler id id demo_registry ''ex.com'' demo_ports \<lparr>fr_Method = ''POST'', fr_URI = ''/echo'', fr_Path = ''/echo'', fr_Peer = None,
        fr_rq = demo_request ''8080.app-tunnel.ex.com'' [(''Content-Type'', [''text/csv''])]\<rparr> = Routed (Proxied 7 q1)
    \<and> newSessionProxy id None q1 = Inr t \<and> PortDispatchHandler id ''localhost'' None t = Forward (JoinHostPort ''localhost'' (Itoa 8080)) q2
    \<and> echo_mux \<lparr>er_front = \<lparr>fr_Method = ''POST'', fr_URI = ''/echo'', fr_Path = ''/echo'', fr_Peer = None, fr_rq = q2\<rparr>, er_URL = ''/echo'', er_Body = ''a,b''\<rparr>
        = EchoRespond \<lparr>rs_Status = 200, rs_Header = [(''Content-Type'', [''text/csv''])], rs_Body = ''a,b''\<rparr>"
proof -
  let ?h = "[(''Content-Type'', [''text/csv''])]"
  let ?r = "\<lparr>fr_Method = ''POST'', fr_URI = ''/echo'', fr_Path = ''/echo'', fr_Peer = None, fr_rq = demo_request ''8080.app-tunnel.ex.com'' ?h\<rparr>"
  have v: "ValidateUnique id ''app'' = None" "plain_host ''ex.com''" "is_print (upgradeType ?h)" "connection_named ?h = []"
    "Header_Get ?h ''Content-Type'' = ''text/csv''" by code_simp+
  have i: "rq_Host (fr_rq ?r) = Itoa 8080 @ ''.'' @ TunnelLabel ''app'' @ ''.'' @ ''ex.com''"
    by (simp add: Itoa_def nat_digits.simps digit_char_def TunnelLabel_def demo_request_def)
  have d: "demo_ports = None \<or> Set_Permits demo_ports 8080" "reg_get demo_registry (TunnelLabel ''app'') = Some 7"
    by (simp_all add: demo_ports_def Set_Permits_def Permits_def AllowAll_def reg_get_def demo_registry_def TunnelLabel_def)
  show ?thesis
    using echo_through_tunnel [OF v(1,2) _ _ d i, where uni = id and sha = id and quote = id and target = "''localhost''" and url = "''/echo''" and body = "''a,b''"] v(3-5)
    by (simp add: demo_request_def)
qed

end
