(* ===== verification/Background.thy ===== *)
theory Background
  imports Boot Router
begin

text \<open>
  What runs beside the listeners (\<open>cmd/swe-swe-tunneld/main.go\<close>): the janitors of the rate limiters (\<open>RunPruner\<close>), the renewal of certificates (\<open>Manager.Run\<close>), and the
  DNS provider that every order is given: \<open>dnsProviderFactory\<close>, wrapped into the pre-check of \<open>internal/cert/precheck.go\<close>.  A loop over a ticker is a fold over
  what it meets at each tick until its context ends.  The providers of package lego are an argument.
\<close>

section \<open>Loops over a ticker\<close>

definition RunPruner :: "SlidingWindow \<Rightarrow> gotime list \<Rightarrow> SlidingWindow" where
  "RunPruner s ticks = foldl PruneAt s ticks"

text \<open>At each tick the time and what the certificate authority answers.\<close>

definition Manager_Run :: "(string \<Rightarrow> string) \<Rightarrow> Manager \<Rightarrow> (gotime \<times> (string list \<Rightarrow> string \<Rightarrow> goerr + cert)) list \<Rightarrow> Manager" where
  "Manager_Run uni m ticks = foldl (\<lambda>m (now, obt). checkAndRenew uni now obt m) m ticks"

section \<open>The DNS provider\<close>

text \<open>The configuration of a provider, as far as the factory sets it.\<close>

record dns_config =
  dc_AccessToken :: string
  dc_BaseURL :: string
  dc_PropagationTimeout :: duration
  dc_PollingInterval :: duration

text \<open>
  Package lego: the default configurations, the constructors and, of a provider, its \<open>CleanUp\<close> and \<open>Timeout\<close>, where \<open>None\<close> says that it has no \<open>Timeout\<close>
  method.
\<close>

record 'p dns_kit =
  dk_dnsimple_default :: dns_config
  dk_dnsimple :: "dns_config \<Rightarrow> 'p result"
  dk_route53_default :: dns_config
  dk_route53 :: "dns_config \<Rightarrow> 'p result"
  dk_CleanUp :: "'p \<Rightarrow> string \<Rightarrow> string \<Rightarrow> string \<Rightarrow> string option"
  dk_Timeout :: "'p \<Rightarrow> (duration \<times> duration) option"
  dk_DefaultTimeouts :: "duration \<times> duration"

definition set_timeouts :: "duration \<Rightarrow> duration \<Rightarrow> dns_config \<Rightarrow> dns_config" where
  "set_timeouts propagationTimeout pollingInterval cfg =
     (let cfg1 = (if propagationTimeout > 0 then cfg\<lparr>dc_PropagationTimeout := propagationTimeout\<rparr> else cfg)
      in if pollingInterval > 0 then cfg1\<lparr>dc_PollingInterval := pollingInterval\<rparr> else cfg1)"

definition dnsProviderFactory ::
  "'p dns_kit \<Rightarrow> (string \<Rightarrow> string) \<Rightarrow> (string \<Rightarrow> string) \<Rightarrow> string \<Rightarrow> duration \<Rightarrow> duration \<Rightarrow> 'p result" where
  "dnsProviderFactory kit getenv quote name propagationTimeout pollingInterval =
     (if name = ''dnsimple'' then
        dk_dnsimple kit (set_timeouts propagationTimeout pollingInterval
          ((dk_dnsimple_default kit)\<lparr>dc_AccessToken := getenv ''DNSIMPLE_OAUTH_TOKEN'', dc_BaseURL := getenv ''DNSIMPLE_BASE_URL''\<rparr>))
      else if name = ''route53'' then dk_route53 kit (set_timeouts propagationTimeout pollingInterval (dk_route53_default kit))
      else Inl (''unsupported dns provider '' @ quote name @ '' (supported: dnsimple, route53)''))"

record 'p AuthoritativePreCheck =
  ap_Inner :: 'p
  ap_Apex :: string
  ap_WaitTimeout :: duration
  ap_WaitInterval :: duration

definition providerFactory ::
  "'p dns_kit \<Rightarrow> (string \<Rightarrow> string) \<Rightarrow> (string \<Rightarrow> string) \<Rightarrow> string \<Rightarrow> duration \<Rightarrow> duration \<Rightarrow> string \<Rightarrow> 'p AuthoritativePreCheck result" where
  "providerFactory kit getenv quote name propagationTimeout pollingInterval apex =
     (case dnsProviderFactory kit getenv quote name propagationTimeout pollingInterval of
        Inl e \<Rightarrow> Inl e
      | Inr inner \<Rightarrow>
          Inr \<lparr>ap_Inner = inner, ap_Apex = apex, ap_WaitTimeout = propagationTimeout, ap_WaitInterval = pollingInterval\<rparr>)"

definition PreCheck_CleanUp :: "'p dns_kit \<Rightarrow> 'p AuthoritativePreCheck \<Rightarrow> string \<Rightarrow> string \<Rightarrow> string \<Rightarrow> string option" where
  "PreCheck_CleanUp kit a domain token keyAuth = dk_CleanUp kit (ap_Inner a) domain token keyAuth"

definition PreCheck_Timeout :: "'p dns_kit \<Rightarrow> 'p AuthoritativePreCheck \<Rightarrow> duration \<times> duration" where
  "PreCheck_Timeout kit a = (case dk_Timeout kit (ap_Inner a) of Some t \<Rightarrow> t | None \<Rightarrow> dk_DefaultTimeouts kit)"

text \<open>The budget and the interval of the poll, and the address that \<open>defaultLookupTXTAt\<close> dials.\<close>

definition wait_budget :: "'p AuthoritativePreCheck \<Rightarrow> duration \<times> duration" where
  "wait_budget a =
     (if ap_WaitTimeout a \<le> 0 then 5 * Minute else ap_WaitTimeout a,
      if ap_WaitInterval a \<le> 0 then 5 * Second else ap_WaitInterval a)"

definition lookup_addr :: "string \<Rightarrow> string" where
  "lookup_addr ns = (if \<not> Contains ns '':'' then JoinHostPort ns ''53'' else ns)"

section \<open>The state directory\<close>

text \<open>\<open>home\<close> is \<open>os.UserHomeDir()\<close>.\<close>

definition defaultStateDir :: "string result \<Rightarrow> string" where
  "defaultStateDir home = (case home of Inr h \<Rightarrow> filepath_Join [h, ''.swe-swe-tunnel''] | Inl _ \<Rightarrow> ''./.swe-swe-tunnel'')"

section \<open>Specification\<close>

type_synonym ticks = "(gotime \<times> (string list \<Rightarrow> string \<Rightarrow> goerr + cert)) list"

abbreviation entry :: "Manager \<Rightarrow> string \<Rightarrow> certEntry option" where
  "entry m b \<equiv> map_of (cs_entries (m_store m)) b"

text \<open>The authority returned \<open>c\<close> for the names of \<open>b\<close> at a tick at which the certificate of \<open>b\<close> had at most 30 days left.\<close>

definition renewed :: "(string \<Rightarrow> string) \<Rightarrow> Manager \<Rightarrow> ticks \<Rightarrow> string \<Rightarrow> string list \<Rightarrow> cert \<Rightarrow> bool" where
  "renewed uni m ticks b sans c \<longleftrightarrow>
     (\<exists>pre now obt post old. ticks = pre @ (now, obt) # post \<and> entry (Manager_Run uni m pre) b = Some old
        \<and> expiresIn (ce_cert old) now \<le> renewBefore \<and> obt sans b = Inr c)"

section \<open>Lemmas\<close>

text \<open>The janitor is the pruning that the simulation of the limiter allows at any time.\<close>

lemma RunPruner_run: "sw_run s (ops @ map LPrune ticks) = (RunPruner (fst (sw_run s ops)) ticks, snd (sw_run s ops))"
proof -
  have "foldl sw_step (s, h) (map LPrune ticks) = (RunPruner s ticks, h)" for s h
    by (induction ticks arbitrary: s) (simp_all add: RunPruner_def)
  then show ?thesis by (simp add: sw_run_def) (metis prod.collapse)
qed

lemma Manager_Run_snoc: "Manager_Run uni m (ticks @ [(now, obt)]) = checkAndRenew uni now obt (Manager_Run uni m ticks)"
  by (simp add: Manager_Run_def)

lemma renew_all_wf: "gomap_wf (cs_entries s) \<Longrightarrow> gomap_wf (cs_entries (foldl (renew_one uni now obt) s es))"
  by (induction es arbitrary: s) (auto simp: renew_one_def addEntry_entries gomap_wf_def distinct_update split: sum.splits)

lemma checkAndRenew_wf: "gomap_wf (cs_entries (m_store m)) \<Longrightarrow> gomap_wf (cs_entries (m_store (checkAndRenew uni now obt m)))"
  by (simp add: checkAndRenew_def renew_all_wf)

text \<open>What one pass leaves of an entry.\<close>

lemma checkAndRenew_entry:
  assumes "cs_inv uni (m_store m)" "gomap_wf (cs_entries (m_store m))"
  shows "entry m b = None \<Longrightarrow> entry (checkAndRenew uni now obt m) b = None"
    "entry m b = Some e \<Longrightarrow> \<exists>e'. entry (checkAndRenew uni now obt m) b = Some e' \<and> ce_sans e' = ce_sans e
       \<and> (if expiresIn (ce_cert e) now > renewBefore \<or> isl (obt (ce_sans e) b) then e' = e else obt (ce_sans e) b = Inr (ce_cert e'))"
proof -
  note c = checkAndRenew_safe [OF assms, of now obt, THEN conjunct2, THEN conjunct2, rule_format, of b]
  show "entry m b = None \<Longrightarrow> entry (checkAndRenew uni now obt m) b = None" using c by simp
  show "entry m b = Some e \<Longrightarrow> \<exists>e'. entry (checkAndRenew uni now obt m) b = Some e' \<and> ce_sans e' = ce_sans e
       \<and> (if expiresIn (ce_cert e) now > renewBefore \<or> isl (obt (ce_sans e) b) then e' = e else obt (ce_sans e) b = Inr (ce_cert e'))"
    using c by (simp only: option.case)
qed

lemma Manager_Run_inv:
  assumes "cs_inv uni (m_store m)" "gomap_wf (cs_entries (m_store m))"
  shows "cs_inv uni (m_store (Manager_Run uni m ticks)) \<and> gomap_wf (cs_entries (m_store (Manager_Run uni m ticks)))
    \<and> m_orderLimit (Manager_Run uni m ticks) = m_orderLimit m"
proof (induction ticks rule: rev_induct)
  case (snoc t ts)
  then show ?case by (cases t) (simp add: Manager_Run_snoc checkAndRenew_wf, simp add: checkAndRenew_def renew_all_inv)
qed (simp add: Manager_Run_def assms)

lemma renewed_snoc: "renewed uni m ts b sans c \<Longrightarrow> renewed uni m (ts @ [t]) b sans c"
  unfolding renewed_def by (metis append.assoc append_Cons)

lemma Manager_Run_entry:
  assumes "cs_inv uni (m_store m)" "gomap_wf (cs_entries (m_store m))"
  shows "case entry m b of
      None \<Rightarrow> entry (Manager_Run uni m ticks) b = None
    | Some e \<Rightarrow> (\<exists>e'. entry (Manager_Run uni m ticks) b = Some e' \<and> ce_sans e' = ce_sans e \<and> (e' = e \<or> renewed uni m ticks b (ce_sans e) (ce_cert e')))"
proof (induction ticks rule: rev_induct)
  case Nil
  then show ?case by (simp add: Manager_Run_def split: option.splits)
next
  case (snoc t ts)
  obtain now obt where t: "t = (now, obt)" by fastforce
  have inv: "cs_inv uni (m_store (Manager_Run uni m ts))" "gomap_wf (cs_entries (m_store (Manager_Run uni m ts)))"
    using Manager_Run_inv [OF assms] by blast+
  note one = checkAndRenew_entry [OF inv, where b = b and now = now and obt = obt]
  show ?case
  proof (cases "entry m b")
    case None
    then show ?thesis using snoc one(1) by (simp add: t Manager_Run_snoc)
  next
    case (Some e)
    then obtain e1 where e1: "entry (Manager_Run uni m ts) b = Some e1" "ce_sans e1 = ce_sans e" "e1 = e \<or> renewed uni m ts b (ce_sans e) (ce_cert e1)"
      using snoc by auto
    obtain e2 where e2: "entry (Manager_Run uni m (ts @ [t])) b = Some e2" "ce_sans e2 = ce_sans e"
      and c: "if expiresIn (ce_cert e1) now > renewBefore \<or> isl (obt (ce_sans e) b) then e2 = e1 else obt (ce_sans e) b = Inr (ce_cert e2)"
      using one(2) [OF e1(1)] unfolding e1(2) t Manager_Run_snoc by blast
    have "renewed uni m (ts @ [t]) b (ce_sans e) (ce_cert e2)" if "e2 \<noteq> e1"
      using that c e1(1) unfolding renewed_def t by (intro exI [of _ ts] exI [of _ now] exI [of _ obt] exI [of _ "[]"] exI [of _ e1]) (auto split: if_splits)
    then have "e2 = e \<or> renewed uni m (ts @ [t]) b (ce_sans e) (ce_cert e2)" using e1(3) renewed_snoc by blast
    then show ?thesis using Some e2 by simp
  qed
qed

section \<open>Properties\<close>

text \<open>
  C39: certificates survive the renewal loop.  Whatever the authority answers at any number of ticks: no base name is lost and none appears, every
  certificate keeps the names it was ordered for, and it is replaced only by one that the authority returned for these names at a tick at which the
  certificate then in service had at most 30 days left.  Renewals are not charged against the order cap, and the table stays well formed.  If at the
  last tick the authority answers for a name whose certificate has at most 30 days left, the new certificate is in service.
\<close>

theorem renewals_keep_names:
  assumes "cs_inv uni (m_store m)" "gomap_wf (cs_entries (m_store m))"
  shows "cs_inv uni (m_store (Manager_Run uni m ticks)) \<and> m_orderLimit (Manager_Run uni m ticks) = m_orderLimit m
    \<and> (\<forall>b. case map_of (cs_entries (m_store m)) b of
         None \<Rightarrow> map_of (cs_entries (m_store (Manager_Run uni m ticks))) b = None
       | Some e \<Rightarrow> (\<exists>e'. map_of (cs_entries (m_store (Manager_Run uni m ticks))) b = Some e' \<and> ce_sans e' = ce_sans e
           \<and> (e' = e \<or> renewed uni m ticks b (ce_sans e) (ce_cert e'))))
    \<and> (\<forall>b old c. map_of (cs_entries (m_store (Manager_Run uni m ticks))) b = Some old \<and> expiresIn (ce_cert old) now \<le> renewBefore \<and> obt (ce_sans old) b = Inr c \<longrightarrow>
         map_option ce_cert (map_of (cs_entries (m_store (Manager_Run uni m (ticks @ [(now, obt)])))) b) = Some c)"
proof -
  have inv: "cs_inv uni (m_store (Manager_Run uni m ticks))" "gomap_wf (cs_entries (m_store (Manager_Run uni m ticks)))"
    using Manager_Run_inv [OF assms] by blast+
  have "map_option ce_cert (entry (Manager_Run uni m (ticks @ [(now, obt)])) b) = Some c"
    if "entry (Manager_Run uni m ticks) b = Some old" "expiresIn (ce_cert old) now \<le> renewBefore" "obt (ce_sans old) b = Inr c" for b old c
    using checkAndRenew_entry(2) [OF inv that(1), of now obt] that(2,3) by (auto simp: Manager_Run_snoc)
  then show ?thesis using Manager_Run_inv [OF assms] Manager_Run_entry [OF assms] by blast
qed

theorem renewals_keep_names_witness:
  "let m = (Manager_New ''ex.com'')\<lparr>m_store := add_all id (newCertStore ''ex.com'') demo_adds\<rparr>;
       ok = (\<lambda>_ _. Inr (mk_cert [])); failing = (\<lambda>_ _. Inl (plain_err ''dns''))
   in map_option ce_cert (map_of (cs_entries (m_store (Manager_Run id m [(0, failing), (0, ok)]))) ''_.ex.com'') = Some (mk_cert [])"
proof -
  let ?m = "(Manager_New ''ex.com'')\<lparr>m_store := add_all id (newCertStore ''ex.com'') demo_adds\<rparr>"
  let ?ok = "\<lambda>(_::string list) (_::string). Inr (mk_cert [])" and ?no = "\<lambda>(_::string list) (_::string). Inl (plain_err ''dns'')"
  have inv: "cs_inv id (m_store ?m)" by (simp add: add_all_inv newCertStore_inv)
  have wf: "gomap_wf (cs_entries (m_store ?m))" by code_simp
  obtain e where e: "entry ?m ''_.ex.com'' = Some e" "\<not> expiresIn (ce_cert e) 0 > renewBefore"
    by (auto simp: add_all_def demo_adds_def addEntry_entries newCertStore_def mk_cert_def expiresIn_def time_Sub_def minDuration_def maxDuration_def)
  have "entry (Manager_Run id ?m [(0, ?no)]) ''_.ex.com'' = Some e"
    using checkAndRenew_entry(2) [OF inv wf e(1), of 0 ?no] by (simp add: Manager_Run_def)
  then show ?thesis
    using renewals_keep_names [OF inv wf, of "[(0, ?no)]" 0 ?ok] e(2) by (simp add: Let_def)
qed

end
