(* ===== verification/Server_Main.thy ===== *)
theory Server_Main
  imports Admin Background Version
begin

text \<open>
  The process \<open>swe-swe-tunneld\<close> as a whole: \<open>main\<close> of \<open>cmd/swe-swe-tunneld/main.go\<close> first tries the operator's commands, then the version flag, then boots the
  server.  Commands and server meet in the state directory, so what one process does is what the next one finds: the databases are a function of their path (a database
  that was never written is empty), the other files are a disk.
\<close>

section \<open>Opening the database\<close>

text \<open>\<open>identity.Open\<close>, with the faults of the driver.\<close>

definition identity_Open :: "(string \<Rightarrow> string) \<Rightarrow> string option \<Rightarrow> string option \<Rightarrow> (string \<Rightarrow> Store option) \<Rightarrow> string \<Rightarrow> Store result" where
  "identity_Open quote open_fault migrate_fault files path =
     (case open_fault of
        Some e \<Rightarrow> Inl (''open identity db '' @ quote path @ '': '' @ e)
      | None \<Rightarrow> migrate migrate_fault (files path))"

section \<open>main\<close>

text \<open>The state directory of the operator's commands, which run before the flags are parsed.\<close>

definition commandStateDir :: "(string \<Rightarrow> string) \<Rightarrow> string result \<Rightarrow> string" where
  "commandStateDir getenv home =
     (let sd = getenv ''SWE_TUNNEL_STATE'' in if sd = [] then defaultStateDir home else sd)"

text \<open>
  What a process does: it exits with a code and an output, leaving the databases and the disk, or it is the server that \<open>boot\<close> describes.  \<open>parse\<close> is
  \<open>flag.Parse\<close> on the rest of the arguments: the options and whether the version was asked for; a wrong flag ends the process with 2.
\<close>

datatype main_out = Exited nat string "string \<Rightarrow> Store" disk | Daemon "boot_out option"

record 'k main_env =
  mn_getenv :: "string \<Rightarrow> string"
  mn_home :: "string result"
  mn_flags :: subcmd_flags
  mn_pki :: "'k pki"
  mn_mtls :: "'k mtls_env"
  mn_admin :: admin_env
  mn_parse :: "string list \<Rightarrow> (options \<times> bool) result"
  mn_version :: string
  mn_build :: "(string \<times> string) list option"
  mn_boot :: "'k boot_env"

definition tunneld_main :: "'k main_env \<Rightarrow> string list \<Rightarrow> (string \<Rightarrow> Store) \<Rightarrow> disk \<Rightarrow> main_out" where
  "tunneld_main me args dbs d =
     (let sd = commandStateDir (mn_getenv me) (mn_home me); db = identityDBPath sd in
      case runSubcommand (mn_flags me) (mn_pki me) (mn_mtls me) (mn_admin me) args sd (dbs db) d of
        Some (code, out, s', d') \<Rightarrow> Exited code out (dbs(db := s')) d'
      | None \<Rightarrow>
          (case mn_parse me (tl args) of
             Inl _ \<Rightarrow> Exited 2 [] dbs d
           | Inr (opt, showVersion) \<Rightarrow>
               if showVersion then Exited 0 (version_String (mn_version me) (mn_build me) @ ''\<newline>'') dbs d
               else Daemon (boot (mn_boot me) opt)))"

text \<open>A later start of the server on these databases, in the same environment and without \<open>--state-dir\<close>.\<close>

definition next_start :: "'k main_env \<Rightarrow> (string \<Rightarrow> Store) \<Rightarrow> 'k boot_env \<Rightarrow> options \<Rightarrow> daemon \<Rightarrow> bool" where
  "next_start me dbs env opt dm \<longleftrightarrow>
     bt_getenv env = mn_getenv me \<and> bt_defaultState env = defaultStateDir (mn_home me) \<and> op_stateDir opt = defaultStateDir (mn_home me)
     \<and> bt_open env = identity_Open id None None (\<lambda>p. Some (dbs p)) \<and> boot env opt = Some (Listening dm)"

section \<open>Sample values\<close>

definition demo_main :: "bytes main_env" where
  "demo_main = \<lparr>mn_getenv = bt_getenv demo_boot_env, mn_home = Inr ''/root'',
     mn_flags = \<lparr>sf_init = (\<lambda>_. Inl []), sf_issue = (\<lambda>_. Inl []), sf_sign = (\<lambda>_. Inl []), sf_list = (\<lambda>_. Inl []), sf_delete = (\<lambda>_. Inr (False, [], [''app'']))\<rparr>,
     mn_pki = demo_pki, mn_mtls = demo_mtls_env, mn_admin = demo_admin, mn_parse = (\<lambda>_. Inl []), mn_version = [], mn_build = None, mn_boot = demo_boot_env\<rparr>"

section \<open>Lemmas\<close>

text \<open>The server finds the database that the commands use.\<close>

lemma resolved_stateDir:
  "op_stateDir opt = defaultStateDir home \<Longrightarrow> op_stateDir (resolveEnv getenv (defaultStateDir home) opt) = commandStateDir getenv home"
  by (simp add: resolveEnv_def commandStateDir_def Let_def)

text \<open>\<open>--state-dir\<close> is overridden by the environment when it names the default directory.\<close>

lemma state_dir_overridden:
  "flagSet opt ''state-dir'' \<Longrightarrow> op_stateDir opt = dflt \<Longrightarrow> getenv ''SWE_TUNNEL_STATE'' \<noteq> [] \<Longrightarrow>
   op_stateDir (resolveEnv getenv dflt opt) = getenv ''SWE_TUNNEL_STATE''"
  by (simp add: resolveEnv_def Let_def)

lemma next_start_store:
  assumes "next_start me dbs env opt dm"
  shows "sv_store (dm_server dm) = dbs (identityDBPath (commandStateDir (mn_getenv me) (mn_home me)))"
proof -
  let ?opt = "resolveEnv (bt_getenv env) (bt_defaultState env) opt"
  have b: "boot env opt = Some (Listening dm)" using assms by (simp add: next_start_def)
  from boot_Listening [OF b refl] obtain ports c where S: "startServer env ?opt ports c = Some (Listening dm)" by blast
  have "op_stateDir ?opt = commandStateDir (mn_getenv me) (mn_home me)"
    using assms resolved_stateDir [of opt "mn_home me" "mn_getenv me"] by (simp add: next_start_def)
  moreover have "bt_open env p = Inr (dbs p)" for p using assms by (simp add: next_start_def identity_Open_def migrate_def)
  ultimately show ?thesis
    using S by (auto simp: startServer_def Let_def identityDBPath_def split: sum.splits option.splits)
qed

section \<open>Properties\<close>

text \<open>
  C40: what an operator releases stays released.  Let \<open>identity-delete\<close> run as a process of its own.  It touches no other database than the one in the
  state directory, and nothing at all when its arguments are refused; there it frees at most the name it was given, which has to have the shape of a name, and it
  removes at most the certificate and the key file of that name.  If it reports success, then every later start of the server in the same
  environment, on the databases as the command left them, comes up with exactly the former owners less that name: the two programs agree on where the
  state is.  After a purge no certificate of the name is found on the disk.
\<close>

theorem operator_release:
  assumes "tunneld_main me (prog # ''identity-delete'' # args) dbs d = Exited c out dbs' d'"
    "sd = commandStateDir (mn_getenv me) (mn_home me)" "asked = sf_delete (mn_flags me) args"
  shows "(\<forall>p. p \<noteq> identityDBPath sd \<longrightarrow> dbs' p = dbs p) \<and> (c = 2 \<longrightarrow> dbs' = dbs \<and> d' = d)
    \<and> (\<forall>u. owner_of (dbs' (identityDBPath sd)) u \<noteq> owner_of (dbs (identityDBPath sd)) u \<longrightarrow>
         (\<exists>purge apex. asked = Inr (purge, apex, [u])) \<and> ValidateUnique (av_quote (mn_admin me)) u = None)
    \<and> (\<forall>p. map_of d' p \<noteq> map_of d p \<longrightarrow>
         (\<exists>apex u. asked = Inr (True, apex, [u]) \<and> p \<in> {certBase sd u apex @ ''.crt'', certBase sd u apex @ ''.key''}))
    \<and> (c = 0 \<longrightarrow> (\<exists>purge apex u. asked = Inr (purge, apex, [u])
         \<and> (\<forall>env opt dm. next_start me dbs' env opt dm \<longrightarrow> owner_of (sv_store (dm_server dm)) = (owner_of (dbs (identityDBPath sd)))(u := None))
         \<and> (purge \<longrightarrow> (\<forall>m x. st_StateDir m = sd \<longrightarrow> CHR ''/'' \<notin> set apex \<longrightarrow>
              loadCertFile x (cert_reads m d') (''_.'' @ TunnelLabel u @ ''.'' @ apex) = Inr None))))"
proof -
  let ?db = "identityDBPath sd"
  have R: "runIdentityDelete (mn_admin me) asked sd (dbs ?db) d = (c, out, dbs' ?db, d')" and o: "dbs' = dbs(?db := dbs' ?db)"
    using assms by (auto simp: tunneld_main_def runSubcommand_def Let_def split: prod.splits)
  note E = identity_delete_exact [OF R]
  note E2 = E [THEN conjunct2] note E3 = E2 [THEN conjunct2] note E4 = E3 [THEN conjunct2]
  have start: "sv_store (dm_server dm) = dbs' ?db" if "next_start me dbs' env opt dm" for env opt dm
    using next_start_store [OF that] assms(2) by simp
  have 1: "dbs' p = dbs p" if "p \<noteq> ?db" for p using o that by (metis fun_upd_other)
  have 2: "dbs' = dbs" if "dbs' ?db = dbs ?db" using 1 that by (metis ext)
  show ?thesis
  proof (intro conjI)
    show "\<forall>p. p \<noteq> ?db \<longrightarrow> dbs' p = dbs p" using 1 by blast
    show "c = 2 \<longrightarrow> dbs' = dbs \<and> d' = d" using E [THEN conjunct1] 2 by blast
    show "\<forall>u. owner_of (dbs' ?db) u \<noteq> owner_of (dbs ?db) u \<longrightarrow>
         (\<exists>purge apex. asked = Inr (purge, apex, [u])) \<and> ValidateUnique (av_quote (mn_admin me)) u = None" using E2 [THEN conjunct1] by blast
    show "\<forall>p. map_of d' p \<noteq> map_of d p \<longrightarrow>
         (\<exists>apex u. asked = Inr (True, apex, [u]) \<and> p \<in> {certBase sd u apex @ ''.crt'', certBase sd u apex @ ''.key''})"
      using E3 [THEN conjunct1] by metis
    show "c = 0 \<longrightarrow> (\<exists>purge apex u. asked = Inr (purge, apex, [u])
         \<and> (\<forall>env opt dm. next_start me dbs' env opt dm \<longrightarrow> owner_of (sv_store (dm_server dm)) = (owner_of (dbs ?db))(u := None))
         \<and> (purge \<longrightarrow> (\<forall>m x. st_StateDir m = sd \<longrightarrow> CHR ''/'' \<notin> set apex \<longrightarrow>
              loadCertFile x (cert_reads m d') (''_.'' @ TunnelLabel u @ ''.'' @ apex) = Inr None)))"
      using E4 [THEN conjunct1] start by metis
  qed
qed

theorem operator_release_witness:
  "\<exists>out dbs' d' env opt dm. tunneld_main demo_main [''swe-swe-tunneld'', ''identity-delete'', ''app''] (\<lambda>_. demo_owners) [] = Exited 0 out dbs' d'
    \<and> next_start demo_main dbs' env opt dm \<and> owner_of (sv_store (dm_server dm)) ''app'' = None \<and> owner_of (sv_store (dm_server dm)) ''web'' = Some ''w''"
proof -
  let ?dir = "defaultStateDir (Inr ''/root'')" and ?args = "''swe-swe-tunneld'' # ''identity-delete'' # [''app'']"
  have sd: "commandStateDir (mn_getenv demo_main) (mn_home demo_main) = ?dir" by (simp add: commandStateDir_def demo_main_def demo_boot_env_def)
  have asked: "sf_delete (mn_flags demo_main) [''app''] = Inr (False, [], [''app''])" by (simp add: demo_main_def)
  have v: "ValidateUnique id ''app'' = None" by code_simp
  have "runSubcommand (mn_flags demo_main) (mn_pki demo_main) (mn_mtls demo_main) (mn_admin demo_main) ?args sd demo_owners []
      = Some (runIdentityDelete demo_admin (Inr (False, [], [''app''])) sd demo_owners [])" for sd
    by (simp add: runSubcommand_def demo_main_def)
  moreover have "\<exists>out s' d'. runIdentityDelete demo_admin (Inr (False, [], [''app''])) sd demo_owners [] = (0, out, s', d')" for sd
    by (simp add: runIdentityDelete_def demo_admin_def v demo_owners_def Store_Get_def Store_Delete_def)
  ultimately obtain out dbs' d' where M: "tunneld_main demo_main ?args (\<lambda>_. demo_owners) [] = Exited 0 out dbs' d'"
    unfolding tunneld_main_def Let_def by (metis (no_types, lifting) case_prod_conv option.case(2))
  obtain dm where B: "boot (demo_boot_env\<lparr>bt_defaultState := ?dir, bt_open := \<lambda>p. Inr (dbs' p)\<rparr>) (demo_options\<lparr>op_stateDir := ?dir\<rparr>) = Some (Listening dm)"
    using demo_boot_at by blast
  have N: "next_start demo_main dbs' (demo_boot_env\<lparr>bt_defaultState := ?dir, bt_open := \<lambda>p. Inr (dbs' p)\<rparr>) (demo_options\<lparr>op_stateDir := ?dir\<rparr>) dm"
    using B by (simp add: next_start_def demo_main_def identity_Open_def migrate_def fun_eq_iff)
  have o: "owner_of demo_owners = [''web'' \<mapsto> ''w'', ''app'' \<mapsto> ''k'']" by (simp add: owner_of_def demo_owners_def fun_eq_iff)
  from operator_release [OF M sd [symmetric] asked [symmetric]] N
  have "owner_of (sv_store (dm_server dm)) = (owner_of demo_owners)(''app'' := None)" by auto
  then show ?thesis using M N o by (intro exI conjI) (assumption | simp)+
qed

end
