(* ===== verification/Spec2Isabelle.thy ===== *)
theory Spec2Isabelle
  imports Port_Policy Rate_Limit Control Identity_Store Allowlist Registry Cert_Store Cert_Manager
    Register Register_Budget Connect Cert_Ensurer Router Client Client_Server
    Cert_Disk Mtls Boot Admin Server_Steps Identity_File Events Client_Main Fake_Server Version
    Lifecycle Front Echo Background Server_Main
begin

text \<open>
  A verification of swe-swe-tunnel, a reverse tunnel in Go.  A client (\<open>cmd/swe-swe-tunnel\<close>) keeps
  one connection to the server (\<open>cmd/swe-swe-tunneld\<close>) and claims a name; the server authenticates
  the claim, obtains a certificate for the name and forwards public HTTPS requests for hosts
  \<open>{port}.{name}-tunnel.{apex}\<close> through the connection to that local port of the client.

  \<^bold>\<open>Libraries of the language.\<close>
  \<^item> \<open>Prelude\<close>: Go strings, byte searches, ASCII case, association lists as Go maps, words of 64 bits
    with their wrap-around; the lemmas and collections the components share.
  \<^item> \<open>Go_Time\<close>: instants and durations as nanoseconds, saturating \<open>Sub\<close>, wrapping negation.
  \<^item> \<open>Go_Encoding\<close>: base64 without padding, hex, big-endian integers, decimal numbers, \<open>SplitHostPort\<close>.
  \<^item> \<open>Go_JSON\<close>: the encoder and decoder of \<open>encoding/json\<close> for objects of strings and integers.
    The decoder recurses on fuel; the fuel is the length of the text, and every step
    consumes a byte, so it suffices (the round trips are proved with this fuel).
  \<^item> \<open>Reloadable\<close>: the locale of a setting that is reloaded from outside, keeping the old value on
    failure; interpreted by \<open>Port_Policy\<close>, \<open>Allowlist\<close> and \<open>Mtls\<close>.
  \<^item> \<open>Go_OS\<close>: files with modes, the calls of package \<open>os\<close> with their faults, \<open>filepath.Clean\<close> and \<open>Join\<close>, padded base64, and
    what is relied on of the PEM and PKCS#8 codecs.

  \<^bold>\<open>Components.\<close>
  \<^item> \<open>Port_Policy\<close> (\<open>internal/portpolicy\<close>): \<open>Parse\<close>, \<open>Permits\<close>, \<open>String\<close> and the reloadable \<open>Set\<close>.  A spec
    permits exactly the ports it names, prints and parses back, and a reload is fail-safe.
  \<^item> \<open>Rate_Limit\<close> (\<open>internal/ratelimit\<close>): the sliding window with pruning, a key bound and refunds.
    It refines the unbounded history of admitted events, stays within its bounds and gives
    exact retry hints.
  \<^item> \<open>Control\<close> (\<open>internal/control/proto.go\<close>): frames, messages, signing payloads, the shape of a name.
    Messages round-trip through the wire, reads are bounded, payloads are unambiguous.
  \<^item> \<open>Identity_Store\<close> (\<open>internal/identity/store.go\<close>): the table of owners, driver faults being an
    argument of every operation.  A name keeps its owner until it is rotated or deleted.
  \<^item> \<open>Allowlist\<close> (\<open>internal/allowlist\<close>): the keys of the files of a directory, given by a file-system argument.
  \<^item> \<open>Registry\<close> (\<open>registry\<close> of \<open>cmd/swe-swe-tunneld/tunnel.go\<close>): the two maps of live sessions, under
    every interleaving of handlers (a step relation), and the revocation of dropped keys.
  \<^item> \<open>Cert_Store\<close> (\<open>internal/cert/store.go\<close>, \<open>static.go\<close>): the table of certificates and the choice by SNI.
  \<^item> \<open>Cert_Manager\<close> (\<open>internal/cert/manager.go\<close>, \<open>errors.go\<close>, \<open>precheck.go\<close>, \<open>dnscheck.go\<close>): issuance
    under the order cap, renewal, the DNS pre-check, the wildcard probe.
  \<^item> \<open>Register\<close> (\<open>handleRegister\<close>, \<open>handleDeregister\<close>): every branch over the shared state of the server.
    Goroutines run in between: \<open>re_yield\<close> gives, per point of the code where shared state
    is touched, what the others did since the last point.  Who gets in, that honest clients do, how a
    name changes hands, the clock check, the race for a free name.
  \<^item> \<open>Register_Budget\<close>: how many attempts of an address pass the gate when refunds are counted.
  \<^item> \<open>Connect\<close> (\<open>connectHandler\<close>, \<open>runControlLoop\<close>): from the upgrade to the deferred removal.  The loop
    terminates because every round consumes bytes of the stream; this is its measure.
  \<^item> \<open>Cert_Ensurer\<close>: the interface \<open>certEnsurer\<close> as a locale, interpreted by the ACME manager and by the
    loader of pre-provisioned certificates, and what a new registration gets from either.
  \<^item> \<open>Router\<close> (\<open>route\<close>, \<open>injectClientIdentityHeaders\<close>, \<open>newSessionProxy\<close>; \<open>PortDispatchHandler\<close> of the client):
    which session and which port a request reaches, what it says about the caller, and that everything else about it
    crosses the tunnel unchanged, upgrades included.
  \<^item> \<open>Client\<close> (\<open>internal/tunnelclient\<close>: \<open>client.go\<close>, \<open>run.go\<close>, \<open>tls_perm.go\<close>): the client's half of the protocol, the
    classification of errors and the reconnect loop, run over a finite list of rounds (what
    each attempt, session and sleep does); every theorem is for all such lists.
  \<^item> \<open>Client_Server\<close>: both halves run against each other.
  \<^item> \<open>Lifecycle\<close>: \<open>Run\<close> and \<open>Connect\<close> against \<open>connectHandler\<close> over the life of a tunnel: claimed, lost, refused while the old session
    lingers, served again and given up.
  \<^item> \<open>Front\<close> (\<open>main\<close> and \<open>helloHandler\<close> of \<open>cmd/swe-swe-tunneld/main.go\<close>): the request multiplexers of the two listeners.  \<open>http.ServeMux\<close> is modelled for
    the patterns in use, with path cleaning and decoded segments; the locale \<open>plain_mux\<close> gives its behaviour from a table of
    paths and is interpreted for each multiplexer.
  \<^item> \<open>Echo\<close> (\<open>examples/echo/main.go\<close>): the echo server that the end-to-end tests run behind a tunnel, and a request on its whole way to it.
  \<^item> \<open>Cert_Disk\<close> (\<open>obtain\<close>, \<open>loadOrCreateUser\<close>, \<open>saveResource\<close> of \<open>internal/cert/manager.go\<close>): the ACME account and the certificate files on
    a disk.  What an order returns is what a restart reads back; what a failed order leaves behind.
  \<^item> \<open>Mtls\<close> (\<open>internal/mtls/ca.go\<close>, \<open>cmd/swe-swe-tunneld/mtls.go\<close>): the certificate authority and the reloadable pool of trusted authorities.
    Its files round-trip and everything it issues is trusted by the pool loaded from it.  The loop over the PEM blocks is a
    \<open>partial_function\<close>; it returns because every block leaves a shorter rest.
  \<^item> \<open>Boot\<close> (\<open>main\<close> of \<open>cmd/swe-swe-tunneld/main.go\<close>): settings, the checks that refuse a configuration, what is loaded, the TLS
    policy of the two listeners, SIGHUP.  A running server is gated as configured, and each reloadable setting is the
    last version that loaded.
  \<^item> \<open>Background\<close>: the janitors of the limiters, the renewal loop and the DNS provider of an order.  No certificate is lost by
    renewing it, whatever the authority answers.
  \<^item> \<open>Admin\<close> (\<open>subcmds.go\<close>, \<open>identity_subcmd.go\<close>): the operator's commands.  Releasing a name touches nothing else; key
    files are read as the allowlist reads them; what a signed certificate says.
  \<^item> \<open>Server_Main\<close> (\<open>main\<close>, \<open>identity.Open\<close>): the process as a whole, a command or the server, and what a command leaves for the next start.
  \<^item> \<open>Server_Steps\<close>: the server as one transition system of atomic accesses to its shared state.  The handlers are sequences of its steps,
    whatever the other goroutines do in between, and every state reachable from a boot is well formed.
  \<^item> \<open>Identity_File\<close> (\<open>internal/tunnelclient/identity.go\<close>): the client's key, created once and then stable.
  \<^item> \<open>Events\<close> (\<open>internal/tunnelclient/events.go\<close>): the events for the supervisor, one line of JSON each.
  \<^item> \<open>Client_Main\<close> (\<open>cmd/swe-swe-tunnel/main.go\<close>): the client's command, from the parsed flags to the exit code.
  \<^item> \<open>Fake_Server\<close> (\<open>internal/tunneldfake/fake.go\<close>): the fake server of the client's tests replies to a registration as the real server does.
  \<^item> \<open>Version\<close> (\<open>internal/version/version.go\<close>): the build identifier.

  \<^bold>\<open>Conventions.\<close>  Bytes and strings are character lists, Go maps association lists, pointers natural numbers, nil
  is \<open>None\<close>, errors are values of a sum or of an option.  A stream is a record of the bytes still to
  be read, the bytes written and an optional bound after which writing fails.  Integers that
  can overflow keep their width (\<open>wrap64\<close>, \<open>int64\<close>).

  \<^bold>\<open>Parameters.\<close>  Ed25519 verification and signing, SHA-256, the codecs of X.509, PEM, PKCS#8 and PKCS#12, the ACME client, DNS answers, the
  faults of the file system, the SQLite driver, random numbers, the clock, \<open>%q\<close> and the case mapping of
  non-ASCII text are arguments of the definitions that use them.

  \<^bold>\<open>Not modelled.\<close>  Logging and text on standard error; parsing the command line (package \<open>flag\<close>: the models start from the values of the
  flags); HTTP servers, TLS handshakes and yamux (their calls appear by whether they
  succeed, a handshake by the certificate policy of its configuration; of the reverse proxies and the transport there is what they do to the
  request headers); the times of tickers and timers (a loop over a ticker is a fold over its ticks); the orderly shutdown of the
  server; the status of a redirect of \<open>http.ServeMux\<close>, which depends on the release of Go; the HTTP test server and the certificate under the
  fake server; the WebSocket library under the echo server, of which only the results of its reads appear.
\<close>

end
